(* ===== verification/Prelude.thy ===== *)
theory Prelude
  imports Main "HOL-Library.Word" "HOL-Library.AList" "HOL-Library.Sublist"
begin

text \<open>
  Shared vocabulary of the development: the machine integers and byte strings of the Rust
  sources, \<open>Result\<close> values as sums with the error on the left, effectful code as functions
  from a state to a result and the state it leaves behind (also when it fails), checked
  arithmetic on \<open>u64\<close>, fixed-offset reads and writes of byte buffers, big-endian integers
  and hash maps.  The crates are built for 64-bit targets, so \<open>usize\<close> and \<open>u64\<close> have the
  same range; lengths of buffers are natural numbers and every checked operation on them
  compares with \<open>2 ^ 64\<close>.
\<close>

section \<open>Machine integers and byte strings\<close>

type_synonym u8 = "8 word"
type_synonym u16 = "16 word"
type_synonym u32 = "32 word"
type_synonym u64 = "64 word"
type_synonym bytes = "u8 list"

text \<open>Proof rules that describe a successful \<open>Result\<close> (\<open>ok_iff\<close>) and the layout of
  fixed-offset buffers (\<open>layout\<close>).\<close>

named_theorems ok_iff
named_theorems layout

section \<open>Results\<close>

text \<open>\<open>Result<T, E>\<close> is \<open>'e + 'a\<close>; \<open>and_then\<close> is the \<open>?\<close> operator followed by the rest of
  the function.\<close>

fun and_then :: "'e + 'a \<Rightarrow> ('a \<Rightarrow> 'e + 'b) \<Rightarrow> 'e + 'b" where
  "and_then (Inl e) f = Inl e"
| "and_then (Inr x) f = f x"

fun map_err :: "('e \<Rightarrow> 'f) \<Rightarrow> 'e + 'a \<Rightarrow> 'f + 'a" where
  "map_err g (Inl e) = Inl (g e)"
| "map_err g (Inr x) = Inr x"

fun ok_or :: "'a option \<Rightarrow> 'e \<Rightarrow> 'e + 'a" where
  "ok_or None e = Inl e"
| "ok_or (Some x) e = Inr x"

fun ok :: "'e + 'a \<Rightarrow> 'a option" where
  "ok (Inl e) = None"
| "ok (Inr x) = Some x"

fun is_ok :: "'e + 'a \<Rightarrow> bool" where
  "is_ok (Inl e) = False"
| "is_ok (Inr x) = True"

lemma and_then_Inr_iff [ok_iff]: "and_then m f = Inr y \<longleftrightarrow> (\<exists>x. m = Inr x \<and> f x = Inr y)"
  by (cases m) auto

lemma and_then_Inl_iff:
  "and_then m f = Inl e \<longleftrightarrow> m = Inl e \<or> (\<exists>x. m = Inr x \<and> f x = Inl e)"
  by (cases m) auto

lemma map_err_Inr_iff [ok_iff]: "map_err g m = Inr y \<longleftrightarrow> m = Inr y"
  by (cases m) auto

lemma ok_or_Inr_iff [ok_iff]: "ok_or m e = Inr y \<longleftrightarrow> m = Some y"
  by (cases m) auto

lemma ok_Some_iff: "ok m = Some y \<longleftrightarrow> m = Inr y"
  by (cases m) auto

lemma is_ok_iff: "is_ok m \<longleftrightarrow> (\<exists>x. m = Inr x)"
  by (cases m) auto

text \<open>A \<open>for\<close> loop whose body may return an error early.\<close>

fun fold_result :: "('x \<Rightarrow> 's \<Rightarrow> 'e + 's) \<Rightarrow> 'x list \<Rightarrow> 's \<Rightarrow> 'e + 's" where
  "fold_result f [] s = Inr s"
| "fold_result f (x # xs) s = and_then (f x s) (fold_result f xs)"

lemma fold_result_append:
  "fold_result f (xs @ ys) s = and_then (fold_result f xs s) (fold_result f ys)"
proof (induction xs arbitrary: s)
  case (Cons x xs)
  then show ?case by (cases "f x s") simp_all
qed simp

lemma fold_result_invariant:
  assumes "\<And>x s t. x \<in> set xs \<Longrightarrow> P s \<Longrightarrow> f x s = Inr t \<Longrightarrow> P t" and "P s" and "fold_result f xs s = Inr t"
  shows "P t"
  using assms
proof (induction xs arbitrary: s)
  case (Cons x xs)
  then obtain u where u: "f x s = Inr u" "fold_result f xs u = Inr t" by (auto simp: and_then_Inr_iff)
  have "P u" by (rule Cons.prems(1) [OF _ Cons.prems(2) u(1)]) simp
  moreover have "\<And>y s t. y \<in> set xs \<Longrightarrow> P s \<Longrightarrow> f y s = Inr t \<Longrightarrow> P t"
    using Cons.prems(1) by (meson list.set_intros(2))
  ultimately show ?case using Cons.IH u(2) by blast
qed simp

section \<open>Effects\<close>

text \<open>
  A function that mutates a state \<open>'s\<close> and returns a \<open>Result\<close> maps the state to the result
  and the state it leaves behind.  A failing call keeps the effects it had before it failed,
  as the \<open>?\<close> operator does.
\<close>

type_synonym ('s, 'e, 'a) eff = "'s \<Rightarrow> ('e + 'a) \<times> 's"

definition ret :: "'a \<Rightarrow> ('s, 'e, 'a) eff" where
  "ret x = (\<lambda>s. (Inr x, s))"

definition raise :: "'e \<Rightarrow> ('s, 'e, 'a) eff" where
  "raise e = (\<lambda>s. (Inl e, s))"

definition lift_result :: "'e + 'a \<Rightarrow> ('s, 'e, 'a) eff" where
  "lift_result r = (\<lambda>s. (r, s))"

definition seq_eff :: "('s, 'e, 'a) eff \<Rightarrow> ('a \<Rightarrow> ('s, 'e, 'b) eff) \<Rightarrow> ('s, 'e, 'b) eff" where
  "seq_eff m f = (\<lambda>s. case m s of (Inl e, t) \<Rightarrow> (Inl e, t) | (Inr x, t) \<Rightarrow> f x t)"

lemma ret_apply [simp]: "ret x s = (Inr x, s)"
  by (simp add: ret_def)

lemma raise_apply [simp]: "raise e s = (Inl e, s)"
  by (simp add: raise_def)

lemma lift_result_apply [simp]: "lift_result r s = (r, s)"
  by (simp add: lift_result_def)

lemma seq_eff_Inr [simp]: "m s = (Inr x, t) \<Longrightarrow> seq_eff m f s = f x t"
  by (simp add: seq_eff_def)

lemma seq_eff_Inl [simp]: "m s = (Inl e, t) \<Longrightarrow> seq_eff m f s = (Inl e, t)"
  by (simp add: seq_eff_def)

lemma seq_eff_elim:
  assumes "seq_eff m f s = (r, u)"
  obtains (fail) e where "m s = (Inl e, u)" and "r = Inl e"
    | (cont) x t where "m s = (Inr x, t)" and "f x t = (r, u)"
  using assms by (auto simp: seq_eff_def split: prod.splits sum.splits)

lemma seq_eff_ok_iff [ok_iff]:
  "seq_eff m f s = (Inr y, u) \<longleftrightarrow> (\<exists>x t. m s = (Inr x, t) \<and> f x t = (Inr y, u))"
  by (auto simp: seq_eff_def split: prod.splits sum.splits)

text \<open>\<open>keeps P m\<close>: every run of \<open>m\<close>, successful or not, leaves \<open>P\<close> true if it found it true.\<close>

definition keeps :: "('s \<Rightarrow> bool) \<Rightarrow> ('s, 'e, 'a) eff \<Rightarrow> bool" where
  "keeps P m \<longleftrightarrow> (\<forall>s. P s \<longrightarrow> P (snd (m s)))"

lemma keepsD: "keeps P m \<Longrightarrow> P s \<Longrightarrow> m s = (r, t) \<Longrightarrow> P t"
  by (force simp: keeps_def)

lemma keeps_ret [intro, simp]: "keeps P (ret x)"
  by (simp add: keeps_def)

lemma keeps_raise [intro, simp]: "keeps P (raise e)"
  by (simp add: keeps_def)

lemma keeps_lift_result [intro, simp]: "keeps P (lift_result r)"
  by (simp add: keeps_def)

lemma keeps_seq_eff [intro]:
  "keeps P m \<Longrightarrow> (\<And>x. keeps P (f x)) \<Longrightarrow> keeps P (seq_eff m f)"
  unfolding keeps_def seq_eff_def by (auto split: prod.splits sum.splits)

section \<open>Checked arithmetic\<close>

abbreviation u64_limit :: nat where
  "u64_limit \<equiv> 18446744073709551616"

definition checked_add :: "u64 \<Rightarrow> u64 \<Rightarrow> u64 option" where
  "checked_add a b = (if unat a + unat b < u64_limit then Some (a + b) else None)"

definition checked_sub :: "u64 \<Rightarrow> u64 \<Rightarrow> u64 option" where
  "checked_sub a b = (if b \<le> a then Some (a - b) else None)"

text \<open>Checked addition of two buffer lengths (\<open>usize\<close>).\<close>

definition checked_add_usize :: "nat \<Rightarrow> nat \<Rightarrow> nat option" where
  "checked_add_usize a b = (if a + b < u64_limit then Some (a + b) else None)"

text \<open>\<open>u64::try_from\<close> of a buffer length.\<close>

definition try_u64 :: "nat \<Rightarrow> u64 option" where
  "try_u64 n = (if n < u64_limit then Some (word_of_nat n) else None)"

lemma u64_limit_eq: "2 ^ LENGTH(64) = u64_limit"
  by simp

lemma unat_less_u64_limit [simp]: "unat (x :: u64) < u64_limit"
  using unsigned_less [where 'a = nat, of x] by simp

lemma unat_u64_of_nat: "n < u64_limit \<Longrightarrow> unat (word_of_nat n :: u64) = n"
  by (simp add: unat_of_nat)

lemma checked_add_Some_iff [ok_iff]:
  "checked_add a b = Some c \<longleftrightarrow> unat a + unat b < u64_limit \<and> c = a + b"
  by (auto simp: checked_add_def)

lemma checked_add_unat: "checked_add a b = Some c \<Longrightarrow> unat c = unat a + unat b"
  by (auto simp: checked_add_Some_iff unat_word_ariths)

lemma checked_sub_Some_iff [ok_iff]: "checked_sub a b = Some c \<longleftrightarrow> b \<le> a \<and> c = a - b"
  by (auto simp: checked_sub_def)

lemma checked_sub_unat: "checked_sub a b = Some c \<Longrightarrow> unat c = unat a - unat b"
  by (auto simp: checked_sub_Some_iff unat_sub)

lemma checked_add_usize_Some_iff [ok_iff]:
  "checked_add_usize a b = Some c \<longleftrightarrow> a + b < u64_limit \<and> c = a + b"
  by (auto simp: checked_add_usize_def)

lemma try_u64_Some_iff [ok_iff]:
  "try_u64 n = Some w \<longleftrightarrow> n < u64_limit \<and> w = word_of_nat n"
  by (auto simp: try_u64_def)

lemma try_u64_unat: "try_u64 n = Some w \<Longrightarrow> unat w = n"
  by (auto simp: try_u64_Some_iff unat_u64_of_nat)

section \<open>Big-endian integers\<close>

text \<open>\<open>be_digits n v\<close> is the last \<open>n\<close> base-256 digits of \<open>v\<close>, most significant first.\<close>

primrec be_digits :: "nat \<Rightarrow> nat \<Rightarrow> bytes" where
  "be_digits 0 v = []"
| "be_digits (Suc n) v = word_of_nat (v div 256 ^ n) # be_digits n v"

definition be_value :: "bytes \<Rightarrow> nat" where
  "be_value bs = foldl (\<lambda>a b. a * 256 + unat b) 0 bs"

definition u16_be :: "u16 \<Rightarrow> bytes" where "u16_be w = be_digits 2 (unat w)"
definition u32_be :: "u32 \<Rightarrow> bytes" where "u32_be w = be_digits 4 (unat w)"
definition u64_be :: "u64 \<Rightarrow> bytes" where "u64_be w = be_digits 8 (unat w)"

definition be_u16 :: "bytes \<Rightarrow> u16" where "be_u16 bs = word_of_nat (be_value bs)"
definition be_u32 :: "bytes \<Rightarrow> u32" where "be_u32 bs = word_of_nat (be_value bs)"
definition be_u64 :: "bytes \<Rightarrow> u64" where "be_u64 bs = word_of_nat (be_value bs)"

lemma length_be_digits [simp]: "length (be_digits n v) = n"
  by (induction n) auto

lemma be_value_Nil [simp]: "be_value [] = 0"
  by (simp add: be_value_def)

lemma foldl_be_value:
  "foldl (\<lambda>a b. a * 256 + unat (b :: u8)) acc bs = acc * 256 ^ length bs + be_value bs"
proof (induction bs arbitrary: acc)
  case (Cons b bs)
  show ?case
    using Cons [of "acc * 256 + unat b"] Cons [of "unat b"]
    by (simp add: be_value_def algebra_simps)
qed simp

lemma be_value_Cons [simp]: "be_value (b # bs) = unat b * 256 ^ length bs + be_value bs"
  using foldl_be_value [of "unat b" bs] by (simp add: be_value_def)

lemma unat_u8_bound [simp]: "unat (b :: u8) < 256"
  using unsigned_less [where 'a = nat, of b] by simp

lemma be_value_bound: "be_value bs < 256 ^ length bs"
proof (induction bs)
  case (Cons b bs)
  have "be_value (b # bs) < (unat b + 1) * 256 ^ length bs"
    using Cons by simp
  also have "\<dots> \<le> 256 * 256 ^ length bs"
    using unat_u8_bound [of b] by (intro mult_right_mono) linarith+
  finally show ?case by simp
qed simp

lemma be_value_be_digits: "be_value (be_digits n v) = v mod 256 ^ n"
proof (induction n)
  case (Suc n)
  have "unat (word_of_nat (v div 256 ^ n) :: u8) = v div 256 ^ n mod 256"
    by (simp add: unat_of_nat)
  with Suc show ?case
    by (simp add: mod_mult2_eq [of v "256 ^ n" 256, simplified mult.commute] algebra_simps)
qed simp

lemma be_digits_mod: "m = n + k \<Longrightarrow> be_digits n (v mod 256 ^ m) = be_digits n v"
proof (induction n arbitrary: m k)
  case (Suc n)
  have "v mod 256 ^ m div 256 ^ n = v div 256 ^ n mod 256 ^ Suc k"
  proof -
    have "v mod 256 ^ m = 256 ^ n * (v div 256 ^ n mod 256 ^ Suc k) + v mod 256 ^ n"
      using mod_mult2_eq [of v "256 ^ n" "256 ^ Suc k"] Suc.prems
      by (simp only: power_add [symmetric] add_Suc add_Suc_right)
    then show ?thesis by simp
  qed
  moreover have "(word_of_nat (x mod 256 ^ Suc k) :: u8) = word_of_nat x" for x
    by (simp add: word_of_nat_eq_iff take_bit_eq_mod mod_mod_cancel)
  moreover have "be_digits n (v mod 256 ^ m) = be_digits n v"
    using Suc.IH [of m "Suc k"] Suc.prems by simp
  ultimately show ?case by simp
qed simp

lemma be_digits_be_value: "be_digits (length bs) (be_value bs) = bs"
proof (induction bs)
  case (Cons b bs)
  let ?v = "unat b * 256 ^ length bs + be_value bs"
  have "?v div 256 ^ length bs = unat b"
    using be_value_bound [of bs] by simp
  moreover have "?v mod 256 ^ length bs = be_value bs"
    using be_value_bound [of bs] by simp
  then have "be_digits (length bs) ?v = be_digits (length bs) (be_value bs)"
    using be_digits_mod [of "length bs" "length bs" 0 ?v] by simp
  ultimately show ?case using Cons by simp
qed simp

lemma length_u_be [simp]:
  "length (u16_be a) = 2" "length (u32_be b) = 4" "length (u64_be c) = 8"
  by (simp_all add: u16_be_def u32_be_def u64_be_def)

lemma be_u16_u16_be [simp]: "be_u16 (u16_be w) = w"
  using unsigned_less [where 'a = nat, of w] by (simp add: be_u16_def u16_be_def be_value_be_digits)

lemma be_u32_u32_be [simp]: "be_u32 (u32_be w) = w"
  using unsigned_less [where 'a = nat, of w] by (simp add: be_u32_def u32_be_def be_value_be_digits)

lemma be_u64_u64_be [simp]: "be_u64 (u64_be w) = w"
  using unsigned_less [where 'a = nat, of w] by (simp add: be_u64_def u64_be_def be_value_be_digits)

lemma u_be_inject [simp]:
  "u16_be a = u16_be b \<longleftrightarrow> a = b" "u32_be c = u32_be d \<longleftrightarrow> c = d" "u64_be e = u64_be f \<longleftrightarrow> e = f"
  by (auto dest: arg_cong [of _ _ be_u16] arg_cong [of _ _ be_u32] arg_cong [of _ _ be_u64])

lemma u16_be_be_u16: "length bs = 2 \<Longrightarrow> u16_be (be_u16 bs) = bs"
  using be_value_bound [of bs] be_digits_be_value [of bs]
  by (simp add: be_u16_def u16_be_def unat_of_nat)

lemma u32_be_be_u32: "length bs = 4 \<Longrightarrow> u32_be (be_u32 bs) = bs"
  using be_value_bound [of bs] be_digits_be_value [of bs]
  by (simp add: be_u32_def u32_be_def unat_of_nat)

lemma u64_be_be_u64: "length bs = 8 \<Longrightarrow> u64_be (be_u64 bs) = bs"
  using be_value_bound [of bs] be_digits_be_value [of bs]
  by (simp add: be_u64_def u64_be_def unat_of_nat)

section \<open>Fixed-offset buffers\<close>

text \<open>
  \<open>slice off n bs\<close> is \<open>&bs[off..off + n]\<close> and \<open>blit bs off src\<close> is
  \<open>bs[off..off + src.len()].copy_from_slice(src)\<close>.  Both panic out of range in Rust; every
  use below is at a constant offset inside a buffer whose length was just fixed or checked.
\<close>

definition slice :: "nat \<Rightarrow> nat \<Rightarrow> 'a list \<Rightarrow> 'a list" where
  "slice off n bs = take n (drop off bs)"

definition blit :: "'a list \<Rightarrow> nat \<Rightarrow> 'a list \<Rightarrow> 'a list" where
  "blit bs off src = take off bs @ src @ drop (off + length src) bs"

lemma length_blit [simp]:
  "off + length src \<le> length bs \<Longrightarrow> length (blit bs off src) = length bs"
  by (simp add: blit_def)

lemma length_slice [simp]: "off + n \<le> length bs \<Longrightarrow> length (slice off n bs) = n"
  by (simp add: slice_def)

lemma slice_blit_same [layout]:
  "off + length src \<le> length bs \<Longrightarrow> n = length src \<Longrightarrow> slice off n (blit bs off src) = src"
  by (simp add: slice_def blit_def)

lemma slice_blit_before [layout]:
  "off + n \<le> off' \<Longrightarrow> off' + length src \<le> length bs \<Longrightarrow>
   slice off n (blit bs off' src) = slice off n bs"
  by (simp add: slice_def blit_def take_drop min_def)

lemma slice_blit_after [layout]:
  "off' + length src \<le> off \<Longrightarrow> off' + length src \<le> length bs \<Longrightarrow>
   slice off n (blit bs off' src) = slice off n bs"
  by (simp add: slice_def blit_def)

lemma slice_replicate [layout]:
  "off + n \<le> m \<Longrightarrow> slice off n (replicate m x) = replicate n x"
  by (simp add: slice_def min_def)

lemma blit_slice_id [layout]:
  "off + n \<le> length bs \<Longrightarrow> blit bs off (slice off n bs) = bs"
  by (simp add: slice_def blit_def min_def) (metis append_take_drop_id take_drop drop_drop add.commute)

lemma blit_blit_same [layout]:
  "length a = length b \<Longrightarrow> off + length a \<le> length bs \<Longrightarrow>
   blit (blit bs off a) off b = blit bs off b"
  by (simp add: blit_def)

lemma slice_append_left: "off + n \<le> length xs \<Longrightarrow> slice off n (xs @ ys) = slice off n xs"
  by (simp add: slice_def)

lemma slice_append_right: "length xs \<le> off \<Longrightarrow> slice off n (xs @ ys) = slice (off - length xs) n ys"
  by (simp add: slice_def)

lemma slice_whole: "length xs = n \<Longrightarrow> slice 0 n (xs @ ys) = xs"
  by (simp add: slice_def)

lemma slice_split: "slice off (m + n) bs = slice off m bs @ slice (off + m) n bs"
  by (simp add: slice_def take_add add.commute)

lemma slice_take: "off + n \<le> m \<Longrightarrow> slice off n (take m bs) = slice off n bs"
  by (simp add: slice_def take_drop min_def)

lemma blit_append_left [layout]:
  "off + length src \<le> length xs \<Longrightarrow> blit (xs @ ys) off src = blit xs off src @ ys"
  by (simp add: blit_def)

lemma blit_append_right [layout]:
  "length xs \<le> off \<Longrightarrow> blit (xs @ ys) off src = xs @ blit ys (off - length xs) src"
  by (simp add: blit_def)

lemma blit_whole [layout]: "length src = length bs \<Longrightarrow> blit bs 0 src = src"
  by (simp add: blit_def)

lemma nth_blit_other [layout]:
  "i < off \<or> off + length src \<le> i \<Longrightarrow> off + length src \<le> length bs \<Longrightarrow> blit bs off src ! i = bs ! i"
  by (auto simp: blit_def nth_append)

lemma nth_blit_byte [layout]: "off < length bs \<Longrightarrow> blit bs off [b] ! off = b"
  by (simp add: blit_def nth_append)

lemma slice_slice: "off' + n \<le> m \<Longrightarrow> slice off' n (slice off m bs) = slice (off + off') n bs"
  by (simp add: slice_def take_drop min_def add.commute add.left_commute)

lemma slice_one: "off < length bs \<Longrightarrow> slice off 1 bs = [bs ! off]"
  by (simp add: slice_def take_Suc_conv_app_nth hd_drop_conv_nth take_Suc)

text \<open>A buffer is determined by its consecutive fields.\<close>

primrec cuts :: "nat \<Rightarrow> nat list \<Rightarrow> 'a list \<Rightarrow> 'a list list" where
  "cuts off [] bs = []"
| "cuts off (w # ws) bs = slice off w bs # cuts (off + w) ws bs"

lemma concat_cuts: "concat (cuts off ws bs) = slice off (sum_list ws) bs"
  by (induction ws arbitrary: off) (simp_all add: slice_split, simp add: slice_def)

lemma cuts_eqI:
  assumes "cuts 0 ws a = cuts 0 ws b" and "sum_list ws = length a" and "length a = length b"
  shows "a = b"
proof -
  have "slice 0 (length a) a = slice 0 (length a) b"
    using assms(1,2) concat_cuts [of 0 ws a] concat_cuts [of 0 ws b] by simp
  then show ?thesis using assms(3) by (simp add: slice_def)
qed

lemma append_Cons_unique:
  "a \<notin> set xs \<Longrightarrow> a \<notin> set ys \<Longrightarrow> xs @ a # r = ys @ a # s \<Longrightarrow> xs = ys \<and> r = s"
proof (induction xs arbitrary: ys)
  case Nil
  then show ?case by (cases ys) auto
next
  case (Cons x xs)
  then show ?case by (cases ys) auto
qed

section \<open>Hash maps\<close>

text \<open>
  A \<open>HashMap\<close> is an association list with distinct keys: the iteration order of the hash map
  is the (otherwise irrelevant) order of the list.
\<close>

type_synonym ('k, 'v) hash_map = "('k \<times> 'v) list"

definition hm_get :: "('k, 'v) hash_map \<Rightarrow> 'k \<Rightarrow> 'v option" where
  "hm_get m k = map_of m k"

definition hm_insert :: "'k \<Rightarrow> 'v \<Rightarrow> ('k, 'v) hash_map \<Rightarrow> ('k, 'v) hash_map" where
  "hm_insert k v m = AList.update k v m"

definition hm_remove :: "'k \<Rightarrow> ('k, 'v) hash_map \<Rightarrow> ('k, 'v) hash_map" where
  "hm_remove k m = AList.delete k m"

definition hm_wf :: "('k, 'v) hash_map \<Rightarrow> bool" where
  "hm_wf m \<longleftrightarrow> distinct (map fst m)"

lemma hm_get_Nil [simp]: "hm_get [] k = None"
  by (simp add: hm_get_def)

lemma hm_wf_Nil [simp]: "hm_wf []"
  by (simp add: hm_wf_def)

lemma hm_get_insert [simp]: "hm_get (hm_insert k v m) k' = (if k' = k then Some v else hm_get m k')"
  by (simp add: hm_get_def hm_insert_def update_conv')

lemma hm_get_remove [simp]: "hm_get (hm_remove k m) k' = (if k' = k then None else hm_get m k')"
  by (simp add: hm_get_def hm_remove_def delete_conv')

lemma hm_wf_insert [simp]: "hm_wf m \<Longrightarrow> hm_wf (hm_insert k v m)"
  by (simp add: hm_wf_def hm_insert_def distinct_update)

lemma hm_wf_remove [simp]: "hm_wf m \<Longrightarrow> hm_wf (hm_remove k m)"
  by (simp add: hm_wf_def hm_remove_def distinct_delete)

lemma hm_entries: "hm_wf m \<Longrightarrow> (k, v) \<in> set m \<longleftrightarrow> hm_get m k = Some v"
  by (simp add: hm_wf_def hm_get_def)

end
