(* ===== verification/Hashing.thy ===== *)
theory Hashing
  imports Prelude
begin

text \<open>
  Streaming hash functions.  SHA-1 and SHA-256 come from the crates \<open>sha1\<close> and \<open>sha2\<close>; they
  are parameters of the model, a record of the three operations the sources call, and the
  locale \<open>streaming_digest\<close> states what the sources rely on: feeding a message in pieces gives
  the digest of the whole message, and digests have a fixed length.  The CRC-32C calculator of
  \<open>reflink-forest-format\<close> is modelled bit by bit and interprets the locale.
\<close>

section \<open>The digest interface\<close>

record 'h digest =
  dg_new :: 'h
  dg_update :: "'h \<Rightarrow> bytes \<Rightarrow> 'h"
  dg_finalize :: "'h \<Rightarrow> bytes"

definition digest_of :: "'h digest \<Rightarrow> bytes \<Rightarrow> bytes" where
  "digest_of d msg = dg_finalize d (dg_update d (dg_new d) msg)"

definition digest_parts :: "'h digest \<Rightarrow> bytes list \<Rightarrow> bytes" where
  "digest_parts d parts = dg_finalize d (foldl (dg_update d) (dg_new d) parts)"

locale streaming_digest =
  fixes d :: "'h digest" and size :: nat
  assumes parts_concat: "digest_parts d parts = digest_of d (concat parts)"
    and length_digest: "length (dg_finalize d h) = size"
begin

lemma parts_irrelevant:
  "concat ps = concat qs \<Longrightarrow> digest_parts d ps = digest_parts d qs"
  by (simp add: parts_concat)

lemma update_two:
  "dg_finalize d (dg_update d (dg_update d (dg_new d) a) b) = digest_of d (a @ b)"
  using parts_concat [of "[a, b]"] by (simp add: digest_parts_def)

lemma finalize_foldl:
  "dg_finalize d (foldl (dg_update d) (foldl (dg_update d) (dg_new d) ps) qs)
     = digest_of d (concat ps @ concat qs)"
  using parts_concat [of "ps @ qs"] by (simp add: digest_parts_def)

end

section \<open>CRC-32C\<close>

unbundle bit_operations_syntax

text \<open>The calculator state is the wrapped \<open>u32\<close> of \<open>struct Crc32c\<close>.\<close>

type_synonym crc32c_state = u32

definition crc32c_new :: crc32c_state where
  "crc32c_new = NOT 0"

definition crc_shift :: "u32 \<Rightarrow> u32" where
  "crc_shift s = drop_bit 1 s XOR (0x82f63b78 AND (0 - (s AND 1)))"

definition crc_byte :: "crc32c_state \<Rightarrow> u8 \<Rightarrow> crc32c_state" where
  "crc_byte s b = (crc_shift ^^ 8) (s XOR ucast b)"

definition crc32c_update :: "crc32c_state \<Rightarrow> bytes \<Rightarrow> crc32c_state" where
  "crc32c_update s bs = foldl crc_byte s bs"

definition crc32c_finalize :: "crc32c_state \<Rightarrow> u32" where
  "crc32c_finalize s = NOT s"

definition crc32c :: "bytes \<Rightarrow> u32" where
  "crc32c bs = crc32c_finalize (crc32c_update crc32c_new bs)"

text \<open>A checksum of a buffer with the bytes of one field read as zero.\<close>

definition crc32c_with_zeroed_field :: "bytes \<Rightarrow> nat \<Rightarrow> nat \<Rightarrow> u32" where
  "crc32c_with_zeroed_field bs off n = crc32c (blit bs off (replicate n 0))"

lemma crc32c_update_append [simp]:
  "crc32c_update s (xs @ ys) = crc32c_update (crc32c_update s xs) ys"
  by (simp add: crc32c_update_def)

lemma crc32c_update_Nil [simp]: "crc32c_update s [] = s"
  by (simp add: crc32c_update_def)

lemma crc32c_update_parts: "foldl crc32c_update s parts = crc32c_update s (concat parts)"
  by (induction parts arbitrary: s) auto

definition crc32c_digest :: "crc32c_state digest" where
  "crc32c_digest = \<lparr>dg_new = crc32c_new, dg_update = crc32c_update,
     dg_finalize = (\<lambda>s. u32_be (crc32c_finalize s))\<rparr>"

interpretation crc: streaming_digest crc32c_digest 4
  by unfold_locales
    (simp_all add: digest_parts_def digest_of_def crc32c_digest_def crc32c_update_parts)

subsection \<open>Every changed byte changes the checksum\<close>

lemma bit_and_one: "s AND 1 = (if bit s 0 then 1 else (0 :: u32))"
  by (simp add: and_one_eq bit_0 mod_2_eq_odd)

lemma bit_crc_shift_31: "bit (crc_shift s) 31 = bit s 0"
proof -
  have "\<not> bit (drop_bit 1 s) 31"
    using bit_imp_le_length [of s 32] by (auto simp: bit_drop_bit_eq)
  moreover have "bit (0x82f63b78 AND (0 - (s AND 1)) :: u32) 31 = bit s 0"
    by (cases "bit s 0") (simp_all add: bit_and_one bit_and_iff)
  ultimately show ?thesis
    by (simp add: crc_shift_def bit_xor_iff)
qed

lemma xor_cancel_right: "a XOR c = b XOR c \<longleftrightarrow> a = (b :: u32)"
proof
  assume "a XOR c = b XOR c"
  then have "(a XOR c) XOR c = (b XOR c) XOR c" by (rule arg_cong)
  then show "a = b" by (simp only: xor.assoc xor_self_eq xor.right_neutral)
qed simp

lemma xor_cancel_left: "c XOR a = c XOR b \<longleftrightarrow> a = (b :: u32)"
  by (simp only: xor.commute [of c] xor_cancel_right)

lemma inj_crc_shift: "inj crc_shift"
proof (rule injI)
  fix s t :: u32
  assume eq: "crc_shift s = crc_shift t"
  then have b0: "bit s 0 = bit t 0"
    using bit_crc_shift_31 [of s] bit_crc_shift_31 [of t] by simp
  then have "s AND 1 = t AND 1"
    by (simp only: bit_and_one)
  with eq have d: "drop_bit 1 s = drop_bit 1 t"
    by (simp add: crc_shift_def xor_cancel_right)
  show "s = t"
  proof (rule bit_word_eqI)
    fix n
    show "bit s n = bit t n"
    proof (cases n)
      case (Suc m)
      from d have "bit (drop_bit 1 s) m = bit (drop_bit 1 t) m" by (rule arg_cong)
      then show ?thesis by (simp only: Suc bit_drop_bit_eq comp_apply plus_1_eq_Suc)
    qed (simp only: b0)
  qed
qed

lemma inj_crc_shift_funpow: "inj (crc_shift ^^ n)"
proof (induction n)
  case (Suc n)
  then show ?case by (simp only: funpow.simps inj_compose [OF inj_crc_shift])
qed simp

lemma ucast_u8_u32_inj: "(ucast a :: u32) = ucast b \<longleftrightarrow> a = (b :: u8)"
proof
  assume eq: "(ucast a :: u32) = ucast b"
  show "a = b"
  proof (rule bit_word_eqI)
    fix n
    assume n: "n < LENGTH(8)"
    from eq have "bit (ucast a :: u32) n = bit (ucast b :: u32) n" by (rule arg_cong)
    with n show "bit a n = bit b n" by (simp add: bit_ucast_iff)
  qed
qed simp

lemma crc_byte_inj_state: "crc_byte s b = crc_byte t b \<longleftrightarrow> s = t"
  by (simp only: crc_byte_def inj_eq [OF inj_crc_shift_funpow] xor_cancel_right)

lemma crc_byte_inj_byte: "crc_byte s a = crc_byte s b \<longleftrightarrow> a = b"
  by (simp only: crc_byte_def inj_eq [OF inj_crc_shift_funpow] xor_cancel_left ucast_u8_u32_inj)

lemma crc32c_update_inj_state: "crc32c_update s bs = crc32c_update t bs \<longleftrightarrow> s = t"
  by (induction bs arbitrary: s t) (auto simp: crc32c_update_def crc_byte_inj_state)

lemma crc32c_one_byte:
  assumes "a \<noteq> b"
  shows "crc32c (xs @ a # ys) \<noteq> crc32c (xs @ b # ys)"
proof -
  let ?s = "crc32c_update crc32c_new xs"
  have "crc_byte ?s a \<noteq> crc_byte ?s b"
    using assms by (simp add: crc_byte_inj_byte)
  then have "crc32c_update (crc_byte ?s a) ys \<noteq> crc32c_update (crc_byte ?s b) ys"
    by (simp add: crc32c_update_inj_state)
  then show ?thesis
    by (simp add: crc32c_def crc32c_finalize_def crc32c_update_def)
qed

lemma crc32c_list_update:
  assumes "i < length bs" and "b \<noteq> bs ! i"
  shows "crc32c (bs[i := b]) \<noteq> crc32c bs"
proof -
  have upd: "bs[i := b] = take i bs @ b # drop (Suc i) bs"
    using assms(1) by (rule upd_conv_take_nth_drop)
  have "bs = take i bs @ bs ! i # drop (Suc i) bs"
    using assms(1) by (rule id_take_nth_drop)
  then show ?thesis
    using crc32c_one_byte [OF assms(2), of "take i bs" "drop (Suc i) bs"] upd by simp
qed

subsection \<open>Evaluation\<close>

text \<open>Rules by which the simplifier evaluates checksums of concrete bytes, and the check value
  that the CRC catalogues give for CRC-32C.\<close>

lemma crc_shift_if: "crc_shift s = (if odd s then (s div 2) XOR 0x82f63b78 else s div 2)"
  by (cases "bit s 0") (simp_all add: crc_shift_def bit_and_one bit_0 drop_bit_Suc)

lemma funpow_8: "(f ^^ 8) x = f (f (f (f (f (f (f (f x)))))))"
  by (simp add: numeral_eq_Suc)

lemmas crc32c_eval = crc32c_def crc32c_finalize_def crc32c_new_def crc32c_update_def
  crc_byte_def crc_shift_if funpow_8

lemma crc32c_check_value: "crc32c (map of_char ''123456789'') = 0xE3069283"
  by (simp add: crc32c_eval)

end
