(* ===== verification/Streams.thy ===== *)
theory Streams
  imports Prelude
begin

text \<open>
  The byte streams of \<open>std::io\<close> as the crates use them: errors with their kind, readers as the
  sequence of reads they deliver, writers as a \<open>write\<close> call that may accept fewer bytes than it
  was offered or fail, and \<open>write_all\<close>.  The relation \<open>accepted\<close> records what a writer really
  took, in order, over a run of calls; the locale \<open>byte_writer\<close> is the contract of
  \<open>std::io::Write\<close> the callers rely on.
\<close>

section \<open>Input and output errors\<close>

datatype io_error_kind =
    NotFound | AlreadyExists | InvalidInput | InvalidData | UnexpectedEof | WriteZero | WouldBlock
  | OtherIo

datatype io_error = IoError io_error_kind string

section \<open>Writers\<close>

type_synonym 'w writer = "bytes \<Rightarrow> ('w, io_error, nat) eff"

text \<open>\<open>Write::write_all\<close>: \<open>write\<close> until nothing is left; a call that takes nothing is an error.\<close>

function write_all :: "'w writer \<Rightarrow> bytes \<Rightarrow> ('w, io_error, unit) eff" where
  "write_all wr bs w =
     (if bs = [] then (Inr (), w)
      else case wr bs w of
          (Inl e, w') \<Rightarrow> (Inl e, w')
        | (Inr n, w') \<Rightarrow>
            if n = 0 then (Inl (IoError WriteZero ''failed to write whole buffer''), w')
            else write_all wr (drop n bs) w')"
  by pat_completeness auto
termination
  by (relation "measure (\<lambda>(wr, bs, w). length bs)") auto

declare write_all.simps [simp del]

text \<open>\<open>Vec<u8>\<close> and \<open>io::sink()\<close> take everything they are offered.\<close>

definition vec_write :: "bytes writer" where
  "vec_write bs w = (Inr (length bs), w @ bs)"

definition sink_write :: "unit writer" where
  "sink_write bs w = (Inr (length bs), w)"

text \<open>\<open>accepted wr w ps w'\<close>: a run of \<open>write\<close> calls took the pieces \<open>ps\<close>, in this order.\<close>

inductive accepted :: "'w writer \<Rightarrow> 'w \<Rightarrow> bytes list \<Rightarrow> 'w \<Rightarrow> bool" for wr :: "'w writer" where
  idle: "accepted wr w [] w"
| took: "accepted wr w ps w' \<Longrightarrow> wr bs w' = (Inr n, w'') \<Longrightarrow> accepted wr w (ps @ [take n bs]) w''"
| failed: "accepted wr w ps w' \<Longrightarrow> wr bs w' = (Inl e, w'') \<Longrightarrow> accepted wr w ps w''"

lemma accepted_append:
  assumes "accepted wr w ps w'" and "accepted wr w' qs w''"
  shows "accepted wr w (ps @ qs) w''"
  using assms(2,1)
proof (induction w' qs w'' rule: accepted.induct)
  case (took w' qs v bs n v')
  from accepted.took [OF took.IH [OF took.prems] took.hyps(2)] show ?case by simp
qed (auto intro: accepted.failed)

section \<open>The contract of a writer\<close>

locale byte_writer =
  fixes wr :: "'w writer"
  assumes write_length: "wr bs w = (Inr n, w') \<Longrightarrow> n \<le> length bs"
begin

text \<open>\<open>write_all\<close> passes on a prefix, and all of it when it succeeds.\<close>

lemma write_all_accepted:
  assumes "write_all wr bs w = (r, w')"
  shows "\<exists>ps. accepted wr w ps w' \<and> prefix (concat ps) bs \<and> (r = Inr () \<longrightarrow> concat ps = bs)"
  using assms
proof (induction "length bs" arbitrary: bs w rule: less_induct)
  case less
  show ?case
  proof (cases "bs = []")
    case True
    then show ?thesis
      using less.prems by (auto simp: write_all.simps [of wr "[]"] intro!: exI [of _ "[]"] accepted.idle)
  next
    case False
    obtain rw v where res: "wr bs w = (rw, v)" by fastforce
    show ?thesis
    proof (cases rw)
      case (Inl e)
      then have "accepted wr w [] w'" "r = Inl e"
        using less.prems False res accepted.failed [OF accepted.idle, of wr bs w e v]
        by (auto simp: write_all.simps [of wr bs])
      then show ?thesis by (intro exI [of _ "[]"]) simp
    next
      case (Inr n)
      have le: "n \<le> length bs" using write_length res Inr by blast
      have took: "accepted wr w [take n bs] v"
        using accepted.took [OF accepted.idle, of wr bs w n v] res Inr by simp
      show ?thesis
      proof (cases "n = 0")
        case True
        then have "v = w'" "r \<noteq> Inr ()"
          using less.prems False res Inr by (auto simp: write_all.simps [of wr bs])
        then show ?thesis using took by (intro exI [of _ "[take n bs]"]) (simp add: True)
      next
        case n: False
        have rest: "write_all wr (drop n bs) v = (r, w')"
          using less.prems False res Inr n by (simp add: write_all.simps [of wr bs])
        have "length (drop n bs) < length bs" using n False by simp
        from less.hyps [OF this rest] obtain ps where
          ps: "accepted wr v ps w'" "prefix (concat ps) (drop n bs)" "r = Inr () \<longrightarrow> concat ps = drop n bs"
          by blast
        have "prefix (take n bs @ concat ps) bs"
          using ps(2) same_prefix_prefix [of "take n bs" "concat ps" "drop n bs"]
          by (simp only: append_take_drop_id)
        then show ?thesis
          using accepted_append [OF took ps(1)] ps(3)
          by (intro exI [of _ "take n bs # ps"]) simp
      qed
    qed
  qed
qed

end

text \<open>A writer that never fails and always makes progress.\<close>

locale total_writer = byte_writer +
  assumes write_total: "bs \<noteq> [] \<Longrightarrow> \<exists>n w'. wr bs w = (Inr n, w') \<and> 0 < n"
begin

lemma write_all_total: "\<exists>w'. write_all wr bs w = (Inr (), w')"
proof (induction "length bs" arbitrary: bs w rule: less_induct)
  case less
  show ?case
  proof (cases "bs = []")
    case False
    obtain n v where res: "wr bs w = (Inr n, v)" and n: "0 < n"
      using write_total [OF False] by blast
    have "length (drop n bs) < length bs" using n False by simp
    from less.hyps [OF this, of v] show ?thesis
      using False res n by (simp add: write_all.simps [of wr bs])
  qed (simp add: write_all.simps [of wr "[]"])
qed

end

interpretation vec: total_writer vec_write
  by unfold_locales (auto simp: vec_write_def)

interpretation sink: total_writer sink_write
  by unfold_locales (auto simp: sink_write_def)

lemma vec_accepted: "accepted vec_write w ps w' \<Longrightarrow> w' = w @ concat ps"
  by (induction rule: accepted.induct) (auto simp: vec_write_def)

section \<open>Readers\<close>

text \<open>The reads of an in-memory source through a buffer of \<open>n\<close> bytes.\<close>

function chunks_of :: "nat \<Rightarrow> 'a list \<Rightarrow> 'a list list" where
  "chunks_of n xs = (if n = 0 \<or> xs = [] then [] else take n xs # chunks_of n (drop n xs))"
  by pat_completeness auto
termination
  by (relation "measure (\<lambda>(n, xs). length xs)") auto

declare chunks_of.simps [simp del]

lemma concat_chunks_of [simp]: "0 < n \<Longrightarrow> concat (chunks_of n xs) = xs"
proof (induction n xs rule: chunks_of.induct)
  case (1 n xs)
  then show ?case by (cases "xs = []") (simp_all add: chunks_of.simps [of n xs] chunks_of.simps [of n "[]"])
qed

lemma length_chunks_of: "length (chunks_of n xs) \<le> length xs"
proof (induction n xs rule: chunks_of.induct)
  case (1 n xs)
  show ?case
  proof (cases "n = 0 \<or> xs = []")
    case False
    then have "length (chunks_of n (drop n xs)) \<le> length xs - n" "0 < n" "0 < length xs" using 1 by simp_all
    then have "Suc (length (chunks_of n (drop n xs))) \<le> length xs" by linarith
    then show ?thesis using False by (simp add: chunks_of.simps [of n xs])
  qed (auto simp: chunks_of.simps [of n xs])
qed

end
