(* ===== verification/Core.thy ===== *)
theory Core
  imports Hashing Streams
begin

text \<open>
  Object identities (\<open>crates/reflink-forest-core/src/lib.rs\<close>): the object kinds and hash
  algorithms with their stable tags, validated native Git object IDs, the canonical Git object
  header, and the content identity \<open>SHA-256(domain || kind || raw_length_be || payload)\<close>, both
  in one shot and through the incremental hashers.  SHA-1 and SHA-256 are the two digests of
  the parameter record \<open>crypto\<close>.
\<close>

section \<open>Kinds and algorithms\<close>

datatype object_kind = Commit | Tree | Blob | Tag

fun kind_tag :: "object_kind \<Rightarrow> u8" where
  "kind_tag Commit = 1"
| "kind_tag Tree = 2"
| "kind_tag Blob = 3"
| "kind_tag Tag = 4"

definition kind_from_tag :: "u8 \<Rightarrow> object_kind option" where
  "kind_from_tag t = (if t = 1 then Some Commit else if t = 2 then Some Tree
     else if t = 3 then Some Blob else if t = 4 then Some Tag else None)"

datatype hash_algorithm = Sha1 | Sha256

fun algorithm_tag :: "hash_algorithm \<Rightarrow> u8" where
  "algorithm_tag Sha1 = 1"
| "algorithm_tag Sha256 = 2"

fun oid_len_of :: "hash_algorithm \<Rightarrow> u8" where
  "oid_len_of Sha1 = 20"
| "oid_len_of Sha256 = 32"

definition algorithm_from_tag :: "u8 \<Rightarrow> hash_algorithm option" where
  "algorithm_from_tag t = (if t = 1 then Some Sha1 else if t = 2 then Some Sha256 else None)"

section \<open>Native Git object IDs\<close>

datatype invalid_git_oid_length = InvalidGitOidLength hash_algorithm nat

record git_oid =
  oid_algorithm :: hash_algorithm
  oid_len :: u8
  oid_bytes :: bytes

definition git_oid_new :: "hash_algorithm \<Rightarrow> bytes \<Rightarrow> invalid_git_oid_length + git_oid" where
  "git_oid_new alg oid =
     (if length oid \<noteq> unat (oid_len_of alg) then Inl (InvalidGitOidLength alg (length oid))
      else Inr \<lparr>oid_algorithm = alg, oid_len = oid_len_of alg,
                oid_bytes = blit (replicate 32 0) 0 oid\<rparr>)"

definition oid_as_bytes :: "git_oid \<Rightarrow> bytes" where
  "oid_as_bytes oid = take (unat (oid_len oid)) (oid_bytes oid)"

definition encode_canonical :: "git_oid \<Rightarrow> bytes" where
  "encode_canonical oid = [algorithm_tag (oid_algorithm oid), oid_len oid] @ oid_as_bytes oid"

text \<open>The fields are private in Rust: every value comes out of \<open>GitOid::new\<close>.\<close>

definition git_oid_wf :: "git_oid \<Rightarrow> bool" where
  "git_oid_wf oid \<longleftrightarrow> oid_len oid = oid_len_of (oid_algorithm oid) \<and> length (oid_bytes oid) = 32
     \<and> drop (unat (oid_len oid)) (oid_bytes oid) = replicate (32 - unat (oid_len oid)) 0"

section \<open>Git object headers and hashers\<close>

record 'h crypto =
  sha1 :: "'h digest"
  sha256 :: "'h digest"

definition ascii :: "string \<Rightarrow> bytes" where
  "ascii s = map of_char s"

text \<open>\<open>to_string()\<close> of an unsigned integer.\<close>

fun decimal :: "nat \<Rightarrow> bytes" where
  "decimal n = (if n < 10 then [48 + word_of_nat n] else decimal (n div 10) @ [48 + word_of_nat (n mod 10)])"

declare decimal.simps [simp del]

fun git_object_kind_name :: "object_kind \<Rightarrow> string" where
  "git_object_kind_name Commit = ''commit''"
| "git_object_kind_name Tree = ''tree''"
| "git_object_kind_name Blob = ''blob''"
| "git_object_kind_name Tag = ''tag''"

definition git_object_header :: "object_kind \<Rightarrow> u64 \<Rightarrow> bytes" where
  "git_object_header kind raw_length =
     ascii (git_object_kind_name kind) @ [32] @ decimal (unat raw_length) @ [0]"

fun digest_for :: "'h crypto \<Rightarrow> hash_algorithm \<Rightarrow> 'h digest" where
  "digest_for c Sha1 = sha1 c"
| "digest_for c Sha256 = sha256 c"

text \<open>
  \<open>GitOid::for_object\<close>.  The length written to the header is \<open>raw_payload.len()\<close>; the left
  value is the panic of \<open>expect\<close> on a digest of the wrong length.
\<close>

definition git_oid_for_object ::
  "'h crypto \<Rightarrow> hash_algorithm \<Rightarrow> object_kind \<Rightarrow> bytes \<Rightarrow> invalid_git_oid_length + git_oid" where
  "git_oid_for_object c alg kind raw_payload =
     (let header = ascii (git_object_kind_name kind) @ [32] @ decimal (length raw_payload) @ [0];
          d = digest_for c alg
      in git_oid_new alg
           (dg_finalize d (dg_update d (dg_update d (dg_new d) header) raw_payload)))"

record 'h git_oid_hasher =
  goh_algorithm :: hash_algorithm
  goh_digest :: 'h

definition git_oid_hasher_new ::
  "'h crypto \<Rightarrow> hash_algorithm \<Rightarrow> object_kind \<Rightarrow> u64 \<Rightarrow> 'h git_oid_hasher" where
  "git_oid_hasher_new c alg kind raw_length =
     (let d = digest_for c alg
      in \<lparr>goh_algorithm = alg,
          goh_digest = dg_update d (dg_new d) (git_object_header kind raw_length)\<rparr>)"

definition git_oid_hasher_write :: "'h crypto \<Rightarrow> 'h git_oid_hasher writer" where
  "git_oid_hasher_write c bs h =
     (Inr (length bs), h\<lparr>goh_digest := dg_update (digest_for c (goh_algorithm h)) (goh_digest h) bs\<rparr>)"

definition git_oid_hasher_finish :: "'h crypto \<Rightarrow> 'h git_oid_hasher \<Rightarrow> invalid_git_oid_length + git_oid" where
  "git_oid_hasher_finish c h =
     git_oid_new (goh_algorithm h) (dg_finalize (digest_for c (goh_algorithm h)) (goh_digest h))"

section \<open>Content identities\<close>

datatype content_id = ContentId (content_id_bytes: bytes)

definition content_id_wf :: "content_id \<Rightarrow> bool" where
  "content_id_wf cid \<longleftrightarrow> length (content_id_bytes cid) = 32"

definition CONTENT_ID_DOMAIN :: bytes where
  "CONTENT_ID_DOMAIN = ascii ''reflink-forest-object-v1'' @ [0]"

definition content_hasher_new :: "'h crypto \<Rightarrow> object_kind \<Rightarrow> u64 \<Rightarrow> 'h" where
  "content_hasher_new c kind raw_length =
     (let d = sha256 c
      in dg_update d (dg_update d (dg_update d (dg_new d) CONTENT_ID_DOMAIN) [kind_tag kind])
           (u64_be raw_length))"

definition content_hasher_update :: "'h crypto \<Rightarrow> 'h \<Rightarrow> bytes \<Rightarrow> 'h" where
  "content_hasher_update c h bs = dg_update (sha256 c) h bs"

definition content_hasher_finalize :: "'h crypto \<Rightarrow> 'h \<Rightarrow> content_id" where
  "content_hasher_finalize c h = ContentId (dg_finalize (sha256 c) h)"

definition content_id_for_object :: "'h crypto \<Rightarrow> object_kind \<Rightarrow> bytes \<Rightarrow> content_id" where
  "content_id_for_object c kind raw_payload =
     content_hasher_finalize c
       (content_hasher_update c (content_hasher_new c kind (word_of_nat (length raw_payload))) raw_payload)"

text \<open>What the sources rely on from the two digest crates.\<close>

definition crypto_ok :: "'h crypto \<Rightarrow> bool" where
  "crypto_ok c \<longleftrightarrow> streaming_digest (sha1 c) 20 \<and> streaming_digest (sha256 c) 32"

text \<open>The byte string that a content identity hashes.\<close>

definition content_preimage :: "object_kind \<Rightarrow> bytes \<Rightarrow> bytes" where
  "content_preimage kind raw_payload =
     CONTENT_ID_DOMAIN @ [kind_tag kind] @ u64_be (word_of_nat (length raw_payload)) @ raw_payload"

section \<open>Lemmas\<close>

lemma kind_from_tag_tag [simp]: "kind_from_tag (kind_tag k) = Some k"
  by (cases k) (simp_all add: kind_from_tag_def)

lemma kind_from_tag_Some [ok_iff]: "kind_from_tag t = Some k \<longleftrightarrow> t = kind_tag k"
  by (cases k) (auto simp: kind_from_tag_def split: if_splits)

lemma algorithm_from_tag_tag [simp]: "algorithm_from_tag (algorithm_tag a) = Some a"
  by (cases a) (simp_all add: algorithm_from_tag_def)

lemma algorithm_from_tag_Some [ok_iff]: "algorithm_from_tag t = Some a \<longleftrightarrow> t = algorithm_tag a"
  by (cases a) (auto simp: algorithm_from_tag_def split: if_splits)

lemma kind_tag_inj: "kind_tag k = kind_tag k' \<Longrightarrow> k = k'"
  by (metis kind_from_tag_tag option.inject)

lemma algorithm_tag_inj: "algorithm_tag a = algorithm_tag b \<Longrightarrow> a = b"
  by (metis algorithm_from_tag_tag option.inject)

lemma unat_oid_len_of_le [simp]: "unat (oid_len_of a) \<le> 32"
  by (cases a) simp_all

lemma git_oid_new_wf: "git_oid_new a bs = Inr oid \<Longrightarrow> git_oid_wf oid"
  by (auto simp: git_oid_new_def git_oid_wf_def blit_def split: if_splits)

lemma git_oid_new_as_bytes:
  "git_oid_new a bs = Inr oid \<Longrightarrow> oid_as_bytes oid = bs \<and> oid_algorithm oid = a"
  by (auto simp: git_oid_new_def oid_as_bytes_def blit_def split: if_splits)

lemma length_oid_as_bytes: "git_oid_wf oid \<Longrightarrow> length (oid_as_bytes oid) = unat (oid_len oid)"
  by (simp add: git_oid_wf_def oid_as_bytes_def)

lemma git_oid_new_of_wf:
  assumes "git_oid_wf oid"
  shows "git_oid_new (oid_algorithm oid) (oid_as_bytes oid) = Inr oid"
proof -
  have len: "length (oid_as_bytes oid) = unat (oid_len_of (oid_algorithm oid))"
    using length_oid_as_bytes [OF assms] assms by (simp only: git_oid_wf_def)
  have "blit (replicate 32 0) 0 (oid_as_bytes oid)
      = oid_as_bytes oid @ drop (unat (oid_len oid)) (oid_bytes oid)"
    using assms by (auto simp: blit_def len git_oid_wf_def)
  also have "\<dots> = oid_bytes oid"
    by (simp add: oid_as_bytes_def)
  finally have "blit (replicate 32 0) 0 (oid_as_bytes oid) = oid_bytes oid" .
  then show ?thesis
    using assms len by (simp add: git_oid_new_def git_oid_wf_def)
qed

lemma git_oid_eqI:
  "git_oid_wf a \<Longrightarrow> git_oid_wf b \<Longrightarrow> oid_algorithm a = oid_algorithm b \<Longrightarrow>
   oid_as_bytes a = oid_as_bytes b \<Longrightarrow> a = b"
  by (metis git_oid_new_of_wf sum.inject(2))

lemma encode_canonical_inj:
  assumes "git_oid_wf a" "git_oid_wf b" "encode_canonical a = encode_canonical b"
  shows "a = b"
  using assms by (auto simp: encode_canonical_def dest: algorithm_tag_inj intro!: git_oid_eqI)

subsection \<open>Headers are unambiguous\<close>

lemma decimal_digits: "b \<in> set (decimal n) \<Longrightarrow> 48 \<le> unat b \<and> unat b \<le> 57"
proof (induction n rule: decimal.induct)
  case (1 n)
  have digit: "unat (48 + word_of_nat m :: u8) = 48 + m" if "m < 10" for m
    using that by (simp add: unat_word_ariths unat_of_nat)
  show ?case
  proof (cases "n < 10")
    case True
    with 1 show ?thesis by (simp add: decimal.simps [of n] digit)
  next
    case False
    with 1 show ?thesis by (auto simp: decimal.simps [of n] digit)
  qed
qed

lemma decimal_no_nul: "0 \<notin> set (decimal n)"
  using decimal_digits [of 0 n] by auto

lemma decimal_ne_Nil: "decimal n \<noteq> []"
  by (simp add: decimal.simps [of n])

lemma decimal_digit_inj:
  "a < 10 \<Longrightarrow> b < 10 \<Longrightarrow> (48 + word_of_nat a :: u8) = 48 + word_of_nat b \<Longrightarrow> a = b"
  by (simp add: word_of_nat_eq_iff take_bit_eq_mod)

lemma length_decimal_less: "10 \<le> n \<Longrightarrow> 1 < length (decimal n)"
  using decimal_ne_Nil [of "n div 10"] by (simp add: decimal.simps [of n])

lemma decimal_inj: "decimal m = decimal n \<Longrightarrow> m = n"
proof (induction m arbitrary: n rule: decimal.induct)
  case (1 m)
  show ?case
  proof (cases "m < 10 \<or> n < 10")
    case True
    then have "length (decimal m) = 1"
      using "1.prems" by (auto simp: decimal.simps [of m] decimal.simps [of n])
    then have "m < 10" "n < 10"
      using length_decimal_less [of m] length_decimal_less [of n] "1.prems" by (auto simp: not_le [symmetric])
    with "1.prems" show ?thesis
      by (simp add: decimal.simps [of m] decimal.simps [of n] decimal_digit_inj)
  next
    case False
    with "1.prems" have "decimal (m div 10) = decimal (n div 10)"
      and last: "(48 + word_of_nat (m mod 10) :: u8) = 48 + word_of_nat (n mod 10)"
      by (simp_all add: decimal.simps [of m] decimal.simps [of n])
    then have "m div 10 = n div 10" using "1.IH" False by simp
    moreover have "m mod 10 = n mod 10" using decimal_digit_inj [OF _ _ last] by simp
    ultimately show ?thesis by (metis div_mod_decomp)
  qed
qed

lemma ascii_kind_name_no_space: "32 \<notin> set (ascii (git_object_kind_name k))"
  by (cases k) (simp_all add: ascii_def)

lemma ascii_kind_name_inj:
  "ascii (git_object_kind_name k) = ascii (git_object_kind_name k') \<Longrightarrow> k = k'"
  by (cases k; cases k') (simp_all add: ascii_def)

lemma git_object_header_unambiguous:
  assumes "git_object_header k n @ p = git_object_header k' n' @ p'"
  shows "k = k' \<and> n = n' \<and> p = p'"
proof -
  let ?n = "\<lambda>k. ascii (git_object_kind_name k)"
  from assms have "?n k @ 32 # (decimal (unat n) @ 0 # p) = ?n k' @ 32 # (decimal (unat n') @ 0 # p')"
    by (simp add: git_object_header_def)
  then have "?n k = ?n k'" and rest: "decimal (unat n) @ 0 # p = decimal (unat n') @ 0 # p'"
    using append_Cons_unique [OF ascii_kind_name_no_space ascii_kind_name_no_space] by blast+
  moreover from rest have "decimal (unat n) = decimal (unat n')" and "p = p'"
    using append_Cons_unique [OF decimal_no_nul decimal_no_nul] by blast+
  ultimately show ?thesis
    using ascii_kind_name_inj decimal_inj word_unat_eq_iff by blast
qed

lemma content_preimage_inj:
  "content_preimage k p = content_preimage k' p' \<Longrightarrow> k = k' \<and> p = p'"
  by (auto simp: content_preimage_def dest: kind_tag_inj)

subsection \<open>Incremental and one-shot hashing agree\<close>

lemma content_id_for_object_preimage:
  assumes "crypto_ok c"
  shows "content_id_for_object c kind p = ContentId (digest_of (sha256 c) (content_preimage kind p))"
  using streaming_digest.parts_concat
    [of "sha256 c" 32 "[CONTENT_ID_DOMAIN, [kind_tag kind], u64_be (word_of_nat (length p)), p]"] assms
  by (simp add: content_id_for_object_def content_hasher_finalize_def content_hasher_update_def
      content_hasher_new_def Let_def digest_parts_def content_preimage_def crypto_ok_def)

lemma content_hasher_parts:
  assumes "crypto_ok c"
  shows "content_hasher_finalize c
      (foldl (content_hasher_update c) (content_hasher_new c kind (word_of_nat (length (concat parts)))) parts)
    = content_id_for_object c kind (concat parts)"
proof -
  let ?pre = "[CONTENT_ID_DOMAIN, [kind_tag kind], u64_be (word_of_nat (length (concat parts)))]"
  have "content_hasher_new c kind (word_of_nat (length (concat parts)))
      = foldl (dg_update (sha256 c)) (dg_new (sha256 c)) ?pre"
    by (simp add: content_hasher_new_def Let_def)
  moreover have "content_hasher_update c = dg_update (sha256 c)"
    by (simp add: content_hasher_update_def fun_eq_iff)
  ultimately show ?thesis
    using assms streaming_digest.finalize_foldl [of "sha256 c" 32 ?pre parts]
    by (simp add: content_hasher_finalize_def content_id_for_object_preimage content_preimage_def
        crypto_ok_def)
qed

lemma content_id_for_object_wf: "crypto_ok c \<Longrightarrow> content_id_wf (content_id_for_object c kind p)"
  by (simp add: content_id_for_object_def content_hasher_finalize_def content_id_wf_def
      crypto_ok_def streaming_digest.length_digest)

lemma digest_for_ok:
  "crypto_ok c \<Longrightarrow> streaming_digest (digest_for c alg) (unat (oid_len_of alg))"
  by (cases alg) (simp_all add: crypto_ok_def)

interpretation oid_hasher: total_writer "git_oid_hasher_write c" for c
  by unfold_locales (auto simp: git_oid_hasher_write_def)

lemma git_oid_hasher_accepted:
  "accepted (git_oid_hasher_write c) h ps h' \<Longrightarrow>
   h' = h\<lparr>goh_digest := foldl (dg_update (digest_for c (goh_algorithm h))) (goh_digest h) ps\<rparr>"
  by (induction rule: accepted.induct) (auto simp: git_oid_hasher_write_def)

lemma git_oid_hasher_parts:
  assumes "crypto_ok c" and "length (concat parts) < u64_limit"
    and "accepted (git_oid_hasher_write c) (git_oid_hasher_new c alg kind (word_of_nat (length (concat parts)))) parts h"
  shows "git_oid_hasher_finish c h = git_oid_for_object c alg kind (concat parts)"
proof -
  let ?h = "git_object_header kind (word_of_nat (length (concat parts)))"
  let ?d = "digest_for c alg"
  have "dg_finalize ?d (foldl (dg_update ?d) (dg_update ?d (dg_new ?d) ?h) parts)
      = dg_finalize ?d (dg_update ?d (dg_update ?d (dg_new ?d) ?h) (concat parts))"
    using streaming_digest.finalize_foldl [OF digest_for_ok [OF assms(1)], of alg "[?h]" parts]
      streaming_digest.update_two [OF digest_for_ok [OF assms(1)], of alg ?h "concat parts"]
    by simp
  then show ?thesis
    using assms(2) git_oid_hasher_accepted [OF assms(3)]
    by (simp add: git_oid_hasher_finish_def git_oid_hasher_new_def Let_def
        git_oid_for_object_def git_object_header_def unat_u64_of_nat)
qed

lemma git_oid_for_object_ok:
  assumes "crypto_ok c"
  obtains oid where "git_oid_for_object c alg kind p = Inr oid"
  using streaming_digest.length_digest [OF digest_for_ok [OF assms, of alg]]
  by (simp add: git_oid_for_object_def Let_def git_oid_new_def)

end
