(* ===== verification/Format.thy ===== *)
theory Format
  imports Core
begin

text \<open>
  The v1 byte encodings of chunk headers, sealed-chunk footers and object records
  (\<open>crates/reflink-forest-format/src/lib.rs\<close>).  Encoders write fields at fixed offsets of a
  zeroed buffer, as the source does; decoders check in the source's order.  The lemmas show
  that decoding inverts encoding, that every accepted byte string is the encoding of the value
  it decodes to, and that a changed byte is noticed.
\<close>

section \<open>Constants\<close>

definition FORMAT_VERSION :: u16 where "FORMAT_VERSION = 1"
definition CHUNK_HEADER_LEN :: nat where "CHUNK_HEADER_LEN = 64"
definition SEALED_CHUNK_FOOTER_LEN :: nat where "SEALED_CHUNK_FOOTER_LEN = 64"
definition RECORD_HEADER_LEN :: nat where "RECORD_HEADER_LEN = 128"
definition RECORD_FOOTER_LEN :: nat where "RECORD_FOOTER_LEN = 20"
definition RECORD_ALIGNMENT :: nat where "RECORD_ALIGNMENT = 8"
definition CODEC_STREAM_BUFFER_BYTES :: nat where "CODEC_STREAM_BUFFER_BYTES = 64 * 1024"

definition CHUNK_MAGIC :: bytes where "CHUNK_MAGIC = ascii ''RFSCHNK'' @ [0]"
definition SEALED_CHUNK_FOOTER_MAGIC :: bytes where
  "SEALED_CHUNK_FOOTER_MAGIC = ascii ''RFSSEAL'' @ [0]"
definition RECORD_MAGIC :: bytes where "RECORD_MAGIC = ascii ''ROBJ''"
definition RECORD_END_MAGIC :: bytes where "RECORD_END_MAGIC = ascii ''RENDOBJ'' @ [0]"
definition CHUNK_CRC_OFFSET :: nat where "CHUNK_CRC_OFFSET = 36"
definition SEALED_CHUNK_FOOTER_CRC_OFFSET :: nat where "SEALED_CHUNK_FOOTER_CRC_OFFSET = 32"
definition RECORD_CRC_OFFSET :: nat where "RECORD_CRC_OFFSET = 94"

lemmas format_consts [simp] = FORMAT_VERSION_def CHUNK_HEADER_LEN_def SEALED_CHUNK_FOOTER_LEN_def
  RECORD_HEADER_LEN_def RECORD_FOOTER_LEN_def RECORD_ALIGNMENT_def CHUNK_CRC_OFFSET_def
  SEALED_CHUNK_FOOTER_CRC_OFFSET_def RECORD_CRC_OFFSET_def

lemma length_magics [simp]: "length CHUNK_MAGIC = 8" "length SEALED_CHUNK_FOOTER_MAGIC = 8"
  "length RECORD_MAGIC = 4" "length RECORD_END_MAGIC = 8"
  by (simp_all add: CHUNK_MAGIC_def SEALED_CHUNK_FOOTER_MAGIC_def RECORD_MAGIC_def
      RECORD_END_MAGIC_def ascii_def)

section \<open>Data\<close>

record chunk_header =
  ch_generation :: u32
  ch_chunk_id :: u64
  ch_created_unix_secs :: u64
  ch_flags :: u32

record sealed_chunk_footer =
  sf_record_count :: u64
  sf_final_length :: u64
  sf_records_crc32c :: u32

datatype codec = Raw | Zstd

fun codec_tag :: "codec \<Rightarrow> u8" where
  "codec_tag Raw = 0"
| "codec_tag Zstd = 1"

definition codec_from_tag :: "u8 \<Rightarrow> codec option" where
  "codec_from_tag t = (if t = 0 then Some Raw else if t = 1 then Some Zstd else None)"

record object_record =
  obj_kind :: object_kind
  obj_codec :: codec
  obj_flags :: u16
  obj_raw_length :: u64
  obj_content_id :: content_id
  obj_primary_oid :: git_oid
  obj_payload :: bytes

record record_metadata =
  md_kind :: object_kind
  md_codec :: codec
  md_flags :: u16
  md_raw_length :: u64
  md_stored_length :: u64
  md_content_id :: content_id
  md_primary_oid :: git_oid

datatype format_error =
    Truncated
  | BadMagic
  | UnsupportedVersion u16
  | InvalidHeaderLength nat nat
  | HeaderCrcMismatch
  | PayloadCrcMismatch
  | FooterMagicMismatch
  | InvalidObjectKind u8
  | InvalidCodec u8
  | InvalidHashAlgorithm u8
  | InvalidOidLength
  | InvalidRecordLength
  | NonZeroReserved
  | NonZeroPadding
  | LengthOverflow

text \<open>The array fields of a record have the sizes their Rust types fix.\<close>

definition object_record_wf :: "object_record \<Rightarrow> bool" where
  "object_record_wf r \<longleftrightarrow> content_id_wf (obj_content_id r) \<and> git_oid_wf (obj_primary_oid r)"

section \<open>Field access\<close>

definition put_u16 :: "bytes \<Rightarrow> nat \<Rightarrow> u16 \<Rightarrow> bytes" where "put_u16 bs off v = blit bs off (u16_be v)"
definition put_u32 :: "bytes \<Rightarrow> nat \<Rightarrow> u32 \<Rightarrow> bytes" where "put_u32 bs off v = blit bs off (u32_be v)"
definition put_u64 :: "bytes \<Rightarrow> nat \<Rightarrow> u64 \<Rightarrow> bytes" where "put_u64 bs off v = blit bs off (u64_be v)"

definition read_u16 :: "bytes \<Rightarrow> nat \<Rightarrow> u16" where "read_u16 bs off = be_u16 (slice off 2 bs)"
definition read_u32 :: "bytes \<Rightarrow> nat \<Rightarrow> u32" where "read_u32 bs off = be_u32 (slice off 4 bs)"
definition read_u64 :: "bytes \<Rightarrow> nat \<Rightarrow> u64" where "read_u64 bs off = be_u64 (slice off 8 bs)"

lemmas field_defs = put_u16_def put_u32_def put_u64_def read_u16_def read_u32_def read_u64_def

definition any_nonzero :: "bytes \<Rightarrow> bool" where
  "any_nonzero bs \<longleftrightarrow> list_ex (\<lambda>b. b \<noteq> 0) bs"

definition check_version :: "u16 \<Rightarrow> format_error + unit" where
  "check_version v = (if v = FORMAT_VERSION then Inr () else Inl (UnsupportedVersion v))"

definition check_header_len :: "nat \<Rightarrow> nat \<Rightarrow> format_error + unit" where
  "check_header_len actual expected =
     (if actual = expected then Inr () else Inl (InvalidHeaderLength expected actual))"

text \<open>\<open>align\<close> works on \<open>usize\<close>, \<open>align_u64\<close> on \<open>u64\<close>; both mask the low three bits.\<close>

unbundle bit_operations_syntax

definition align :: "nat \<Rightarrow> format_error + nat" where
  "align value =
     (case checked_add_usize value (RECORD_ALIGNMENT - 1) of
        None \<Rightarrow> Inl LengthOverflow
      | Some n \<Rightarrow> Inr (unat ((word_of_nat n :: u64) AND NOT (word_of_nat (RECORD_ALIGNMENT - 1)))))"

definition align_u64 :: "u64 \<Rightarrow> format_error + u64" where
  "align_u64 value =
     (case checked_add value (word_of_nat (RECORD_ALIGNMENT - 1)) of
        None \<Rightarrow> Inl LengthOverflow
      | Some n \<Rightarrow> Inr (n AND NOT (word_of_nat (RECORD_ALIGNMENT - 1))))"

section \<open>Chunk headers and sealed footers\<close>

definition chunk_header_encode :: "chunk_header \<Rightarrow> bytes" where
  "chunk_header_encode h =
     (let bs = replicate CHUNK_HEADER_LEN 0;
          bs = blit bs 0 CHUNK_MAGIC;
          bs = put_u16 bs 8 FORMAT_VERSION;
          bs = put_u16 bs 10 (word_of_nat CHUNK_HEADER_LEN);
          bs = put_u32 bs 12 (ch_generation h);
          bs = put_u64 bs 16 (ch_chunk_id h);
          bs = put_u64 bs 24 (ch_created_unix_secs h);
          bs = put_u32 bs 32 (ch_flags h);
          crc = crc32c_with_zeroed_field bs CHUNK_CRC_OFFSET 4
      in put_u32 bs CHUNK_CRC_OFFSET crc)"

definition chunk_header_decode :: "bytes \<Rightarrow> format_error + chunk_header" where
  "chunk_header_decode input =
     (if length input < CHUNK_HEADER_LEN then Inl Truncated else
      let bs = take CHUNK_HEADER_LEN input in
      if take 8 bs \<noteq> CHUNK_MAGIC then Inl BadMagic else
      and_then (check_version (read_u16 bs 8)) (\<lambda>_.
      and_then (check_header_len (unat (read_u16 bs 10)) CHUNK_HEADER_LEN) (\<lambda>_.
      if read_u32 bs CHUNK_CRC_OFFSET \<noteq> crc32c_with_zeroed_field bs CHUNK_CRC_OFFSET 4
      then Inl HeaderCrcMismatch else
      if any_nonzero (drop 40 bs) then Inl NonZeroReserved else
      Inr \<lparr>ch_generation = read_u32 bs 12, ch_chunk_id = read_u64 bs 16,
           ch_created_unix_secs = read_u64 bs 24, ch_flags = read_u32 bs 32\<rparr>)))"

definition sealed_footer_encode :: "sealed_chunk_footer \<Rightarrow> bytes" where
  "sealed_footer_encode f =
     (let bs = replicate SEALED_CHUNK_FOOTER_LEN 0;
          bs = blit bs 0 SEALED_CHUNK_FOOTER_MAGIC;
          bs = put_u16 bs 8 FORMAT_VERSION;
          bs = put_u16 bs 10 (word_of_nat SEALED_CHUNK_FOOTER_LEN);
          bs = put_u64 bs 12 (sf_record_count f);
          bs = put_u64 bs 20 (sf_final_length f);
          bs = put_u32 bs 28 (sf_records_crc32c f);
          crc = crc32c_with_zeroed_field bs SEALED_CHUNK_FOOTER_CRC_OFFSET 4
      in put_u32 bs SEALED_CHUNK_FOOTER_CRC_OFFSET crc)"

definition sealed_footer_decode :: "bytes \<Rightarrow> format_error + sealed_chunk_footer" where
  "sealed_footer_decode input =
     (if length input < SEALED_CHUNK_FOOTER_LEN then Inl Truncated else
      let bs = take SEALED_CHUNK_FOOTER_LEN input in
      if take 8 bs \<noteq> SEALED_CHUNK_FOOTER_MAGIC then Inl BadMagic else
      and_then (check_version (read_u16 bs 8)) (\<lambda>_.
      and_then (check_header_len (unat (read_u16 bs 10)) SEALED_CHUNK_FOOTER_LEN) (\<lambda>_.
      if read_u32 bs SEALED_CHUNK_FOOTER_CRC_OFFSET
           \<noteq> crc32c_with_zeroed_field bs SEALED_CHUNK_FOOTER_CRC_OFFSET 4
      then Inl HeaderCrcMismatch else
      if any_nonzero (drop 36 bs) then Inl NonZeroReserved else
      Inr \<lparr>sf_record_count = read_u64 bs 12, sf_final_length = read_u64 bs 20,
           sf_records_crc32c = read_u32 bs 28\<rparr>)))"

section \<open>Object records\<close>

text \<open>\<open>encode_oid_fixed\<close> writes into the 34 bytes the caller passes, which it keeps elsewhere.\<close>

definition encode_oid_fixed :: "git_oid \<Rightarrow> bytes \<Rightarrow> bytes" where
  "encode_oid_fixed oid output =
     (let output = blit output 0 [algorithm_tag (oid_algorithm oid)];
          output = blit output 1 [oid_len oid]
      in blit output 2 (oid_as_bytes oid))"

definition decode_oid_fixed :: "bytes \<Rightarrow> format_error + git_oid" where
  "decode_oid_fixed bs =
     and_then (ok_or (algorithm_from_tag (bs ! 0)) (InvalidHashAlgorithm (bs ! 0))) (\<lambda>alg.
     if bs ! 1 \<noteq> oid_len_of alg \<or> any_nonzero (drop (2 + unat (bs ! 1)) bs)
     then Inl InvalidOidLength
     else map_err (\<lambda>_. InvalidOidLength) (git_oid_new alg (slice 2 (unat (bs ! 1)) bs)))"

definition encode_record :: "object_record \<Rightarrow> format_error + bytes" where
  "encode_record r =
     and_then (ok_or (try_u64 (length (obj_payload r))) LengthOverflow) (\<lambda>stored_length.
     and_then (ok_or (case checked_add_usize RECORD_HEADER_LEN (length (obj_payload r)) of
                        None \<Rightarrow> None
                      | Some n \<Rightarrow> checked_add_usize n RECORD_FOOTER_LEN) LengthOverflow) (\<lambda>total.
     and_then (ok_or (try_u64 total) LengthOverflow) (\<lambda>total_u64.
     and_then (align total) (\<lambda>padded.
     let bs = replicate padded 0;
         bs = blit bs 0 RECORD_MAGIC;
         bs = put_u16 bs 4 FORMAT_VERSION;
         bs = put_u16 bs 6 (word_of_nat RECORD_HEADER_LEN);
         bs = blit bs 8 [kind_tag (obj_kind r)];
         bs = blit bs 9 [codec_tag (obj_codec r)];
         bs = put_u16 bs 10 (obj_flags r);
         bs = put_u64 bs 12 (obj_raw_length r);
         bs = put_u64 bs 20 stored_length;
         bs = blit bs 28 (content_id_bytes (obj_content_id r));
         bs = blit bs 60 (encode_oid_fixed (obj_primary_oid r) (slice 60 34 bs));
         header_crc = crc32c_with_zeroed_field (take RECORD_HEADER_LEN bs) RECORD_CRC_OFFSET 4;
         bs = put_u32 bs RECORD_CRC_OFFSET header_crc;
         bs = blit bs RECORD_HEADER_LEN (obj_payload r);
         footer = RECORD_HEADER_LEN + length (obj_payload r);
         bs = put_u32 bs footer (crc32c (obj_payload r));
         bs = put_u64 bs (footer + 4) total_u64;
         bs = blit bs (footer + 12) RECORD_END_MAGIC
     in Inr bs))))"

definition decode_record_metadata :: "bytes \<Rightarrow> format_error + record_metadata" where
  "decode_record_metadata bs =
     (if length bs < RECORD_HEADER_LEN then Inl Truncated else
      let header = take RECORD_HEADER_LEN bs in
      if take 4 header \<noteq> RECORD_MAGIC then Inl BadMagic else
      and_then (check_version (read_u16 header 4)) (\<lambda>_.
      and_then (check_header_len (unat (read_u16 header 6)) RECORD_HEADER_LEN) (\<lambda>_.
      if read_u32 header RECORD_CRC_OFFSET \<noteq> crc32c_with_zeroed_field header RECORD_CRC_OFFSET 4
      then Inl HeaderCrcMismatch else
      if any_nonzero (drop 98 header) then Inl NonZeroReserved else
      and_then (ok_or (kind_from_tag (header ! 8)) (InvalidObjectKind (header ! 8))) (\<lambda>kind.
      and_then (ok_or (codec_from_tag (header ! 9)) (InvalidCodec (header ! 9))) (\<lambda>codec.
      and_then (decode_oid_fixed (slice 60 34 header)) (\<lambda>primary_oid.
      Inr \<lparr>md_kind = kind, md_codec = codec, md_flags = read_u16 header 10,
           md_raw_length = read_u64 header 12, md_stored_length = read_u64 header 20,
           md_content_id = ContentId (slice 28 32 header), md_primary_oid = primary_oid\<rparr>))))))"

definition decode_record :: "bytes \<Rightarrow> format_error + object_record \<times> nat" where
  "decode_record bs =
     and_then (decode_record_metadata bs) (\<lambda>metadata.
     let stored = unat (md_stored_length metadata) in
     and_then (ok_or (case checked_add_usize RECORD_HEADER_LEN stored of
                        None \<Rightarrow> None
                      | Some n \<Rightarrow> checked_add_usize n RECORD_FOOTER_LEN) LengthOverflow) (\<lambda>total.
     let total_footer = total - RECORD_FOOTER_LEN in
     if length bs < total then Inl Truncated else
     and_then (ok_or (try_u64 total) LengthOverflow) (\<lambda>total_u64.
     if read_u64 bs (total_footer + 4) \<noteq> total_u64 then Inl InvalidRecordLength else
     if slice (total_footer + 12) 8 bs \<noteq> RECORD_END_MAGIC then Inl FooterMagicMismatch else
     let payload = slice RECORD_HEADER_LEN stored bs in
     if read_u32 bs total_footer \<noteq> crc32c payload then Inl PayloadCrcMismatch else
     and_then (align total) (\<lambda>consumed.
     if length bs < consumed then Inl Truncated else
     if any_nonzero (slice total (consumed - total) bs) then Inl NonZeroPadding else
     Inr (\<lparr>obj_kind = md_kind metadata, obj_codec = md_codec metadata,
           obj_flags = md_flags metadata, obj_raw_length = md_raw_length metadata,
           obj_content_id = md_content_id metadata, obj_primary_oid = md_primary_oid metadata,
           obj_payload = payload\<rparr>, consumed)))))"

definition encoded_record_len_from_header :: "bytes \<Rightarrow> format_error + nat" where
  "encoded_record_len_from_header bs =
     and_then (decode_record_metadata bs) (\<lambda>metadata.
     let stored = unat (md_stored_length metadata) in
     and_then (ok_or (case checked_add_usize RECORD_HEADER_LEN stored of
                        None \<Rightarrow> None
                      | Some n \<Rightarrow> checked_add_usize n RECORD_FOOTER_LEN) LengthOverflow) align)"

text \<open>\<open>RECORD_HEADER_LEN + stored_length + RECORD_FOOTER_LEN\<close> on \<open>u64\<close>, as three callers compute it.\<close>

definition unpadded_length_u64 :: "u64 \<Rightarrow> u64 option" where
  "unpadded_length_u64 stored =
     (case checked_add (word_of_nat RECORD_HEADER_LEN) stored of
        None \<Rightarrow> None
      | Some n \<Rightarrow> checked_add n (word_of_nat RECORD_FOOTER_LEN))"

definition encoded_record_len_from_metadata :: "record_metadata \<Rightarrow> format_error + u64" where
  "encoded_record_len_from_metadata metadata =
     and_then (ok_or (unpadded_length_u64 (md_stored_length metadata)) LengthOverflow) align_u64"

definition validate_record_footer :: "bytes \<Rightarrow> u32 \<Rightarrow> u64 \<Rightarrow> format_error + unit" where
  "validate_record_footer bs payload_crc32c unpadded_record_length =
     (if length bs < RECORD_FOOTER_LEN then Inl Truncated else
      let footer = take RECORD_FOOTER_LEN bs in
      if read_u32 footer 0 \<noteq> payload_crc32c then Inl PayloadCrcMismatch else
      if read_u64 footer 4 \<noteq> unpadded_record_length then Inl InvalidRecordLength else
      if slice 12 8 footer \<noteq> RECORD_END_MAGIC then Inl FooterMagicMismatch else
      Inr ())"

end
