(* ===== verification/Format_Laws.thy ===== *)
theory Format_Laws
  imports Format
begin

text \<open>
  Laws of the v1 encodings: alignment, round trips in both directions for chunk headers, sealed
  footers and object records, and agreement of the streaming helpers with \<open>decode_record\<close>.
\<close>

section \<open>Small helpers\<close>

lemma any_nonzero_iff: "\<not> any_nonzero bs \<longleftrightarrow> bs = replicate (length bs) 0"
  by (induction bs) (auto simp: any_nonzero_def)

lemma any_nonzero_replicate [simp]: "\<not> any_nonzero (replicate n 0)"
  by (simp add: any_nonzero_def list_ex_iff)

lemma check_version_ok [simp]: "check_version v = Inr u \<longleftrightarrow> v = FORMAT_VERSION"
  by (auto simp: check_version_def)

lemma check_header_len_ok [simp]: "check_header_len a e = Inr u \<longleftrightarrow> a = e"
  by (auto simp: check_header_len_def)

lemma codec_from_tag_tag [simp]: "codec_from_tag (codec_tag c) = Some c"
  by (cases c) (simp_all add: codec_from_tag_def)

lemma codec_from_tag_Some [ok_iff]: "codec_from_tag t = Some c \<longleftrightarrow> t = codec_tag c"
  by (cases c) (auto simp: codec_from_tag_def split: if_splits)

lemma and_not_mask: "x AND NOT (mask n) = push_bit n (drop_bit n (x :: 'a :: len word))"
  by (rule bit_word_eqI) (auto simp: bit_simps)

lemma mask_low3: "unat (x AND - 8 :: u64) = 8 * (unat x div 8)"
proof -
  have "x AND - 8 = push_bit 3 (drop_bit 3 x)"
    using and_not_mask [of x 3] by (simp add: mask_eq_exp_minus_1)
  moreover have "unat (push_bit 3 (drop_bit 3 x)) = unat x div 8 * 8 mod u64_limit"
    by (simp add: push_bit_eq_mult drop_bit_eq_div unat_word_ariths unat_div mod_mult_left_eq)
  moreover have "unat x div 8 * 8 \<le> unat x"
    by simp
  then have "unat x div 8 * 8 < u64_limit"
    using unat_less_u64_limit [of x] by (rule le_less_trans)
  ultimately show ?thesis by (simp add: mult.commute)
qed

lemma align_eq:
  "align v = (if v + 7 < u64_limit then Inr (8 * ((v + 7) div 8)) else Inl LengthOverflow)"
proof (cases "v + 7 < u64_limit")
  case True
  then have "unat (word_of_nat v + 7 :: u64) = v + 7"
    using unat_u64_of_nat [of "v + 7"] by simp
  with True show ?thesis
    by (simp add: align_def checked_add_usize_def mask_low3)
qed (simp add: align_def checked_add_usize_def)

lemma align_u64_eq:
  "align_u64 v = (if unat v + 7 < u64_limit then Inr (word_of_nat (8 * ((unat v + 7) div 8)))
     else Inl LengthOverflow)"
proof (cases "unat v + 7 < u64_limit")
  case True
  then have "unat (v + 7) = unat v + 7" by (simp add: unat_word_ariths)
  then have "unat ((v + 7) AND - 8) = 8 * ((unat v + 7) div 8)" by (simp only: mask_low3)
  moreover have "8 * ((unat v + 7) div 8) < u64_limit"
    using True by (rule le_less_trans [OF times_div_less_eq_dividend])
  ultimately have "(v + 7) AND - 8 = word_of_nat (8 * ((unat v + 7) div 8))"
    by (simp only: word_unat_eq_iff unat_u64_of_nat)
  with True show ?thesis by (simp add: align_u64_def checked_add_def)
next
  case False
  then show ?thesis by (simp add: align_u64_def checked_add_def)
qed

lemma align_bounds:
  assumes "align v = Inr p"
  shows "v \<le> p" "p < v + 8" "8 dvd p"
  using assms by (auto simp: align_eq split: if_splits)

section \<open>Checksummed buffers\<close>

text \<open>
  Headers and footers end in a checksum field and zero bytes.  \<open>sealed_buffer pre n\<close> is that
  shape: the fields \<open>pre\<close>, the checksum of the buffer with its own field zeroed, \<open>n\<close> zero bytes.
\<close>

definition sealed_buffer :: "bytes \<Rightarrow> nat \<Rightarrow> bytes" where
  "sealed_buffer pre n = pre @ u32_be (crc32c (pre @ replicate (4 + n) 0)) @ replicate n 0"

lemma length_sealed_buffer [simp]: "length (sealed_buffer pre n) = length pre + 4 + n"
  by (simp add: sealed_buffer_def)

lemma blit_crc:
  assumes "length pre = off"
  shows "put_u32 (pre @ replicate (4 + n) 0) off
      (crc32c_with_zeroed_field (pre @ replicate (4 + n) 0) off 4) = sealed_buffer pre n"
  using assms
  by (simp add: put_u32_def crc32c_with_zeroed_field_def blit_def replicate_add sealed_buffer_def)

lemma sealed_buffer_crc:
  assumes "length pre = off"
  shows "read_u32 (sealed_buffer pre n) off = crc32c_with_zeroed_field (sealed_buffer pre n) off 4"
    and "drop (off + 4) (sealed_buffer pre n) = replicate n 0"
    and "take off (sealed_buffer pre n) = pre"
  using assms
  by (simp_all add: sealed_buffer_def crc32c_with_zeroed_field_def blit_def read_u32_def slice_def
      replicate_add)

lemma sealed_bufferI:
  assumes len: "length bs = off + 4 + n"
    and crc: "read_u32 bs off = crc32c_with_zeroed_field bs off 4"
    and zero: "\<not> any_nonzero (drop (off + 4) bs)"
  shows "bs = sealed_buffer (take off bs) n"
proof -
  have d: "drop (off + 4) bs = replicate n 0"
    using zero len by (simp add: any_nonzero_iff)
  then have "blit bs off (replicate 4 0) = take off bs @ replicate (4 + n) 0"
    by (simp add: blit_def replicate_add)
  moreover have "slice off 4 bs = u32_be (read_u32 bs off)"
    using len by (simp add: read_u32_def u32_be_be_u32)
  moreover have "bs = take off bs @ slice off 4 bs @ drop (off + 4) bs"
    by (metis append_take_drop_id drop_drop slice_def add.commute)
  ultimately show ?thesis
    using crc d by (simp add: sealed_buffer_def crc32c_with_zeroed_field_def)
qed

lemma slice_sealed_buffer [layout]:
  "off + n \<le> length pre \<Longrightarrow> slice off n (sealed_buffer pre m) = slice off n pre"
  by (simp add: sealed_buffer_def slice_def)

section \<open>Chunk headers\<close>

definition chunk_header_body :: "chunk_header \<Rightarrow> bytes" where
  "chunk_header_body h = CHUNK_MAGIC @ u16_be FORMAT_VERSION @ u16_be (word_of_nat CHUNK_HEADER_LEN)
     @ u32_be (ch_generation h) @ u64_be (ch_chunk_id h) @ u64_be (ch_created_unix_secs h)
     @ u32_be (ch_flags h)"

lemma length_chunk_header_body [simp]: "length (chunk_header_body h) = 36"
  by (simp add: chunk_header_body_def)

lemma chunk_header_fields:
  "put_u32 (put_u64 (put_u64 (put_u32 (put_u16 (put_u16 (blit (replicate CHUNK_HEADER_LEN 0) 0 CHUNK_MAGIC)
      8 FORMAT_VERSION) 10 (word_of_nat CHUNK_HEADER_LEN)) 12 (ch_generation h)) 16 (ch_chunk_id h))
      24 (ch_created_unix_secs h)) 32 (ch_flags h) = chunk_header_body h @ replicate (4 + 24) 0"
  by (simp add: field_defs blit_def chunk_header_body_def)

lemma chunk_header_encode_eq: "chunk_header_encode h = sealed_buffer (chunk_header_body h) 24"
  unfolding chunk_header_encode_def Let_def chunk_header_fields
  by (rule blit_crc) simp

lemma length_chunk_header_encode [simp]: "length (chunk_header_encode h) = 64"
  by (simp add: chunk_header_encode_eq)

lemma read_chunk_header_body:
  "slice 0 8 (chunk_header_body h) = CHUNK_MAGIC"
  "slice 8 2 (chunk_header_body h) = u16_be FORMAT_VERSION"
  "slice 10 2 (chunk_header_body h) = u16_be (word_of_nat CHUNK_HEADER_LEN)"
  "slice 12 4 (chunk_header_body h) = u32_be (ch_generation h)"
  "slice 16 8 (chunk_header_body h) = u64_be (ch_chunk_id h)"
  "slice 24 8 (chunk_header_body h) = u64_be (ch_created_unix_secs h)"
  "slice 32 4 (chunk_header_body h) = u32_be (ch_flags h)"
  by (simp_all add: chunk_header_body_def slice_def)

lemma take_as_slice: "take n xs = slice 0 n xs"
  by (simp add: slice_def)

lemma chunk_header_decode_encode:
  "chunk_header_decode (chunk_header_encode h @ rest) = Inr h"
proof -
  let ?b = "sealed_buffer (chunk_header_body h) 24"
  have tk: "take 64 (?b @ rest) = ?b" by simp
  show ?thesis
    unfolding chunk_header_decode_def Let_def chunk_header_encode_eq
    using sealed_buffer_crc [of "chunk_header_body h" 36 24]
    by (simp add: tk take_as_slice [of 8] layout read_chunk_header_body read_u16_def read_u64_def
        read_u32_def check_version_def check_header_len_def)
qed

lemma take_by_cuts:
  assumes "cuts 0 ws bs = fs" and "sum_list ws \<le> length bs"
  shows "take (sum_list ws) bs = concat fs"
  using concat_cuts [of 0 ws bs] assms by (simp add: take_as_slice)

lemma slice_reads:
  "off + 2 \<le> length bs \<Longrightarrow> slice off 2 bs = u16_be (read_u16 bs off)"
  "off + 4 \<le> length bs \<Longrightarrow> slice off 4 bs = u32_be (read_u32 bs off)"
  "off + 8 \<le> length bs \<Longrightarrow> slice off 8 bs = u64_be (read_u64 bs off)"
  by (simp_all add: read_u16_def read_u32_def read_u64_def u16_be_be_u16 u32_be_be_u32 u64_be_be_u64)

lemma chunk_header_decode_sound:
  assumes "chunk_header_decode input = Inr h"
  shows "take 64 input = chunk_header_encode h" and "64 \<le> length input"
proof -
  let ?b = "take 64 input"
  from assms show len: "64 \<le> length input"
    by (auto simp: chunk_header_decode_def split: if_splits)
  from assms have magic: "slice 0 8 ?b = CHUNK_MAGIC" and ver: "read_u16 ?b 8 = FORMAT_VERSION"
    and hl: "unat (read_u16 ?b 10) = 64"
    and crc: "read_u32 ?b 36 = crc32c_with_zeroed_field ?b 36 4"
    and zero: "\<not> any_nonzero (drop (36 + 4) ?b)"
    and h: "ch_generation h = read_u32 ?b 12" "ch_chunk_id h = read_u64 ?b 16"
      "ch_created_unix_secs h = read_u64 ?b 24" "ch_flags h = read_u32 ?b 32"
    by (auto simp: chunk_header_decode_def Let_def ok_iff take_as_slice [of 8] split: if_splits)
  have hl': "read_u16 ?b 10 = word_of_nat CHUNK_HEADER_LEN"
    using hl by (simp add: word_unat_eq_iff)
  have "take 36 ?b = chunk_header_body h"
    using take_by_cuts [of "[8, 2, 2, 4, 8, 8, 4]" ?b, OF refl] len magic
    by (simp add: chunk_header_body_def h slice_reads ver hl')
  then show "?b = chunk_header_encode h"
    using sealed_bufferI [OF _ crc zero, of 24] len by (simp add: chunk_header_encode_eq)
qed

section \<open>Sealed footers\<close>

definition sealed_footer_body :: "sealed_chunk_footer \<Rightarrow> bytes" where
  "sealed_footer_body f = SEALED_CHUNK_FOOTER_MAGIC @ u16_be FORMAT_VERSION
     @ u16_be (word_of_nat SEALED_CHUNK_FOOTER_LEN) @ u64_be (sf_record_count f)
     @ u64_be (sf_final_length f) @ u32_be (sf_records_crc32c f)"

lemma length_sealed_footer_body [simp]: "length (sealed_footer_body f) = 32"
  by (simp add: sealed_footer_body_def)

lemma sealed_footer_fields:
  "put_u32 (put_u64 (put_u64 (put_u16 (put_u16
      (blit (replicate SEALED_CHUNK_FOOTER_LEN 0) 0 SEALED_CHUNK_FOOTER_MAGIC)
      8 FORMAT_VERSION) 10 (word_of_nat SEALED_CHUNK_FOOTER_LEN)) 12 (sf_record_count f))
      20 (sf_final_length f)) 28 (sf_records_crc32c f) = sealed_footer_body f @ replicate (4 + 28) 0"
  by (simp add: field_defs blit_def sealed_footer_body_def)

lemma sealed_footer_encode_eq: "sealed_footer_encode f = sealed_buffer (sealed_footer_body f) 28"
  unfolding sealed_footer_encode_def Let_def sealed_footer_fields
  by (rule blit_crc) simp

lemma length_sealed_footer_encode [simp]: "length (sealed_footer_encode f) = 64"
  by (simp add: sealed_footer_encode_eq)

lemma read_sealed_footer_body:
  "slice 0 8 (sealed_footer_body f) = SEALED_CHUNK_FOOTER_MAGIC"
  "slice 8 2 (sealed_footer_body f) = u16_be FORMAT_VERSION"
  "slice 10 2 (sealed_footer_body f) = u16_be (word_of_nat SEALED_CHUNK_FOOTER_LEN)"
  "slice 12 8 (sealed_footer_body f) = u64_be (sf_record_count f)"
  "slice 20 8 (sealed_footer_body f) = u64_be (sf_final_length f)"
  "slice 28 4 (sealed_footer_body f) = u32_be (sf_records_crc32c f)"
  by (simp_all add: sealed_footer_body_def slice_def)

lemma sealed_footer_decode_encode:
  "sealed_footer_decode (sealed_footer_encode f @ rest) = Inr f"
proof -
  let ?b = "sealed_buffer (sealed_footer_body f) 28"
  have tk: "take 64 (?b @ rest) = ?b" by simp
  show ?thesis
    unfolding sealed_footer_decode_def Let_def sealed_footer_encode_eq
    using sealed_buffer_crc [of "sealed_footer_body f" 32 28]
    by (simp add: tk take_as_slice [of 8] layout read_sealed_footer_body read_u16_def read_u64_def
        read_u32_def check_version_def check_header_len_def)
qed

lemma sealed_footer_decode_sound:
  assumes "sealed_footer_decode input = Inr f"
  shows "take 64 input = sealed_footer_encode f" and "64 \<le> length input"
proof -
  let ?b = "take 64 input"
  from assms show len: "64 \<le> length input"
    by (auto simp: sealed_footer_decode_def split: if_splits)
  from assms have magic: "slice 0 8 ?b = SEALED_CHUNK_FOOTER_MAGIC"
    and ver: "read_u16 ?b 8 = FORMAT_VERSION"
    and hl: "unat (read_u16 ?b 10) = 64"
    and crc: "read_u32 ?b 32 = crc32c_with_zeroed_field ?b 32 4"
    and zero: "\<not> any_nonzero (drop (32 + 4) ?b)"
    and f: "sf_record_count f = read_u64 ?b 12" "sf_final_length f = read_u64 ?b 20"
      "sf_records_crc32c f = read_u32 ?b 28"
    by (auto simp: sealed_footer_decode_def Let_def ok_iff take_as_slice [of 8] split: if_splits)
  have hl': "read_u16 ?b 10 = word_of_nat SEALED_CHUNK_FOOTER_LEN"
    using hl by (simp add: word_unat_eq_iff)
  have "take 32 ?b = sealed_footer_body f"
    using take_by_cuts [of "[8, 2, 2, 8, 8, 4]" ?b, OF refl] len magic
    by (simp add: sealed_footer_body_def f slice_reads ver hl')
  then show "?b = sealed_footer_encode f"
    using sealed_bufferI [OF _ crc zero, of 28] len by (simp add: sealed_footer_encode_eq)
qed

section \<open>Fixed-width object IDs\<close>

definition oid_fixed :: "git_oid \<Rightarrow> bytes" where
  "oid_fixed oid = [algorithm_tag (oid_algorithm oid), oid_len oid] @ oid_bytes oid"

lemma git_oid_wf_tail:
  "git_oid_wf oid \<Longrightarrow> drop (unat (oid_len oid)) (oid_bytes oid) = replicate (32 - unat (oid_len oid)) 0"
  unfolding git_oid_wf_def by blast

lemma oid_bytes_split:
  assumes "git_oid_wf oid"
  shows "oid_bytes oid = oid_as_bytes oid @ replicate (32 - unat (oid_len oid)) 0"
  using append_take_drop_id [of "unat (oid_len oid)" "oid_bytes oid"]
  by (simp add: git_oid_wf_tail [OF assms] oid_as_bytes_def)

lemma git_oid_wf_len:
  assumes "git_oid_wf oid"
  shows "unat (oid_len oid) \<le> 32" "length (oid_bytes oid) = 32"
  using assms by (auto simp: git_oid_wf_def)

lemma length_oid_fixed [simp]: "git_oid_wf oid \<Longrightarrow> length (oid_fixed oid) = 34"
  by (simp add: oid_fixed_def git_oid_wf_len)

lemma encode_oid_fixed_zero:
  assumes "git_oid_wf oid"
  shows "encode_oid_fixed oid (replicate 34 0) = oid_fixed oid"
  using git_oid_wf_len [OF assms] oid_bytes_split [OF assms] length_oid_as_bytes [OF assms]
  by (simp add: encode_oid_fixed_def Let_def oid_fixed_def blit_def)

lemma decode_oid_fixed_oid_fixed:
  assumes "git_oid_wf oid"
  shows "decode_oid_fixed (oid_fixed oid) = Inr oid"
proof -
  have len: "oid_len oid = oid_len_of (oid_algorithm oid)"
    using assms by (simp add: git_oid_wf_def)
  note git_oid_wf_tail [OF assms]
  moreover have "slice 2 (unat (oid_len oid)) (oid_fixed oid) = oid_as_bytes oid"
    by (simp add: slice_def oid_fixed_def oid_as_bytes_def)
  ultimately show ?thesis
    using git_oid_new_of_wf [OF assms]
    by (simp add: decode_oid_fixed_def oid_fixed_def flip: len)
qed

lemma decode_oid_fixed_sound:
  assumes dec: "decode_oid_fixed bs = Inr oid" and bs: "length bs = 34"
  shows "git_oid_wf oid" and "bs = oid_fixed oid"
proof -
  from dec obtain alg where alg: "bs ! 0 = algorithm_tag alg" and l1: "bs ! 1 = oid_len_of alg"
    and zero: "\<not> any_nonzero (drop (2 + unat (bs ! 1)) bs)"
    and new: "git_oid_new alg (slice 2 (unat (bs ! 1)) bs) = Inr oid"
    by (auto simp: decode_oid_fixed_def ok_iff split: if_splits)
  show wf: "git_oid_wf oid" using new by (rule git_oid_new_wf)
  have as: "oid_as_bytes oid = slice 2 (unat (bs ! 1)) bs" and al: "oid_algorithm oid = alg"
    using git_oid_new_as_bytes [OF new] by simp_all
  have ln: "oid_len oid = bs ! 1" using wf al l1 by (simp add: git_oid_wf_def)
  have "drop (2 + unat (bs ! 1)) bs = replicate (32 - unat (bs ! 1)) 0"
    using zero bs by (simp add: any_nonzero_iff)
  then have "oid_bytes oid = drop 2 bs"
    using oid_bytes_split [OF wf] as ln append_take_drop_id [of "unat (bs ! 1)" "drop 2 bs"]
    by (simp add: slice_def add.commute)
  moreover obtain a b xs where "bs = a # b # xs"
    using bs by (cases bs; cases "tl bs") auto
  ultimately show "bs = oid_fixed oid"
    using alg al ln by (simp add: oid_fixed_def)
qed


section \<open>Records\<close>

definition metadata_wf :: "record_metadata \<Rightarrow> bool" where
  "metadata_wf m \<longleftrightarrow> content_id_wf (md_content_id m) \<and> git_oid_wf (md_primary_oid m)"

definition metadata_body :: "record_metadata \<Rightarrow> bytes" where
  "metadata_body m = RECORD_MAGIC @ u16_be FORMAT_VERSION
     @ u16_be (word_of_nat RECORD_HEADER_LEN) @ [kind_tag (md_kind m)] @ [codec_tag (md_codec m)]
     @ u16_be (md_flags m) @ u64_be (md_raw_length m) @ u64_be (md_stored_length m)
     @ content_id_bytes (md_content_id m) @ oid_fixed (md_primary_oid m)"

definition metadata_header :: "record_metadata \<Rightarrow> bytes" where
  "metadata_header m = sealed_buffer (metadata_body m) 30"

definition record_meta :: "object_record \<Rightarrow> record_metadata" where
  "record_meta r = \<lparr>md_kind = obj_kind r, md_codec = obj_codec r, md_flags = obj_flags r,
     md_raw_length = obj_raw_length r, md_stored_length = word_of_nat (length (obj_payload r)),
     md_content_id = obj_content_id r, md_primary_oid = obj_primary_oid r\<rparr>"

definition record_header :: "object_record \<Rightarrow> bytes" where
  "record_header r = metadata_header (record_meta r)"

definition record_footer :: "object_record \<Rightarrow> bytes" where
  "record_footer r = u32_be (crc32c (obj_payload r))
     @ u64_be (word_of_nat (148 + length (obj_payload r))) @ RECORD_END_MAGIC"

text \<open>Length of the encoding of a payload of \<open>n\<close> bytes.\<close>

definition padded_length :: "nat \<Rightarrow> nat" where
  "padded_length n = 8 * ((148 + n + 7) div 8)"

definition record_bytes :: "object_record \<Rightarrow> bytes" where
  "record_bytes r = record_header r @ obj_payload r @ record_footer r
     @ replicate (padded_length (length (obj_payload r)) - (148 + length (obj_payload r))) 0"

lemma padded_length_bounds: "148 + n \<le> padded_length n" "padded_length n < 156 + n"
  by (simp_all add: padded_length_def)

lemma record_meta_wf [simp]: "metadata_wf (record_meta r) \<longleftrightarrow> object_record_wf r"
  by (simp add: metadata_wf_def record_meta_def object_record_wf_def)

lemma length_metadata_body [simp]: "metadata_wf m \<Longrightarrow> length (metadata_body m) = 94"
  by (simp add: metadata_body_def metadata_wf_def content_id_wf_def)

lemma length_metadata_header [simp]: "metadata_wf m \<Longrightarrow> length (metadata_header m) = 128"
  by (simp add: metadata_header_def)

lemma length_record_header [simp]: "object_record_wf r \<Longrightarrow> length (record_header r) = 128"
  by (simp add: record_header_def)

lemma length_record_footer [simp]: "length (record_footer r) = 20"
  by (simp add: record_footer_def)

lemma length_record_bytes [simp]:
  "object_record_wf r \<Longrightarrow> length (record_bytes r) = padded_length (length (obj_payload r))"
  using padded_length_bounds(1) [of "length (obj_payload r)"] by (simp add: record_bytes_def)

lemma record_fields:
  assumes "object_record_wf r" and n: "padded = 128 + n"
    and b_def: "b = put_u64 (put_u64 (put_u16 (blit (blit (put_u16 (put_u16 (blit (replicate padded 0) 0 RECORD_MAGIC)
      4 FORMAT_VERSION) 6 (word_of_nat RECORD_HEADER_LEN)) 8 [kind_tag (obj_kind r)]) 9 [codec_tag (obj_codec r)])
      10 (obj_flags r)) 12 (obj_raw_length r)) 20 (word_of_nat (length (obj_payload r)))"
  shows "(let bs = blit b 28 (content_id_bytes (obj_content_id r))
          in blit bs 60 (encode_oid_fixed (obj_primary_oid r) (slice 60 34 bs)))
    = metadata_body (record_meta r) @ replicate (4 + (30 + n)) 0"
proof -
  have b: "b = (RECORD_MAGIC @ u16_be FORMAT_VERSION @ u16_be (word_of_nat RECORD_HEADER_LEN)
      @ [kind_tag (obj_kind r)] @ [codec_tag (obj_codec r)] @ u16_be (obj_flags r)
      @ u64_be (obj_raw_length r) @ u64_be (word_of_nat (length (obj_payload r)))) @ replicate (100 + n) 0" (is "_ = ?pre @ _")
    by (simp add: b_def n field_defs blit_def)
  have cid: "length (content_id_bytes (obj_content_id r)) = 32"
    and oid: "git_oid_wf (obj_primary_oid r)"
    using assms(1) by (simp_all add: object_record_wf_def content_id_wf_def)
  have pre: "length ?pre = 28" by simp
  have bs: "blit b 28 (content_id_bytes (obj_content_id r))
      = ?pre @ content_id_bytes (obj_content_id r) @ replicate (68 + n) 0"
    unfolding b using pre cid by (simp add: blit_def)
  have sl: "slice 60 34 (blit b 28 (content_id_bytes (obj_content_id r))) = replicate 34 0"
    unfolding bs using pre cid by (simp add: slice_def)
  show ?thesis
    unfolding Let_def sl encode_oid_fixed_zero [OF oid] unfolding bs
    using pre cid length_oid_fixed [OF oid] by (simp add: blit_def metadata_body_def record_meta_def)
qed


lemma encode_record_eq:
  assumes wf: "object_record_wf r"
  shows "encode_record r = (if length (obj_payload r) + 155 < u64_limit then Inr (record_bytes r)
    else Inl LengthOverflow)"
proof (cases "length (obj_payload r) + 155 < u64_limit")
  case False
  then show ?thesis
    by (simp add: encode_record_def try_u64_def checked_add_usize_def align_eq Let_def)
next
  case True
  let ?n = "length (obj_payload r)"
  let ?pad = "padded_length ?n - (148 + ?n)"
  let ?h = "metadata_body (record_meta r)"
  let ?tail = "replicate (?n + 20 + ?pad) 0"
  have pl: "padded_length ?n = 128 + (?n + 20 + ?pad)"
    using padded_length_bounds(1) [of ?n] by simp
  have checks: "try_u64 ?n = Some (word_of_nat ?n)"
      "checked_add_usize RECORD_HEADER_LEN ?n = Some (128 + ?n)"
      "checked_add_usize (128 + ?n) RECORD_FOOTER_LEN = Some (148 + ?n)"
      "try_u64 (148 + ?n) = Some (word_of_nat (148 + ?n))"
      "align (148 + ?n) = Inr (padded_length ?n)"
    using True by (simp_all add: try_u64_def checked_add_usize_def align_eq padded_length_def)
  have sum: "replicate (4 + (30 + (?n + 20 + ?pad))) (0 :: u8) = replicate (4 + 30) 0 @ ?tail"
    by (simp flip: replicate_add)
  have hdr: "put_u32 (?h @ replicate (4 + 30) 0 @ ?tail) RECORD_CRC_OFFSET
      (crc32c_with_zeroed_field (take RECORD_HEADER_LEN (?h @ replicate (4 + 30) 0 @ ?tail)) RECORD_CRC_OFFSET 4)
    = record_header r @ ?tail"
    using blit_crc [of ?h 94 30] wf by (simp add: put_u32_def layout record_header_def metadata_header_def)
  have ftr: "blit (put_u64 (put_u32 (blit (record_header r @ ?tail) RECORD_HEADER_LEN (obj_payload r))
        (RECORD_HEADER_LEN + ?n) (crc32c (obj_payload r))) (RECORD_HEADER_LEN + ?n + 4) (word_of_nat (148 + ?n)))
        (RECORD_HEADER_LEN + ?n + 12) RECORD_END_MAGIC = record_bytes r"
    using wf by (simp add: field_defs blit_def record_bytes_def record_footer_def)
  have "encode_record r = Inr (record_bytes r)"
    unfolding encode_record_def checks ok_or.simps and_then.simps option.case Let_def
      record_fields [OF wf pl refl, unfolded Let_def] sum hdr ftr ..
  with True show ?thesis by simp
qed


subsection \<open>Decoding record headers\<close>

lemma read_metadata_body:
  assumes "metadata_wf m"
  shows "slice 0 4 (metadata_body m) = RECORD_MAGIC"
    "slice 4 2 (metadata_body m) = u16_be FORMAT_VERSION"
    "slice 6 2 (metadata_body m) = u16_be (word_of_nat RECORD_HEADER_LEN)"
    "slice 8 (Suc 0) (metadata_body m) = [kind_tag (md_kind m)]"
    "slice 9 (Suc 0) (metadata_body m) = [codec_tag (md_codec m)]"
    "slice 10 2 (metadata_body m) = u16_be (md_flags m)"
    "slice 12 8 (metadata_body m) = u64_be (md_raw_length m)"
    "slice 20 8 (metadata_body m) = u64_be (md_stored_length m)"
    "slice 28 32 (metadata_body m) = content_id_bytes (md_content_id m)"
    "slice 60 34 (metadata_body m) = oid_fixed (md_primary_oid m)"
  using assms
  by (simp_all add: metadata_body_def slice_def metadata_wf_def content_id_wf_def)

lemma nth_of_slice: "slice off (Suc 0) bs = [b] \<Longrightarrow> bs ! off = b"
  by (cases "off < length bs") (auto simp: slice_def take_Suc_conv_app_nth)

lemma decode_record_metadata_header:
  assumes wf: "metadata_wf m"
  shows "decode_record_metadata (metadata_header m @ rest) = Inr m"
proof -
  let ?b = "sealed_buffer (metadata_body m) 30"
  have tk: "take 128 (?b @ rest) = ?b" using wf by simp
  have "?b ! 8 = kind_tag (md_kind m)" "?b ! 9 = codec_tag (md_codec m)"
    by (rule nth_of_slice, use wf in \<open>simp add: layout read_metadata_body\<close>)+
  then show ?thesis
    unfolding decode_record_metadata_def Let_def metadata_header_def
    using sealed_buffer_crc [of "metadata_body m" 94 30] wf
    by (simp add: tk take_as_slice [of 4] layout read_metadata_body read_u16_def read_u64_def
        read_u32_def check_version_def check_header_len_def decode_oid_fixed_oid_fixed metadata_wf_def)
qed

lemma decode_record_metadata_sound:
  assumes dec: "decode_record_metadata bs = Inr m"
  shows "metadata_wf m" and "take 128 bs = metadata_header m" and "128 \<le> length bs"
proof -
  let ?b = "take 128 bs"
  from dec show len: "128 \<le> length bs"
    by (auto simp: decode_record_metadata_def split: if_splits)
  from dec obtain oid where magic: "slice 0 4 ?b = RECORD_MAGIC"
    and ver: "read_u16 ?b 4 = FORMAT_VERSION" and hl: "unat (read_u16 ?b 6) = 128"
    and crc: "read_u32 ?b 94 = crc32c_with_zeroed_field ?b 94 4"
    and zero: "\<not> any_nonzero (drop (94 + 4) ?b)"
    and tags: "?b ! 8 = kind_tag (md_kind m)" "?b ! 9 = codec_tag (md_codec m)"
    and oid: "decode_oid_fixed (slice 60 34 ?b) = Inr (md_primary_oid m)"
    and m: "md_flags m = read_u16 ?b 10" "md_raw_length m = read_u64 ?b 12"
      "md_stored_length m = read_u64 ?b 20" "md_content_id m = ContentId (slice 28 32 ?b)"
    by (auto simp: decode_record_metadata_def Let_def ok_iff take_as_slice [of 4] split: if_splits)
  have hl': "read_u16 ?b 6 = word_of_nat RECORD_HEADER_LEN"
    using hl by (simp add: word_unat_eq_iff)
  have o: "git_oid_wf (md_primary_oid m)" "slice 60 34 ?b = oid_fixed (md_primary_oid m)"
    using decode_oid_fixed_sound [OF oid] len by simp_all
  show wf: "metadata_wf m"
    using o len by (simp add: metadata_wf_def content_id_wf_def m)
  have "slice 8 (Suc 0) ?b = [kind_tag (md_kind m)]" "slice 9 (Suc 0) ?b = [codec_tag (md_codec m)]"
    using tags len by (simp_all add: slice_one [simplified])
  then have "take 94 ?b = metadata_body m"
    using take_by_cuts [of "[4, 2, 2, 1, 1, 2, 8, 8, 32, 34]" ?b, OF refl] len magic o(2)
    by (simp add: metadata_body_def m slice_reads ver hl')
  then show "?b = metadata_header m"
    using sealed_bufferI [OF _ crc zero, of 30] len by (simp add: metadata_header_def)
qed


subsection \<open>Decoding records\<close>

lemma record_total:
  "(case checked_add_usize RECORD_HEADER_LEN n of None \<Rightarrow> None
     | Some m \<Rightarrow> checked_add_usize m RECORD_FOOTER_LEN) =
   (if 148 + n < u64_limit then Some (148 + n) else None)"
  by (auto simp: checked_add_usize_def split: option.splits)

lemma decode_record_bytes:
  assumes wf: "object_record_wf r" and n: "length (obj_payload r) + 155 < u64_limit"
  shows "decode_record (record_bytes r @ rest) = Inr (r, padded_length (length (obj_payload r)))"
proof -
  let ?n = "length (obj_payload r)"
  let ?pad = "padded_length ?n - (148 + ?n)"
  let ?bs = "record_bytes r @ rest"
  have meta: "decode_record_metadata ?bs = Inr (record_meta r)"
    using decode_record_metadata_header [of "record_meta r"] wf
    by (simp add: record_bytes_def record_header_def)
  have stored: "unat (md_stored_length (record_meta r)) = ?n"
    using n by (simp add: record_meta_def unat_u64_of_nat)
  have len: "length ?bs = padded_length ?n + length rest" using wf by simp
  have al: "align (148 + ?n) = Inr (padded_length ?n)"
    using n by (simp add: align_eq padded_length_def)
  have pay: "slice 128 ?n ?bs = obj_payload r"
    using wf by (simp add: record_bytes_def slice_def)
  have ftr: "slice (128 + ?n) 4 ?bs = u32_be (crc32c (obj_payload r))"
    "slice (132 + ?n) 8 ?bs = u64_be (word_of_nat (148 + ?n))"
    "slice (140 + ?n) 8 ?bs = RECORD_END_MAGIC"
    using wf by (simp_all add: record_bytes_def record_footer_def slice_def)
  have pad: "slice (148 + ?n) ?pad ?bs = replicate ?pad 0"
    using wf by (simp add: record_bytes_def slice_def)
  have r: "\<lparr>obj_kind = md_kind (record_meta r), obj_codec = md_codec (record_meta r),
      obj_flags = md_flags (record_meta r), obj_raw_length = md_raw_length (record_meta r),
      obj_content_id = md_content_id (record_meta r), obj_primary_oid = md_primary_oid (record_meta r),
      obj_payload = obj_payload r\<rparr> = r"
    by (simp add: record_meta_def)
  show ?thesis
    using n wf padded_length_bounds [of ?n]
    by (simp add: decode_record_def meta stored record_total [simplified] Let_def len al pay ftr pad r
        read_u64_def read_u32_def try_u64_def add.assoc)
qed

lemma decode_record_sound:
  assumes dec: "decode_record bs = Inr (r, k)"
  shows "object_record_wf r" and "take k bs = record_bytes r" and "k \<le> length bs"
    and "k = padded_length (length (obj_payload r))" and "length (obj_payload r) + 155 < u64_limit"
proof -
  from dec [unfolded decode_record_def record_total]
  obtain m where meta: "decode_record_metadata bs = Inr m"
    and tot: "148 + unat (md_stored_length m) < u64_limit"
    and len: "148 + unat (md_stored_length m) \<le> length bs"
    and tl: "read_u64 bs (132 + unat (md_stored_length m)) = word_of_nat (148 + unat (md_stored_length m))"
    and magic: "slice (140 + unat (md_stored_length m)) 8 bs = RECORD_END_MAGIC"
    and crc: "read_u32 bs (128 + unat (md_stored_length m))
        = crc32c (slice 128 (unat (md_stored_length m)) bs)"
    and al: "align (148 + unat (md_stored_length m)) = Inr k"
    and k: "k \<le> length bs"
    and zero: "\<not> any_nonzero (slice (148 + unat (md_stored_length m)) (k - (148 + unat (md_stored_length m))) bs)"
    and r: "obj_kind r = md_kind m" "obj_codec r = md_codec m" "obj_flags r = md_flags m"
      "obj_raw_length r = md_raw_length m" "obj_content_id r = md_content_id m"
      "obj_primary_oid r = md_primary_oid m" "obj_payload r = slice 128 (unat (md_stored_length m)) bs"
    by (auto simp: Let_def ok_iff add.assoc split: if_splits)
  let ?n = "unat (md_stored_length m)"
  have n: "length (obj_payload r) = ?n" using len r by simp
  note md = decode_record_metadata_sound [OF meta]
  show wf: "object_record_wf r"
    using md(1) by (simp add: object_record_wf_def metadata_wf_def r)
  have rm: "record_meta r = m"
    using n by (simp add: record_meta_def r(1-6))
  show bound: "length (obj_payload r) + 155 < u64_limit"
    and kp: "k = padded_length (length (obj_payload r))"
    using al by (auto simp: align_eq n padded_length_def split: if_splits)
  show "k \<le> length bs" by (rule k)
  have ge: "148 + ?n \<le> k" using align_bounds(1) [OF al] .
  have ftr: "slice (128 + ?n) 20 bs = record_footer r"
    using concat_cuts [of "128 + ?n" "[4, 8, 8]" bs] crc tl magic len
    by (simp add: slice_reads(2) slice_reads(3) [of "132 + ?n"] record_footer_def n r(7) add.assoc)
  have pad: "slice (148 + ?n) (k - (148 + ?n)) bs = replicate (k - (148 + ?n)) 0"
    using zero k ge by (simp add: any_nonzero_iff)
  have "take k bs = take 128 bs @ slice 128 ?n bs @ slice (128 + ?n) 20 bs
      @ slice (148 + ?n) (k - (148 + ?n)) bs"
    using concat_cuts [of 0 "[128, ?n, 20, k - (148 + ?n)]" bs] ge
    by (simp add: take_as_slice add.assoc)
  also have "\<dots> = record_header r @ obj_payload r @ record_footer r @ replicate (k - (148 + ?n)) 0"
    by (simp only: ftr pad md(2) record_header_def rm r(7))
  also have "\<dots> = record_bytes r"
    by (simp only: record_bytes_def kp n)
  finally show "take k bs = record_bytes r" .
qed


subsection \<open>Lengths and footers for streaming readers\<close>

lemma encoded_record_len_from_header_eq:
  assumes "decode_record_metadata bs = Inr m"
  shows "encoded_record_len_from_header bs =
    (if unat (md_stored_length m) + 155 < u64_limit then Inr (padded_length (unat (md_stored_length m)))
     else Inl LengthOverflow)"
  unfolding encoded_record_len_from_header_def assms and_then.simps Let_def record_total
  by (simp add: align_eq padded_length_def)

lemma unpadded_length_u64_eq:
  "unpadded_length_u64 s = (if 148 + unat s < u64_limit then Some (word_of_nat (148 + unat s)) else None)"
  by (auto simp: unpadded_length_u64_def checked_add_def unat_word_ariths split: option.splits)

lemma encoded_record_len_from_metadata_eq:
  "encoded_record_len_from_metadata m =
    (if unat (md_stored_length m) + 155 < u64_limit
     then Inr (word_of_nat (padded_length (unat (md_stored_length m)))) else Inl LengthOverflow)"
proof -
  have u: "unat (word_of_nat (148 + unat (md_stored_length m)) :: u64) = 148 + unat (md_stored_length m)"
    if "148 + unat (md_stored_length m) < u64_limit"
    using that by (rule unat_u64_of_nat)
  show ?thesis
    unfolding encoded_record_len_from_metadata_def unpadded_length_u64_eq
    using u by (auto simp: align_u64_eq padded_length_def simp del: of_nat_add)
qed

lemma validate_record_footer_iff:
  "validate_record_footer bs crc len_u64 = Inr () \<longleftrightarrow>
     20 \<le> length bs \<and> take 20 bs = u32_be crc @ u64_be len_u64 @ RECORD_END_MAGIC"
proof
  assume "validate_record_footer bs crc len_u64 = Inr ()"
  then have len: "20 \<le> length bs" and "read_u32 (take 20 bs) 0 = crc"
    and "read_u64 (take 20 bs) 4 = len_u64" and "slice 12 8 (take 20 bs) = RECORD_END_MAGIC"
    by (auto simp: validate_record_footer_def Let_def split: if_splits)
  then show "20 \<le> length bs \<and> take 20 bs = u32_be crc @ u64_be len_u64 @ RECORD_END_MAGIC"
    using concat_cuts [of 0 "[4, 8, 8]" "take 20 bs"] take_as_slice [of 20 "take 20 bs"]
    by (simp add: slice_reads(2) slice_reads(3) [of 4])
next
  assume "20 \<le> length bs \<and> take 20 bs = u32_be crc @ u64_be len_u64 @ RECORD_END_MAGIC"
  then show "validate_record_footer bs crc len_u64 = Inr ()"
    by (auto simp: validate_record_footer_def Let_def read_u32_def read_u64_def slice_def)
qed

section \<open>Piecewise validation\<close>

definition record_of :: "record_metadata \<Rightarrow> bytes \<Rightarrow> object_record" where
  "record_of m payload = \<lparr>obj_kind = md_kind m, obj_codec = md_codec m, obj_flags = md_flags m,
     obj_raw_length = md_raw_length m, obj_content_id = md_content_id m,
     obj_primary_oid = md_primary_oid m, obj_payload = payload\<rparr>"

lemma validate_record_footer_slice:
  assumes "off + 20 \<le> length bs"
  shows "validate_record_footer (slice off 20 bs) crc len_u64 = Inr () \<longleftrightarrow>
    read_u32 bs off = crc \<and> read_u64 bs (off + 4) = len_u64 \<and> slice (off + 12) 8 bs = RECORD_END_MAGIC"
proof -
  have "slice 0 4 (slice off 20 bs) = slice off 4 bs" "slice 4 8 (slice off 20 bs) = slice (off + 4) 8 bs"
    "slice 12 8 (slice off 20 bs) = slice (off + 12) 8 bs"
    by (simp_all add: slice_slice)
  then show ?thesis
    using assms by (simp add: validate_record_footer_def read_u32_def read_u64_def slice_def Let_def)
qed

lemma decode_record_iff:
  "decode_record bs = Inr (r, k) \<longleftrightarrow>
    (\<exists>m. decode_record_metadata bs = Inr m \<and> unat (md_stored_length m) + 155 < u64_limit \<and>
      k = padded_length (unat (md_stored_length m)) \<and> k \<le> length bs \<and>
      validate_record_footer (slice (128 + unat (md_stored_length m)) 20 bs)
        (crc32c (slice 128 (unat (md_stored_length m)) bs)) (word_of_nat (148 + unat (md_stored_length m))) = Inr () \<and>
      \<not> any_nonzero (slice (148 + unat (md_stored_length m)) (k - (148 + unat (md_stored_length m))) bs) \<and>
      r = record_of m (slice 128 (unat (md_stored_length m)) bs))"
    (is "_ \<longleftrightarrow> (\<exists>m. ?R m)")
proof (cases "decode_record_metadata bs")
  case (Inl e)
  then show ?thesis by (simp add: decode_record_def)
next
  case (Inr m)
  let ?s = "unat (md_stored_length m)"
  have pl: "148 + ?s \<le> padded_length ?s" by (rule padded_length_bounds)
  have "decode_record bs = Inr (r, k) \<longleftrightarrow> ?R m"
  proof (cases "?s + 155 < u64_limit \<and> 148 + ?s \<le> length bs")
    case False
    then show ?thesis
      unfolding decode_record_def Inr and_then.simps Let_def record_total
      using pl by (auto simp: align_eq ok_iff try_u64_def split: if_splits)
  next
    case True
    then have "128 + ?s + 20 \<le> length bs" by simp
    note foot = validate_record_footer_slice [OF this]
    have tot: "148 + ?s < u64_limit" using True by simp
    have "decode_record bs = Inr (r, k) \<longleftrightarrow>
        read_u64 bs (128 + ?s + 4) = word_of_nat (148 + ?s) \<and> slice (128 + ?s + 12) 8 bs = RECORD_END_MAGIC \<and>
        read_u32 bs (128 + ?s) = crc32c (slice 128 ?s bs) \<and> padded_length ?s \<le> length bs \<and>
        \<not> any_nonzero (slice (148 + ?s) (padded_length ?s - (148 + ?s)) bs) \<and>
        r = record_of m (slice 128 ?s bs) \<and> k = padded_length ?s"
      unfolding decode_record_def Inr and_then.simps Let_def record_total
      using True tot by (auto simp: align_eq ok_iff try_u64_def padded_length_def record_of_def split: if_splits)
    then show ?thesis using True foot Inr by auto
  qed
  then show ?thesis using Inr by auto
qed

end
