(* ===== verification/Corruption.thy ===== *)
theory Corruption
  imports Format_Laws
begin

text \<open>
  Damage to an encoded record: whatever single byte of it is altered, \<open>decode_record\<close> rejects the
  buffer.  The header is covered by its own CRC-32C, the payload by the checksum of the footer,
  the footer and the padding by equality tests.
\<close>

lemma list_update_append_left:
  "i < length xs \<Longrightarrow> (xs @ ys)[i := b] = xs[i := b] @ ys"
  by (simp add: list_update_append)

lemma list_update_append_right:
  "length xs \<le> i \<Longrightarrow> (xs @ ys)[i := b] = xs @ ys[i - length xs := b]"
  by (simp add: list_update_append)


lemma append_split: "xs @ us = ys @ vs \<Longrightarrow> length xs = length ys \<Longrightarrow> xs = ys \<and> us = vs"
  by simp

lemma sealed_buffer_one_byte:
  assumes upd: "(sealed_buffer pre n)[i := b] = sealed_buffer pre' n"
    and len: "length pre' = length pre" and i: "i < length pre + 4 + n"
  shows "b = sealed_buffer pre n ! i"
proof (cases "i < length pre")
  case True
  then have "pre[i := b] @ u32_be (crc32c (pre @ replicate (4 + n) 0)) @ replicate n 0
      = pre' @ u32_be (crc32c (pre' @ replicate (4 + n) 0)) @ replicate n 0"
    using upd by (simp add: sealed_buffer_def list_update_append_left)
  then have pre': "pre' = pre[i := b]"
    and "crc32c (pre @ replicate (4 + n) 0) = crc32c (pre' @ replicate (4 + n) 0)"
    using len by (simp_all add: append_eq_append_conv)
  then have "crc32c ((pre @ replicate (4 + n) 0)[i := b]) = crc32c (pre @ replicate (4 + n) 0)"
    using True by (simp add: list_update_append_left)
  then have "b = (pre @ replicate (4 + n) 0) ! i"
    using True crc32c_list_update [of i "pre @ replicate (4 + n) 0" b] by auto
  then show ?thesis using True by (simp add: sealed_buffer_def nth_append)
next
  case False
  then have "take (length pre) ((sealed_buffer pre n)[i := b]) = pre"
    by (simp add: sealed_buffer_def)
  then have "pre' = pre" using upd len by (simp add: sealed_buffer_def)
  then have "(sealed_buffer pre n)[i := b] = sealed_buffer pre n" using upd by simp
  then show ?thesis using i by (metis length_sealed_buffer nth_list_update_eq)
qed

lemma metadata_header_inj:
  "metadata_wf m \<Longrightarrow> metadata_wf m' \<Longrightarrow> metadata_header m = metadata_header m' \<Longrightarrow> m = m'"
  using decode_record_metadata_header [of m "[]"] decode_record_metadata_header [of m' "[]"] by simp

lemma record_meta_eqD:
  assumes "record_meta r = record_meta r'" and "obj_payload r = obj_payload r'"
  shows "r = r'"
  using assms by (cases r; cases r') (simp add: record_meta_def)

lemma payload_one_byte:
  assumes upd: "(record_bytes r)[i := b] = record_bytes r'" and i: "128 \<le> i" "i < length (record_bytes r)"
    and wf: "object_record_wf r" "object_record_wf r'" and meta: "record_meta r = record_meta r'"
    and len: "length (obj_payload r') = length (obj_payload r)"
  shows "b = record_bytes r ! i"
proof -
  let ?p = "obj_payload r" and ?p' = "obj_payload r'"
  let ?j = "i - 128"
  let ?tail = "\<lambda>r. record_footer r @ replicate (padded_length (length ?p) - (148 + length ?p)) 0"
  have "record_header r @ (?p @ ?tail r)[?j := b] = record_header r' @ ?p' @ ?tail r'"
    using upd i(1) wf by (simp add: record_bytes_def list_update_append len)
  then have tail: "(?p @ ?tail r)[?j := b] = ?p' @ ?tail r'"
    using wf by (simp add: append_eq_append_conv)
  have "?p' = ?p" if "\<not> i < 128 + length ?p"
  proof -
    have "length ?p \<le> ?j" using that i(1) by simp
    from list_update_append_right [OF this, of "?tail r" b] tail
    have "?p @ (?tail r)[?j - length ?p := b] = ?p' @ ?tail r'" by (simp only:)
    from append_split [OF this] len show ?thesis by simp
  qed
  moreover have "b = record_bytes r ! i" if lt: "i < 128 + length ?p"
  proof -
    have j: "?j < length ?p" using lt i(1) by simp
    from list_update_append_left [OF j, of "?tail r" b] tail
    have "?p[?j := b] @ ?tail r = ?p' @ ?tail r'" by (simp only:)
    from append_split [OF this] len have p': "?p' = ?p[?j := b]" and tails: "?tail r = ?tail r'"
      by simp_all
    have "take 4 (?tail r) = take 4 (?tail r')" by (simp only: tails)
    then have "crc32c (?p[?j := b]) = crc32c ?p"
      by (simp add: record_footer_def p')
    then have "b = ?p ! ?j" using crc32c_list_update [OF j, of b] by auto
    then show ?thesis using j i(1) wf by (simp add: record_bytes_def nth_append)
  qed
  moreover have "b = record_bytes r ! i" if "?p' = ?p"
    using record_meta_eqD [OF meta that [symmetric]] upd i(2) by (metis nth_list_update_eq)
  ultimately show ?thesis by blast
qed

lemma one_byte_detected:
  assumes wf: "object_record_wf r" and n: "length (obj_payload r) + 155 < u64_limit"
    and i: "i < length (record_bytes r)" and dec: "decode_record ((record_bytes r)[i := b] @ rest) = Inr (r', k)"
  shows "b = record_bytes r ! i"
proof -
  let ?bs = "(record_bytes r)[i := b] @ rest"
  note snd = decode_record_sound [OF dec]
  have len: "128 \<le> length (record_bytes r)"
    using padded_length_bounds(1) [of "length (obj_payload r)"] wf by simp
  have rb: "record_bytes r = record_header r @ drop 128 (record_bytes r)"
    using wf by (simp add: record_bytes_def)
  have le: "128 \<le> k" using padded_length_bounds(1) [of "length (obj_payload r')"] snd(4) by simp
  have hdr: "take 128 ?bs = record_header r'"
  proof -
    have "take 128 ?bs = take 128 (take k ?bs)" using le by (simp only: take_take min_absorb1)
    also have "\<dots> = record_header r'" unfolding snd(2) using snd(1) by (simp add: record_bytes_def)
    finally show ?thesis .
  qed
  show ?thesis
  proof (cases "i < 128")
    case True
    then have "take 128 ?bs = (record_header r)[i := b]"
      using wf len by (subst rb) (simp add: list_update_append_left)
    then have "(sealed_buffer (metadata_body (record_meta r)) 30)[i := b] = sealed_buffer (metadata_body (record_meta r')) 30"
      using hdr by (simp add: record_header_def metadata_header_def)
    from sealed_buffer_one_byte [OF this] have "b = record_header r ! i"
      using wf snd(1) True by (simp add: record_header_def metadata_header_def)
    then show ?thesis using True wf by (subst rb) (simp add: nth_append)
  next
    case False
    then have "take 128 ?bs = record_header r"
      using wf len by (subst rb) (simp add: list_update_append)
    then have meta: "record_meta r = record_meta r'"
      using hdr metadata_header_inj [of "record_meta r" "record_meta r'"] wf snd(1)
      by (simp add: record_header_def)
    then have "md_stored_length (record_meta r) = md_stored_length (record_meta r')" by simp
    then have "unat (word_of_nat (length (obj_payload r)) :: u64) = unat (word_of_nat (length (obj_payload r')) :: u64)"
      by (simp add: record_meta_def)
    then have pl: "length (obj_payload r') = length (obj_payload r)"
      using unat_u64_of_nat [of "length (obj_payload r)"] unat_u64_of_nat [of "length (obj_payload r')"] n snd(5)
      by linarith
    have "k = length (record_bytes r)" using snd(4) pl wf by simp
    then have "(record_bytes r)[i := b] = record_bytes r'" using snd(2) by simp
    then show ?thesis
      using payload_one_byte [OF _ _ i wf snd(1) meta pl] False by simp
  qed
qed

end
