(* ===== verification/Payload.thy ===== *)
theory Payload
  imports Format_Laws Streams
begin

text \<open>
  Encoding, decoding and full verification of stored object payloads
  (\<open>crates/reflink-forest-format/src/lib.rs\<close>).  The \<open>zstd\<close> crate is a parameter: its one-frame
  encoder, and its single-frame decoder as the sequence of reads it delivers followed by an error
  or by the source bytes it left unconsumed.  \<open>ValidatingObjectWriter\<close> wraps an arbitrary writer
  that may accept part of what it is offered or fail; it is a writer itself, and what it lets
  through is bounded by the declared length and bound to the content id.
\<close>

datatype codec_error =
    CodecIo io_error
  | RawLengthMismatch u64 u64
  | ContentMismatch content_id content_id
  | TrailingZstdData

section \<open>The codec library\<close>

text \<open>\<open>zstd_decode\<close> lists the non-empty reads of the frame decoder, each at most one buffer long.\<close>

record zstd =
  zstd_encode :: "bytes \<Rightarrow> io_error + bytes"
  zstd_decode :: "bytes \<Rightarrow> bytes list \<times> (io_error + bytes)"

text \<open>What the writer side relies on: a frame it wrote decodes to what it was given.\<close>

definition zstd_ok :: "zstd \<Rightarrow> bool" where
  "zstd_ok z \<longleftrightarrow> (\<forall>raw frame. zstd_encode z raw = Inr frame \<longrightarrow>
     (\<exists>reads. zstd_decode z frame = (reads, Inr []) \<and> concat reads = raw))"

section \<open>The validating writer\<close>

record ('w, 'h) validating_writer =
  vw_writer :: 'w
  vw_expected_length :: u64
  vw_written :: u64
  vw_hasher :: 'h

definition vw_new :: "'h crypto \<Rightarrow> 'w \<Rightarrow> object_kind \<Rightarrow> u64 \<Rightarrow> ('w, 'h) validating_writer" where
  "vw_new c writer kind expected_length =
     \<lparr>vw_writer = writer, vw_expected_length = expected_length, vw_written = 0,
      vw_hasher = content_hasher_new c kind expected_length\<rparr>"

definition vw_write :: "'h crypto \<Rightarrow> 'w writer \<Rightarrow> ('w, 'h) validating_writer writer" where
  "vw_write c wr bs = (\<lambda>v.
     case try_u64 (length bs) of
       None \<Rightarrow> (Inl (IoError InvalidData ''decoded object write length does not fit in u64''), v)
     | Some additional \<Rightarrow>
       (case checked_add (vw_written v) additional of
          None \<Rightarrow> (Inl (IoError InvalidData ''decoded object length overflowed u64''), v)
        | Some next_written \<Rightarrow>
          if vw_expected_length v < next_written
          then (Inl (IoError InvalidData ''decoded object exceeds its declared raw length''), v)
          else (case wr bs (vw_writer v) of
              (Inl e, w) \<Rightarrow> (Inl e, v\<lparr>vw_writer := w\<rparr>)
            | (Inr written, w) \<Rightarrow>
                (Inr written,
                 v\<lparr>vw_writer := w,
                   vw_hasher := content_hasher_update c (vw_hasher v) (take written bs),
                   vw_written := vw_written v + word_of_nat written\<rparr>))))"

definition vw_finish ::
  "'h crypto \<Rightarrow> ('w, 'h) validating_writer \<Rightarrow> content_id \<Rightarrow> codec_error + unit" where
  "vw_finish c v expected_content_id =
     (if vw_written v \<noteq> vw_expected_length v
      then Inl (RawLengthMismatch (vw_expected_length v) (vw_written v))
      else let actual = content_hasher_finalize c (vw_hasher v) in
        if actual \<noteq> expected_content_id then Inl (ContentMismatch expected_content_id actual)
        else Inr ())"

section \<open>Encoding and decoding payloads\<close>

text \<open>\<open>copy_decoded\<close>: the reads in order, then the end of the source or its error.\<close>

fun copy_decoded :: "'w writer \<Rightarrow> bytes list \<Rightarrow> io_error + 'x \<Rightarrow> ('w, io_error, 'x) eff" where
  "copy_decoded wr [] end_of_source = lift_result end_of_source"
| "copy_decoded wr (buffer # reads) end_of_source =
     seq_eff (write_all wr buffer) (\<lambda>_. copy_decoded wr reads end_of_source)"

definition encode_object_payload :: "zstd \<Rightarrow> codec \<Rightarrow> bytes \<Rightarrow> codec_error + bytes" where
  "encode_object_payload z codec raw =
     (case codec of
        Raw \<Rightarrow> Inr raw
      | Zstd \<Rightarrow> map_err CodecIo (zstd_encode z raw))"

definition decode_object_payload_to_writer ::
  "'h crypto \<Rightarrow> zstd \<Rightarrow> 'w writer \<Rightarrow> object_kind \<Rightarrow> codec \<Rightarrow> u64 \<Rightarrow> content_id \<Rightarrow> bytes
    \<Rightarrow> ('w, codec_error, unit) eff" where
  "decode_object_payload_to_writer c z wr kind codec raw_length expected_content_id source = (\<lambda>writer.
     let validated = vw_new c writer kind raw_length in
     case codec of
       Raw \<Rightarrow>
         (case copy_decoded (vw_write c wr) (chunks_of CODEC_STREAM_BUFFER_BYTES source) (Inr ())
                 validated of
            (Inl e, v) \<Rightarrow> (Inl (CodecIo e), vw_writer v)
          | (Inr _, v) \<Rightarrow> (vw_finish c v expected_content_id, vw_writer v))
     | Zstd \<Rightarrow>
         (case zstd_decode z source of (reads, end_of_source) \<Rightarrow>
         (case copy_decoded (vw_write c wr) reads end_of_source validated of
            (Inl e, v) \<Rightarrow> (Inl (CodecIo e), vw_writer v)
          | (Inr unconsumed, v) \<Rightarrow>
              if unconsumed \<noteq> [] then (Inl TrailingZstdData, vw_writer v)
              else (vw_finish c v expected_content_id, vw_writer v))))"

definition decode_object_payload :: "'h crypto \<Rightarrow> zstd \<Rightarrow> object_record \<Rightarrow> codec_error + bytes" where
  "decode_object_payload c z r =
     (case decode_object_payload_to_writer c z vec_write (obj_kind r) (obj_codec r) (obj_raw_length r)
             (obj_content_id r) (obj_payload r) [] of
        (Inl e, _) \<Rightarrow> Inl e
      | (Inr _, raw) \<Rightarrow> Inr raw)"

definition verify_object_record :: "'h crypto \<Rightarrow> zstd \<Rightarrow> object_record \<Rightarrow> codec_error + unit" where
  "verify_object_record c z r =
     fst (decode_object_payload_to_writer c z sink_write (obj_kind r) (obj_codec r)
            (obj_raw_length r) (obj_content_id r) (obj_payload r) ())"

section \<open>Lemmas\<close>

definition vw_room :: "('w, 'h) validating_writer \<Rightarrow> nat" where
  "vw_room v = unat (vw_expected_length v) - unat (vw_written v)"

definition vw_wf :: "('w, 'h) validating_writer \<Rightarrow> bool" where
  "vw_wf v \<longleftrightarrow> vw_written v \<le> vw_expected_length v"

lemma vw_new_wf [simp]: "vw_wf (vw_new c w kind n)" "vw_room (vw_new c w kind n) = unat n"
  by (simp_all add: vw_wf_def vw_room_def vw_new_def)

text \<open>The three guards of \<open>write\<close> let a buffer through exactly when the declared length has room.\<close>

lemma vw_write_eq:
  assumes "vw_wf v"
  shows "(\<exists>e. vw_write c wr bs v = (Inl e, v)) \<and> vw_room v < length bs \<or>
    length bs \<le> vw_room v \<and>
    vw_write c wr bs v = (case wr bs (vw_writer v) of
        (Inl e, w) \<Rightarrow> (Inl e, v\<lparr>vw_writer := w\<rparr>)
      | (Inr n, w) \<Rightarrow> (Inr n, v\<lparr>vw_writer := w,
           vw_hasher := content_hasher_update c (vw_hasher v) (take n bs),
           vw_written := vw_written v + word_of_nat n\<rparr>))"
proof -
  have le: "unat (vw_written v) \<le> unat (vw_expected_length v)"
    using assms by (simp add: vw_wf_def word_le_nat_alt)
  show ?thesis
  proof (cases "length bs \<le> vw_room v")
    case True
    then have sum: "unat (vw_written v) + length bs \<le> unat (vw_expected_length v)"
      using le by (simp add: vw_room_def)
    then have lt: "unat (vw_written v) + length bs < u64_limit"
      using unat_less_u64_limit [of "vw_expected_length v"] by linarith
    then have len: "unat (word_of_nat (length bs) :: u64) = length bs"
      by (simp add: unat_u64_of_nat)
    have "unat (vw_written v + word_of_nat (length bs)) = unat (vw_written v) + length bs"
      using lt len by (simp add: unat_word_ariths)
    then show ?thesis
      using True lt sum len by (simp add: vw_write_def try_u64_def checked_add_def word_less_nat_alt)
  next
    case False
    then have "unat (vw_expected_length v) < unat (vw_written v) + length bs"
      using le by (simp add: vw_room_def)
    then have "\<exists>e. vw_write c wr bs v = (Inl e, v)"
      by (auto simp: vw_write_def try_u64_def checked_add_def word_less_nat_alt unat_word_ariths
          unat_u64_of_nat)
    then show ?thesis using False by simp
  qed
qed

lemma vw_advance:
  assumes "vw_wf v" and "n \<le> vw_room v"
  shows "vw_wf (v\<lparr>vw_writer := w, vw_hasher := h, vw_written := vw_written v + word_of_nat n\<rparr>)"
    and "unat (vw_written v + word_of_nat n) = unat (vw_written v) + n"
proof -
  have "unat (vw_written v) \<le> unat (vw_expected_length v)"
    using assms(1) by (simp add: vw_wf_def word_le_nat_alt)
  then have sum: "unat (vw_written v) + n \<le> unat (vw_expected_length v)"
    using assms(2) by (simp add: vw_room_def)
  then have lt: "unat (vw_written v) + n < u64_limit"
    using unat_less_u64_limit [of "vw_expected_length v"] by linarith
  then show u: "unat (vw_written v + word_of_nat n) = unat (vw_written v) + n"
    by (simp add: unat_word_ariths unat_u64_of_nat)
  show "vw_wf (v\<lparr>vw_writer := w, vw_hasher := h, vw_written := vw_written v + word_of_nat n\<rparr>)"
    using sum u by (simp add: vw_wf_def word_le_nat_alt)
qed

text \<open>What the source delivers to the writer, and whether it ends cleanly.\<close>

definition source_reads :: "zstd \<Rightarrow> codec \<Rightarrow> bytes \<Rightarrow> bytes list \<times> (io_error + bytes)" where
  "source_reads z codec source =
     (case codec of Raw \<Rightarrow> (chunks_of CODEC_STREAM_BUFFER_BYTES source, Inr []) | Zstd \<Rightarrow> zstd_decode z source)"

definition after_copy :: "'h crypto \<Rightarrow> content_id \<Rightarrow> (io_error + bytes) \<times> ('w, 'h) validating_writer
    \<Rightarrow> (codec_error + unit) \<times> 'w" where
  "after_copy c cid = (\<lambda>(r, v). (case r of Inl e \<Rightarrow> Inl (CodecIo e)
     | Inr unconsumed \<Rightarrow> if unconsumed \<noteq> [] then Inl TrailingZstdData else vw_finish c v cid, vw_writer v))"

lemma copy_decoded_end:
  "copy_decoded wr reads (Inr x) v = (case copy_decoded wr reads (Inr y) v of
     (Inl e, v') \<Rightarrow> (Inl e, v') | (Inr _, v') \<Rightarrow> (Inr x, v'))"
  by (induction reads arbitrary: v) (auto simp: seq_eff_def split: prod.splits sum.splits)

lemma decode_object_payload_to_writer_eq:
  "decode_object_payload_to_writer c z wr kind codec n cid source w =
    (case source_reads z codec source of (reads, t) \<Rightarrow>
     after_copy c cid (copy_decoded (vw_write c wr) reads t (vw_new c w kind n)))"
proof (cases codec)
  case Raw
  then show ?thesis
    using copy_decoded_end [of "vw_write c wr" "chunks_of CODEC_STREAM_BUFFER_BYTES source"
        "[] :: bytes" "vw_new c w kind n" "()"]
    by (auto simp: decode_object_payload_to_writer_def source_reads_def after_copy_def Let_def
        split: prod.splits sum.splits)
next
  case Zstd
  then show ?thesis
    by (auto simp: decode_object_payload_to_writer_def source_reads_def after_copy_def Let_def
        split: prod.splits sum.splits)
qed

text \<open>What a successful \<open>finish\<close> says about the pieces the hasher saw.\<close>

lemma vw_finish_ok:
  assumes "crypto_ok c" and "vw_hasher v = foldl (content_hasher_update c) (content_hasher_new c kind n) ps"
    and "vw_expected_length v = n" and "unat (vw_written v) = length (concat ps)"
  shows "vw_finish c v cid = Inr () \<longleftrightarrow>
    length (concat ps) = unat n \<and> content_id_for_object c kind (concat ps) = cid"
proof (cases "vw_written v = n")
  case True
  then have n: "n = word_of_nat (length (concat ps))" using assms(4) by (simp flip: assms(4))
  then show ?thesis
    using True content_hasher_parts [OF assms(1), of kind ps] assms(2-4)
    by (simp add: vw_finish_def Let_def)
next
  case False
  then show ?thesis using assms(3,4) by (auto simp: vw_finish_def word_unat_eq_iff)
qed

section \<open>The validating writer over any writer\<close>

context byte_writer
begin

lemma vw_write_length: "vw_write c wr bs v = (Inr n, v') \<Longrightarrow> n \<le> length bs"
  by (auto simp: vw_write_def dest: write_length split: option.splits if_splits prod.splits sum.splits)

lemma vw_accepted:
  assumes "accepted (vw_write c wr) v ps v'" and "vw_wf v"
  shows "accepted wr (vw_writer v) ps (vw_writer v') \<and> vw_wf v'
    \<and> vw_expected_length v' = vw_expected_length v
    \<and> unat (vw_written v') = unat (vw_written v) + length (concat ps)
    \<and> vw_hasher v' = foldl (content_hasher_update c) (vw_hasher v) ps"
  using assms
proof (induction v ps v' rule: accepted.induct)
  case (idle w)
  then show ?case by (simp add: accepted.idle)
next
  case (took w ps w' bs n w'')
  note IH = took.IH [OF took.prems]
  then have wf: "vw_wf w'" by blast
  from vw_write_eq [OF wf, of c wr bs] took.hyps(2) obtain x where
    room: "length bs \<le> vw_room w'" and x: "wr bs (vw_writer w') = (Inr n, x)"
    and w'': "w'' = w'\<lparr>vw_writer := x, vw_hasher := content_hasher_update c (vw_hasher w') (take n bs),
       vw_written := vw_written w' + word_of_nat n\<rparr>"
    by (auto split: prod.splits sum.splits)
  have n: "n \<le> length bs" by (rule write_length [OF x])
  note adv = vw_advance [OF wf order_trans [OF n room]]
  show ?case
    using IH n adv(1) accepted.took [of wr "vw_writer w" ps "vw_writer w'" bs n x] x
    by (simp add: w'' adv(2) foldl_append)
next
  case (failed w ps w' bs e w'')
  note IH = failed.IH [OF failed.prems]
  then have wf: "vw_wf w'" by blast
  from vw_write_eq [OF wf, of c wr bs] failed.hyps(2)
  consider "w'' = w'" | x where "wr bs (vw_writer w') = (Inl e, x)" "w'' = w'\<lparr>vw_writer := x\<rparr>"
    by (auto split: prod.splits sum.splits)
  then show ?case
  proof cases
    case 1
    then show ?thesis using IH by simp
  next
    case 2
    then show ?thesis using IH accepted.failed [of wr "vw_writer w" ps "vw_writer w'" bs e x]
      by (auto simp: vw_wf_def)
  qed
qed

lemma copy_decoded_accepted:
  assumes "copy_decoded wr reads t v = (r, v')"
  shows "\<exists>ps. accepted wr v ps v' \<and> prefix (concat ps) (concat reads)
    \<and> (\<forall>x. r = Inr x \<longrightarrow> t = Inr x \<and> concat ps = concat reads)"
  using assms
proof (induction reads arbitrary: v)
  case Nil
  then show ?case by (intro exI [of _ "[]"]) (simp add: accepted.idle)
next
  case (Cons buffer reads)
  obtain ra u where wa: "write_all wr buffer v = (ra, u)" by fastforce
  from write_all_accepted [OF this] obtain ps where
    ps: "accepted wr v ps u" "prefix (concat ps) buffer" "ra = Inr () \<longrightarrow> concat ps = buffer"
    by blast
  show ?case
  proof (cases ra)
    case (Inl e)
    then have "r = Inl e" "v' = u" using Cons.prems wa by simp_all
    then show ?thesis using ps by (intro exI [of _ ps]) simp
  next
    case (Inr y)
    then have "copy_decoded wr reads t u = (r, v')" using Cons.prems wa by simp
    from Cons.IH [OF this] obtain qs where
      qs: "accepted wr u qs v'" "prefix (concat qs) (concat reads)"
        "\<forall>x. r = Inr x \<longrightarrow> t = Inr x \<and> concat qs = concat reads" by blast
    have "concat ps = buffer" using ps(3) Inr by simp
    then show ?thesis
      using accepted_append [OF ps(1) qs(1)] qs(2,3) by (intro exI [of _ "ps @ qs"]) simp
  qed
qed

text \<open>The validating writer is a writer over any writer.\<close>

lemma vw_byte_writer: "byte_writer (vw_write c wr)"
  by unfold_locales (rule vw_write_length)

lemmas validating_copy_accepted = byte_writer.copy_decoded_accepted [OF vw_byte_writer]

lemma decode_to_writer_accepted:
  assumes "crypto_ok c"
    and "decode_object_payload_to_writer c z wr kind codec n cid source w = (r, w')"
  shows "\<exists>ps. accepted wr w ps w' \<and> length (concat ps) \<le> unat n
    \<and> (r = Inr () \<longrightarrow> length (concat ps) = unat n \<and> content_id_for_object c kind (concat ps) = cid
       \<and> (\<exists>reads. source_reads z codec source = (reads, Inr []) \<and> concat ps = concat reads))"
proof -
  obtain reads t where src: "source_reads z codec source = (reads, t)" by fastforce
  obtain rc v where copy: "copy_decoded (vw_write c wr) reads t (vw_new c w kind n) = (rc, v)"
    by fastforce
  from validating_copy_accepted [OF this] obtain ps where
    ps: "accepted (vw_write c wr) (vw_new c w kind n) ps v"
    and all: "\<forall>x. rc = Inr x \<longrightarrow> t = Inr x \<and> concat ps = concat reads" by blast
  note v = vw_accepted [OF ps vw_new_wf(1)]
  have res: "(r, w') = after_copy c cid (rc, v)"
    using assms(2) by (simp add: decode_object_payload_to_writer_eq src copy)
  then have w': "w' = vw_writer v" by (simp add: after_copy_def)
  have v': "accepted wr w ps w'" "vw_wf v" "vw_expected_length v = n"
      "unat (vw_written v) = length (concat ps)"
      "vw_hasher v = foldl (content_hasher_update c) (content_hasher_new c kind n) ps"
    using v by (auto simp: vw_new_def w')
  have bound: "length (concat ps) \<le> unat n"
    using v'(2-4) by (simp add: vw_wf_def word_le_nat_alt)
  have "length (concat ps) = unat n \<and> content_id_for_object c kind (concat ps) = cid
       \<and> t = Inr [] \<and> concat ps = concat reads" if "r = Inr ()"
  proof -
    have "rc = Inr []" and "vw_finish c v cid = Inr ()"
      using res that by (auto simp: after_copy_def split: sum.splits if_splits)
    then show ?thesis
      using all vw_finish_ok [OF assms(1) v'(5,3,4)] by simp
  qed
  then show ?thesis using v'(1) bound src by (intro exI [of _ ps]) auto
qed

end

context total_writer
begin

text \<open>Within the declared length the validating writer takes everything.\<close>

lemma vw_write_all_fits:
  assumes "vw_wf v" and "length bs \<le> vw_room v"
  shows "\<exists>v'. write_all (vw_write c wr) bs v = (Inr (), v')"
  using assms
proof (induction "length bs" arbitrary: bs v rule: less_induct)
  case less
  show ?case
  proof (cases "bs = []")
    case False
    obtain n x where x: "wr bs (vw_writer v) = (Inr n, x)" and n: "0 < n"
      using write_total [OF False] by blast
    have le: "n \<le> length bs" by (rule write_length [OF x])
    let ?v = "v\<lparr>vw_writer := x, vw_hasher := content_hasher_update c (vw_hasher v) (take n bs),
       vw_written := vw_written v + word_of_nat n\<rparr>"
    have wr: "vw_write c wr bs v = (Inr n, ?v)"
      using vw_write_eq [OF less.prems(1), of c wr bs] less.prems(2) x by auto
    note adv = vw_advance [OF less.prems(1) order_trans [OF le less.prems(2)]]
    have short: "length (drop n bs) < length bs" using n False by simp
    have "length (drop n bs) \<le> vw_room ?v"
      using less.prems(2) le by (simp add: vw_room_def adv(2))
    from less.hyps [OF short adv(1) this] show ?thesis
      using False wr n by (simp add: write_all.simps [of "vw_write c wr" bs])
  qed (simp add: write_all.simps [of "vw_write c wr" "[]"])
qed

lemma copy_decoded_fits:
  assumes "vw_wf v" and "length (concat reads) \<le> vw_room v"
  shows "\<exists>v'. copy_decoded (vw_write c wr) reads (Inr x) v = (Inr x, v')"
  using assms
proof (induction reads arbitrary: v)
  case (Cons buffer reads)
  then obtain u where u: "write_all (vw_write c wr) buffer v = (Inr (), u)"
    using vw_write_all_fits [OF Cons.prems(1), of buffer c] by auto
  from byte_writer.write_all_accepted [OF vw_byte_writer this] obtain ps where
    ps: "accepted (vw_write c wr) v ps u" "concat ps = buffer" by blast
  note a = vw_accepted [OF ps(1) Cons.prems(1)]
  have "length (concat reads) \<le> vw_room u"
    using a Cons.prems(2) ps(2) by (simp add: vw_room_def)
  then show ?case using Cons.IH [of u] a u by simp
qed simp

lemma decode_to_writer_complete:
  assumes "crypto_ok c" and "source_reads z codec source = (reads, Inr [])"
    and "length (concat reads) < u64_limit"
  shows "fst (decode_object_payload_to_writer c z wr kind codec (word_of_nat (length (concat reads)))
      (content_id_for_object c kind (concat reads)) source w) = Inr ()"
proof -
  let ?n = "word_of_nat (length (concat reads)) :: u64"
  have n: "unat ?n = length (concat reads)" using assms(3) by (simp add: unat_u64_of_nat)
  then have room: "length (concat reads) \<le> vw_room (vw_new c w kind ?n)" by simp
  from copy_decoded_fits [OF vw_new_wf(1) room, of c "[] :: bytes"] obtain v where
    copy: "copy_decoded (vw_write c wr) reads (Inr ([] :: bytes)) (vw_new c w kind ?n) = (Inr [], v)" by blast
  from validating_copy_accepted [OF this] obtain ps where
    ps: "accepted (vw_write c wr) (vw_new c w kind ?n) ps v" "concat ps = concat reads" by blast
  note v = vw_accepted [OF ps(1) vw_new_wf(1)]
  have "vw_finish c v (content_id_for_object c kind (concat reads)) = Inr ()"
    using v n ps(2) vw_finish_ok [OF assms(1), of v kind ?n ps] by (simp add: vw_new_def)
  then show ?thesis
    by (simp add: decode_object_payload_to_writer_eq assms(2) copy after_copy_def)
qed

end

section \<open>In-memory decoding and verification\<close>

lemma decode_object_payload_ok_iff:
  "decode_object_payload c z r = Inr raw \<longleftrightarrow>
    decode_object_payload_to_writer c z vec_write (obj_kind r) (obj_codec r) (obj_raw_length r)
      (obj_content_id r) (obj_payload r) [] = (Inr (), raw)"
  by (auto simp: decode_object_payload_def split: prod.splits sum.splits)

lemma decode_object_payload_sound:
  assumes "crypto_ok c" and "decode_object_payload c z r = Inr raw"
  shows "length raw = unat (obj_raw_length r)"
    and "content_id_for_object c (obj_kind r) raw = obj_content_id r"
    and "\<exists>reads. source_reads z (obj_codec r) (obj_payload r) = (reads, Inr []) \<and> concat reads = raw"
  using vec.decode_to_writer_accepted [OF assms(1) assms(2) [unfolded decode_object_payload_ok_iff]]
  by (auto dest: vec_accepted)

lemma decode_object_payload_complete:
  assumes "crypto_ok c" and "source_reads z (obj_codec r) (obj_payload r) = (reads, Inr [])"
    and "length (concat reads) < u64_limit" and "obj_raw_length r = word_of_nat (length (concat reads))"
    and "obj_content_id r = content_id_for_object c (obj_kind r) (concat reads)"
  shows "decode_object_payload c z r = Inr (concat reads)"
proof -
  obtain raw where "decode_object_payload c z r = Inr raw"
    using vec.decode_to_writer_complete [OF assms(1-3), of "obj_kind r" "[]", folded assms(4,5)]
    unfolding decode_object_payload_ok_iff by (metis prod.collapse)
  moreover from decode_object_payload_sound(3) [OF assms(1) this] have "raw = concat reads"
    using assms(2) by auto
  ultimately show ?thesis by simp
qed

lemma source_reads_encode:
  assumes "zstd_ok z" and "encode_object_payload z codec raw = Inr payload"
  shows "\<exists>reads. source_reads z codec payload = (reads, Inr []) \<and> concat reads = raw"
  using assms
  by (cases codec)
     (auto simp: encode_object_payload_def source_reads_def zstd_ok_def map_err_Inr_iff
       CODEC_STREAM_BUFFER_BYTES_def)

text \<open>Discarding the decoded bytes takes the same decisions as keeping them.\<close>

definition vw_erase :: "('w, 'h) validating_writer \<Rightarrow> (unit, 'h) validating_writer" where
  "vw_erase v = \<lparr>vw_writer = (), vw_expected_length = vw_expected_length v, vw_written = vw_written v,
     vw_hasher = vw_hasher v\<rparr>"

lemma vw_write_erase:
  "vw_write c sink_write bs (vw_erase v) = map_prod (\<lambda>r. r) vw_erase (vw_write c vec_write bs v)"
  by (auto simp: vw_write_def vw_erase_def sink_write_def vec_write_def split: option.splits)

lemma write_all_erase:
  "write_all (vw_write c sink_write) bs (vw_erase v)
    = map_prod (\<lambda>r. r) vw_erase (write_all (vw_write c vec_write) bs v)"
proof (induction "length bs" arbitrary: bs v rule: less_induct)
  case less
  then show ?case
    by (cases "vw_write c vec_write bs v")
       (auto simp: write_all.simps [of _ bs] vw_write_erase split: sum.splits)
qed

lemma copy_decoded_erase:
  "copy_decoded (vw_write c sink_write) reads t (vw_erase v)
    = map_prod (\<lambda>r. r) vw_erase (copy_decoded (vw_write c vec_write) reads t v)"
proof (induction reads arbitrary: v)
  case (Cons buffer reads)
  then show ?case
    by (cases "write_all (vw_write c vec_write) buffer v")
       (auto simp: seq_eff_def write_all_erase split: sum.splits)
qed simp

lemma vw_finish_erase: "vw_finish c (vw_erase v) cid = vw_finish c v cid"
  by (simp add: vw_finish_def vw_erase_def)

lemma after_copy_erase: "fst (after_copy c cid (map_prod (\<lambda>r. r) vw_erase x)) = fst (after_copy c cid x)"
  by (cases x) (simp add: after_copy_def vw_finish_erase split: sum.splits)

lemma verify_object_record_eq:
  "verify_object_record c z r = and_then (decode_object_payload c z r) (\<lambda>_. Inr ())"
proof -
  obtain reads t where src: "source_reads z (obj_codec r) (obj_payload r) = (reads, t)" by fastforce
  have new: "vw_new c () k n = vw_erase (vw_new c ([] :: bytes) k n)" for k n
    by (simp add: vw_new_def vw_erase_def)
  have "verify_object_record c z r =
    fst (decode_object_payload_to_writer c z vec_write (obj_kind r) (obj_codec r) (obj_raw_length r)
      (obj_content_id r) (obj_payload r) [])"
    by (simp add: verify_object_record_def decode_object_payload_to_writer_eq src new
        copy_decoded_erase after_copy_erase)
  then show ?thesis
    by (auto simp: decode_object_payload_def split: prod.splits sum.splits)
qed

end
