(* ===== verification/Samples.thy ===== *)
theory Samples
  imports Payload
begin

text \<open>
  Concrete parameters and values: digests built from CRC-32C, a codec that frames its input, a
  blob and its record.  The hypotheses of the properties hold on them.
\<close>

definition sample_digest :: "nat \<Rightarrow> u32 digest" where
  "sample_digest n = \<lparr>dg_new = crc32c_new, dg_update = crc32c_update,
     dg_finalize = (\<lambda>h. u32_be (crc32c_finalize h) @ replicate (n - 4) 0)\<rparr>"

definition sample_crypto :: "u32 crypto" where
  "sample_crypto = \<lparr>sha1 = sample_digest 20, sha256 = sample_digest 32\<rparr>"

lemma sample_digest_streaming: "4 \<le> n \<Longrightarrow> streaming_digest (sample_digest n) n"
  by unfold_locales
    (simp_all add: digest_parts_def digest_of_def sample_digest_def crc32c_update_parts)

lemma sample_crypto_ok [simp]: "crypto_ok sample_crypto"
  by (simp add: crypto_ok_def sample_crypto_def sample_digest_streaming)

definition sample_zstd :: zstd where
  "sample_zstd = \<lparr>zstd_encode = (\<lambda>raw. Inr (0x28 # raw)),
     zstd_decode = (\<lambda>frame. case frame of
         [] \<Rightarrow> ([], Inl (IoError UnexpectedEof ''incomplete frame''))
       | b # raw \<Rightarrow> if b = 0x28 then ([raw], Inr []) else ([], Inl (IoError InvalidData ''unknown frame'')))\<rparr>"

lemma sample_zstd_ok [simp]: "zstd_ok sample_zstd"
  by (simp add: zstd_ok_def sample_zstd_def)

definition sample_oid :: git_oid where
  "sample_oid = \<lparr>oid_algorithm = Sha1, oid_len = 20, oid_bytes = replicate 20 7 @ replicate 12 0\<rparr>"

lemma sample_oid_wf [simp]: "git_oid_wf sample_oid"
  by (simp add: git_oid_wf_def sample_oid_def)

definition sample_record :: object_record where
  "sample_record = \<lparr>obj_kind = Blob, obj_codec = Zstd, obj_flags = 0, obj_raw_length = 3,
     obj_content_id = content_id_for_object sample_crypto Blob [1, 2, 3],
     obj_primary_oid = sample_oid, obj_payload = [0x28, 1, 2, 3]\<rparr>"

lemma sample_record_wf [simp]: "object_record_wf sample_record"
  by (simp add: object_record_wf_def sample_record_def content_id_for_object_wf)

lemma sample_record_payload [simp]: "obj_payload sample_record = [0x28, 1, 2, 3]"
  by (simp add: sample_record_def)

lemma encode_sample_record: "encode_record sample_record = Inr (record_bytes sample_record)"
  by (simp add: encode_record_eq)

end
