(* ===== verification/Format_Props.thy ===== *)
theory Format_Props
  imports Corruption Samples
begin

text \<open>
  The properties of object identities, of the chunk and record formats and of the payload codec,
  each with an instance on concrete values.
\<close>

section \<open>Records\<close>

text \<open>
  C2. Encoding a record and decoding the bytes gives the record back and consumes exactly its
  encoding, whatever follows it in the buffer; the encoding is a multiple of eight bytes, and it
  exists for every payload whose padded length fits in a \<open>usize\<close>.
\<close>

theorem record_roundtrip:
  assumes "object_record_wf r" and "length (obj_payload r) + 155 < u64_limit"
  shows "\<exists>bs. encode_record r = Inr bs \<and> 8 dvd length bs \<and>
    decode_record (bs @ rest) = Inr (r, length bs)"
  using assms decode_record_bytes [OF assms, of rest]
  by (simp add: encode_record_eq padded_length_def)

theorem record_roundtrip_witness:
  "\<exists>bs. encode_record sample_record = Inr bs \<and> 8 dvd length bs \<and>
    decode_record (bs @ [1, 2, 3]) = Inr (sample_record, length bs)"
  by (rule record_roundtrip) simp_all

text \<open>
  C7. The record decoder accepts nothing but encodings: the bytes it consumes are those
  \<open>encode_record\<close> produces for the record it returns, so every record has one representation.
\<close>

theorem decode_record_canonical:
  assumes "decode_record bs = Inr (r, consumed)"
  shows "object_record_wf r \<and> consumed \<le> length bs \<and> encode_record r = Inr (take consumed bs)"
  using decode_record_sound [OF assms] by (simp add: encode_record_eq)

theorem decode_record_canonical_witness:
  "object_record_wf sample_record \<and> length (record_bytes sample_record) \<le> length (record_bytes sample_record @ [9])
    \<and> encode_record sample_record = Inr (take (length (record_bytes sample_record)) (record_bytes sample_record @ [9]))"
  by (rule decode_record_canonical) (simp add: decode_record_bytes)

text \<open>
  C8. Whatever byte of an encoded record is altered, in its header, payload, footer or padding,
  the decoder rejects the buffer.
\<close>

theorem record_corruption_detected:
  assumes "object_record_wf r" and "encode_record r = Inr bs" and "i < length bs" and "b \<noteq> bs ! i"
  shows "\<exists>e. decode_record (bs[i := b] @ rest) = Inl e"
proof -
  have bs: "bs = record_bytes r" and n: "length (obj_payload r) + 155 < u64_limit"
    using assms(1,2) by (auto simp: encode_record_eq split: if_splits)
  show ?thesis
    using one_byte_detected [OF assms(1) n, of i b rest] assms(3,4) bs
    by (cases "decode_record (bs[i := b] @ rest)") auto
qed

theorem record_corruption_detected_witness:
  "\<exists>e. decode_record ((record_bytes sample_record)[129 := 77] @ []) = Inl e"
  by (rule record_corruption_detected [OF sample_record_wf encode_sample_record])
     (simp_all add: padded_length_def record_bytes_def nth_append)


section \<open>Chunk headers and footers\<close>

text \<open>
  C34. The chunk header decoder accepts exactly the encodings: it returns a header if and only if
  the input starts with that header's 64 bytes.
\<close>

theorem chunk_header_decode_iff:
  "chunk_header_decode input = Inr h \<longleftrightarrow> (\<exists>rest. input = chunk_header_encode h @ rest)"
  using chunk_header_decode_encode chunk_header_decode_sound(1) [of input h]
  by (metis append_take_drop_id)

text \<open>
  C35. The sealed chunk footer decoder accepts exactly the encodings of footers.
\<close>

theorem sealed_footer_decode_iff:
  "sealed_footer_decode input = Inr f \<longleftrightarrow> (\<exists>rest. input = sealed_footer_encode f @ rest)"
  using sealed_footer_decode_encode sealed_footer_decode_sound(1) [of input f]
  by (metis append_take_drop_id)

section \<open>Payloads\<close>

text \<open>
  C9. A payload encoded with either codec decodes to the raw bytes it came from, in a record that
  declares their length and content id, provided the codec library decodes the frames it wrote.
\<close>

theorem payload_roundtrip:
  assumes "crypto_ok c" and "zstd_ok z" and "length raw < u64_limit"
    and "encode_object_payload z (obj_codec r) raw = Inr (obj_payload r)"
    and "obj_raw_length r = word_of_nat (length raw)"
    and "obj_content_id r = content_id_for_object c (obj_kind r) raw"
  shows "decode_object_payload c z r = Inr raw \<and> verify_object_record c z r = Inr ()"
proof -
  obtain reads where src: "source_reads z (obj_codec r) (obj_payload r) = (reads, Inr [])"
    and raw: "raw = concat reads"
    using source_reads_encode [OF assms(2,4)] by blast
  have "decode_object_payload c z r = Inr raw"
    using decode_object_payload_complete [OF assms(1) src] assms(3,5,6) by (simp add: raw)
  then show ?thesis by (simp add: verify_object_record_eq)
qed

theorem payload_roundtrip_witness:
  "decode_object_payload sample_crypto sample_zstd sample_record = Inr [1, 2, 3]
    \<and> verify_object_record sample_crypto sample_zstd sample_record = Inr ()"
  by (rule payload_roundtrip [OF sample_crypto_ok sample_zstd_ok])
     (simp_all add: sample_record_def encode_object_payload_def sample_zstd_def)

text \<open>
  C28. Whatever bytes a record stores and however its writer behaves, decoding passes at most the
  declared raw length on to the writer, and it reports success only if what the writer accepted
  has exactly that length and the expected content id.
\<close>

theorem decode_to_writer_bounded:
  assumes "crypto_ok c" and "byte_writer wr"
    and "decode_object_payload_to_writer c z wr kind codec raw_length cid source w = (r, w')"
  shows "\<exists>ps. accepted wr w ps w' \<and> length (concat ps) \<le> unat raw_length
    \<and> (r = Inr () \<longrightarrow> length (concat ps) = unat raw_length \<and> content_id_for_object c kind (concat ps) = cid)"
  using byte_writer.decode_to_writer_accepted [OF assms(2,1,3)] by blast

theorem decode_to_writer_bounded_witness:
  "\<exists>ps. accepted vec_write [] ps [1, 2, 3] \<and> length (concat ps) \<le> unat (3 :: u64)
    \<and> (Inr () = (Inr () :: codec_error + unit) \<longrightarrow> length (concat ps) = unat (3 :: u64) \<and>
         content_id_for_object sample_crypto Blob (concat ps) = content_id_for_object sample_crypto Blob [1, 2, 3])"
  by (rule decode_to_writer_bounded [OF sample_crypto_ok vec.byte_writer_axioms,
        of sample_zstd Blob Raw 3 "content_id_for_object sample_crypto Blob [1, 2, 3]" "[1, 2, 3]"])
     (simp add: decode_object_payload_to_writer_def vw_new_def vw_write_def vec_write_def vw_finish_def
       chunks_of.simps write_all.simps try_u64_def checked_add_def CODEC_STREAM_BUFFER_BYTES_def
       seq_eff_def content_id_for_object_def)

text \<open>
  C36. Full verification, which discards the decoded bytes, accepts a record exactly when decoding it
  in memory does, and fails with the same error otherwise.
\<close>

theorem verify_agrees_with_decode:
  "verify_object_record c z r = and_then (decode_object_payload c z r) (\<lambda>_. Inr ())"
  by (rule verify_object_record_eq)

section \<open>Identities\<close>

text \<open>
  C37. An object written to \<open>GitOidHasher\<close> in whatever pieces the calls accept, or fed to
  \<open>ContentHasher\<close> in any pieces, gets the identities \<open>GitOid::for_object\<close> and
  \<open>ContentId::for_object\<close> compute from the whole object; the object ID is well formed.
\<close>

theorem incremental_hashing_agrees:
  assumes "crypto_ok c" and "length (concat parts) < u64_limit"
    and "accepted (git_oid_hasher_write c) (git_oid_hasher_new c alg kind (word_of_nat (length (concat parts)))) parts h"
  shows "git_oid_hasher_finish c h = git_oid_for_object c alg kind (concat parts)
  \<and> (\<exists>oid. git_oid_for_object c alg kind (concat parts) = Inr oid \<and> git_oid_wf oid)
  \<and> content_hasher_finalize c (foldl (content_hasher_update c)
      (content_hasher_new c kind (word_of_nat (length (concat parts)))) parts)
    = content_id_for_object c kind (concat parts)"
proof -
  obtain oid where oid: "git_oid_for_object c alg kind (concat parts) = Inr oid"
    by (rule git_oid_for_object_ok [OF assms(1)])
  then have "git_oid_wf oid" by (simp add: git_oid_for_object_def Let_def git_oid_new_wf)
  then show ?thesis
    using git_oid_hasher_parts [OF assms] content_hasher_parts [OF assms(1), of kind parts] oid
    by blast
qed

theorem incremental_hashing_agrees_witness:
  "git_oid_hasher_finish sample_crypto
     (snd (git_oid_hasher_write sample_crypto [1, 2] (git_oid_hasher_new sample_crypto Sha256 Blob 2)))
    = git_oid_for_object sample_crypto Sha256 Blob (concat [[1, 2]])
  \<and> (\<exists>oid. git_oid_for_object sample_crypto Sha256 Blob (concat [[1, 2]]) = Inr oid \<and> git_oid_wf oid)
  \<and> content_hasher_finalize sample_crypto (foldl (content_hasher_update sample_crypto)
      (content_hasher_new sample_crypto Blob (word_of_nat (length (concat [[1 :: u8, 2]])))) [[1, 2]])
    = content_id_for_object sample_crypto Blob (concat [[1, 2]])"
proof (rule incremental_hashing_agrees [OF sample_crypto_ok])
  let ?h = "git_oid_hasher_new sample_crypto Sha256 Blob 2"
  have "accepted (git_oid_hasher_write sample_crypto) ?h ([] @ [take 2 [1, 2]])
      (snd (git_oid_hasher_write sample_crypto [1, 2] ?h))"
    by (rule accepted.took [OF accepted.idle]) (simp add: git_oid_hasher_write_def)
  then show "accepted (git_oid_hasher_write sample_crypto)
      (git_oid_hasher_new sample_crypto Sha256 Blob (word_of_nat (length (concat [[1 :: u8, 2]])))) [[1, 2]]
      (snd (git_oid_hasher_write sample_crypto [1, 2] ?h))" by simp
qed simp

end
