(* ===== verification/CatalogKeys.thy ===== *)
theory CatalogKeys
  imports Format_Laws
begin

text \<open>
  Catalog-v1 keys and values (\<open>crates/reflink-forest-index/src/lib.rs\<close>): identifiers, entries and
  the versioned byte encodings of every column family.  The locale \<open>bytes_codec\<close> is the contract
  the catalog relies on: a decoder accepts exactly the encodings of well-formed values.
\<close>

section \<open>Identifiers and entries\<close>

definition CATALOG_VERSION :: u8 where "CATALOG_VERSION = 1"
definition REPO_ID_LEN :: nat where "REPO_ID_LEN = 16"
definition SNAPSHOT_ID_LEN :: nat where "SNAPSHOT_ID_LEN = 16"
definition WORKSPACE_ID_LEN :: nat where "WORKSPACE_ID_LEN = 16"
definition GC_PIN_ID_LEN :: nat where "GC_PIN_ID_LEN = 16"
definition CURRENT_GENERATION_META_KEY :: bytes where
  "CURRENT_GENERATION_META_KEY = ascii ''current_generation''"
definition OBJECT_LOCATION_REBUILD_META_KEY :: bytes where
  "OBJECT_LOCATION_REBUILD_META_KEY = ascii ''object_location_rebuild_v1''"
definition OBJECT_LOCATION_REBUILD_IN_PROGRESS_MARKER :: u8 where
  "OBJECT_LOCATION_REBUILD_IN_PROGRESS_MARKER = 1"
definition EXPLICIT_GC_PIN_KEY_TAG :: u8 where "EXPLICIT_GC_PIN_KEY_TAG = 1"

lemmas catalog_consts = CATALOG_VERSION_def REPO_ID_LEN_def SNAPSHOT_ID_LEN_def WORKSPACE_ID_LEN_def
  GC_PIN_ID_LEN_def EXPLICIT_GC_PIN_KEY_TAG_def OBJECT_LOCATION_REBUILD_IN_PROGRESS_MARKER_def

datatype repo_id = RepoId (repo_bytes: bytes)
datatype snapshot_id = SnapshotId (snapshot_bytes: bytes)
datatype workspace_id = WorkspaceId (workspace_bytes: bytes)
datatype gc_pin_id = GcPinId (gc_pin_bytes: bytes)

text \<open>The arrays behind the identifiers have a fixed length in Rust.\<close>

definition repo_id_wf :: "repo_id \<Rightarrow> bool" where
  "repo_id_wf i \<longleftrightarrow> length (repo_bytes i) = REPO_ID_LEN"
definition snapshot_id_wf :: "snapshot_id \<Rightarrow> bool" where
  "snapshot_id_wf i \<longleftrightarrow> length (snapshot_bytes i) = SNAPSHOT_ID_LEN"
definition workspace_id_wf :: "workspace_id \<Rightarrow> bool" where
  "workspace_id_wf i \<longleftrightarrow> length (workspace_bytes i) = WORKSPACE_ID_LEN"
definition gc_pin_id_wf :: "gc_pin_id \<Rightarrow> bool" where
  "gc_pin_id_wf i \<longleftrightarrow> length (gc_pin_bytes i) = GC_PIN_ID_LEN"

lemmas id_wf_defs = repo_id_wf_def snapshot_id_wf_def workspace_id_wf_def gc_pin_id_wf_def
  content_id_wf_def

datatype snapshot_visibility = Incomplete | Ready

fun visibility_tag :: "snapshot_visibility \<Rightarrow> u8" where
  "visibility_tag Incomplete = 1"
| "visibility_tag Ready = 2"

definition visibility_from_tag :: "u8 \<Rightarrow> snapshot_visibility option" where
  "visibility_from_tag t = (if t = 1 then Some Incomplete else if t = 2 then Some Ready else None)"

record repository_snapshot =
  rs_repository :: repo_id
  rs_snapshot :: snapshot_id
  rs_visibility :: snapshot_visibility

record gc_pin =
  pin_id :: gc_pin_id
  pin_generation :: u32

datatype gc_root =
    RootSnapshot repo_id snapshot_id
  | RootWorkspacePin workspace_id u32
  | RootExplicitPin gc_pin

record object_location =
  loc_generation :: u32
  loc_chunk_id :: u64
  loc_offset :: u64
  loc_record_length :: u64
  loc_stored_length :: u64
  loc_raw_length :: u64
  loc_kind :: object_kind
  loc_codec :: codec
  loc_flags :: u16
  loc_payload_crc32c :: u32

datatype chunk_state = Open | Sealed | Retired

fun chunk_state_tag :: "chunk_state \<Rightarrow> u8" where
  "chunk_state_tag Open = 1"
| "chunk_state_tag Sealed = 2"
| "chunk_state_tag Retired = 3"

definition chunk_state_from_tag :: "u8 \<Rightarrow> chunk_state option" where
  "chunk_state_from_tag t =
     (if t = 1 then Some Open else if t = 2 then Some Sealed else if t = 3 then Some Retired else None)"

record chunk_metadata =
  cm_state :: chunk_state
  cm_size :: u64
  cm_record_count :: u64

record object_location_entry =
  ole_content_id :: content_id
  ole_location :: object_location

record oid_alias_entry =
  oae_repository :: repo_id
  oae_oid :: git_oid
  oae_content_id :: content_id

record chunk_entry =
  ce_generation :: u32
  ce_chunk_id :: u64
  ce_metadata :: chunk_metadata

datatype rebuild_state = Idle | InProgress

datatype catalog_error =
    InvalidEncoding
  | CatalogUnsupportedVersion u8
  | UnsupportedOperation string
  | ObjectLocationRebuildInProgress
  | ObjectLocationRebuildNotInProgress
  | DuplicateRebuiltObjectLocation content_id
  | AliasConflict repo_id git_oid content_id content_id
  | Backend string

section \<open>Encodings\<close>

definition catalog_check_version :: "u8 \<Rightarrow> catalog_error + unit" where
  "catalog_check_version v = (if v = CATALOG_VERSION then Inr () else Inl (CatalogUnsupportedVersion v))"

definition catalog_codec :: "u8 \<Rightarrow> catalog_error + codec" where
  "catalog_codec t = (if t = 0 then Inr Raw else if t = 1 then Inr Zstd else Inl InvalidEncoding)"

subsection \<open>Object locations\<close>

definition encode_object_location_key :: "content_id \<Rightarrow> bytes" where
  "encode_object_location_key cid =
     (let result = replicate 33 0;
          result = blit result 0 [CATALOG_VERSION]
      in blit result 1 (content_id_bytes cid))"

definition decode_object_location_key :: "bytes \<Rightarrow> catalog_error + content_id" where
  "decode_object_location_key input =
     (if length input \<noteq> 33 then Inl InvalidEncoding else
      and_then (catalog_check_version (input ! 0)) (\<lambda>_. Inr (ContentId (drop 1 input))))"

definition encode_object_location_value :: "object_location \<Rightarrow> bytes" where
  "encode_object_location_value v =
     (let out = replicate 53 0;
          out = blit out 0 [CATALOG_VERSION];
          out = put_u32 out 1 (loc_generation v);
          out = put_u64 out 5 (loc_chunk_id v);
          out = put_u64 out 13 (loc_offset v);
          out = put_u64 out 21 (loc_record_length v);
          out = put_u64 out 29 (loc_stored_length v);
          out = put_u64 out 37 (loc_raw_length v);
          out = blit out 45 [kind_tag (loc_kind v)];
          out = blit out 46 [codec_tag (loc_codec v)];
          out = put_u16 out 47 (loc_flags v)
      in put_u32 out 49 (loc_payload_crc32c v))"

definition decode_object_location_value :: "bytes \<Rightarrow> catalog_error + object_location" where
  "decode_object_location_value input =
     (if length input \<noteq> 53 then Inl InvalidEncoding else
      and_then (catalog_check_version (input ! 0)) (\<lambda>_.
      and_then (ok_or (kind_from_tag (input ! 45)) InvalidEncoding) (\<lambda>kind.
      and_then (catalog_codec (input ! 46)) (\<lambda>codec.
      Inr \<lparr>loc_generation = read_u32 input 1, loc_chunk_id = read_u64 input 5,
           loc_offset = read_u64 input 13, loc_record_length = read_u64 input 21,
           loc_stored_length = read_u64 input 29, loc_raw_length = read_u64 input 37,
           loc_kind = kind, loc_codec = codec, loc_flags = read_u16 input 47,
           loc_payload_crc32c = read_u32 input 49\<rparr>))))"

subsection \<open>Aliases\<close>

definition encode_oid_alias_key :: "repo_id \<Rightarrow> git_oid \<Rightarrow> bytes" where
  "encode_oid_alias_key repo oid =
     [CATALOG_VERSION] @ repo_bytes repo @ [algorithm_tag (oid_algorithm oid)] @ [oid_len oid] @ oid_as_bytes oid"

definition decode_oid_alias_key :: "bytes \<Rightarrow> catalog_error + repo_id \<times> git_oid" where
  "decode_oid_alias_key input =
     (if length input < 1 + REPO_ID_LEN + 2 then Inl InvalidEncoding else
      and_then (catalog_check_version (input ! 0)) (\<lambda>_.
      let repo = RepoId (slice 1 16 input) in
      and_then (ok_or (algorithm_from_tag (input ! 17)) InvalidEncoding) (\<lambda>algorithm.
      let len = unat (input ! 18) in
      if len \<noteq> unat (oid_len_of algorithm) \<or> length input \<noteq> 19 + len then Inl InvalidEncoding else
      and_then (map_err (\<lambda>_. InvalidEncoding) (git_oid_new algorithm (drop 19 input))) (\<lambda>oid.
      Inr (repo, oid)))))"

definition encode_content_id_value :: "content_id \<Rightarrow> bytes" where
  "encode_content_id_value cid = encode_object_location_key cid"

definition decode_content_id_value :: "bytes \<Rightarrow> catalog_error + content_id" where
  "decode_content_id_value input = decode_object_location_key input"

subsection \<open>Repositories and snapshots\<close>

definition encode_repository_key :: "repo_id \<Rightarrow> bytes" where
  "encode_repository_key i = blit (blit (replicate 17 0) 0 [CATALOG_VERSION]) 1 (repo_bytes i)"

definition decode_repository_key :: "bytes \<Rightarrow> catalog_error + repo_id" where
  "decode_repository_key input =
     (if length input \<noteq> 17 then Inl InvalidEncoding else
      and_then (catalog_check_version (input ! 0)) (\<lambda>_. Inr (RepoId (drop 1 input))))"

definition encode_repository_snapshot_key :: "repo_id \<Rightarrow> snapshot_id \<Rightarrow> bytes" where
  "encode_repository_snapshot_key repository snapshot =
     (let out = blit (replicate 33 0) 0 [CATALOG_VERSION];
          out = blit out 1 (repo_bytes repository)
      in blit out 17 (snapshot_bytes snapshot))"

definition decode_repository_snapshot_key :: "bytes \<Rightarrow> catalog_error + repo_id \<times> snapshot_id" where
  "decode_repository_snapshot_key input =
     (if length input \<noteq> 33 then Inl InvalidEncoding else
      and_then (catalog_check_version (input ! 0)) (\<lambda>_.
      Inr (RepoId (slice 1 16 input), SnapshotId (drop 17 input))))"

definition encode_snapshot_visibility_value :: "snapshot_visibility \<Rightarrow> bytes" where
  "encode_snapshot_visibility_value v = [CATALOG_VERSION, visibility_tag v]"

definition decode_snapshot_visibility_value :: "bytes \<Rightarrow> catalog_error + snapshot_visibility" where
  "decode_snapshot_visibility_value input =
     (if length input \<noteq> 2 then Inl InvalidEncoding else
      and_then (catalog_check_version (input ! 0)) (\<lambda>_.
      ok_or (visibility_from_tag (input ! 1)) InvalidEncoding))"

subsection \<open>Chunks\<close>

definition encode_chunk_key :: "u32 \<Rightarrow> u64 \<Rightarrow> bytes" where
  "encode_chunk_key generation chunk_id =
     (let out = blit (replicate 13 0) 0 [CATALOG_VERSION];
          out = put_u32 out 1 generation
      in put_u64 out 5 chunk_id)"

definition decode_chunk_key :: "bytes \<Rightarrow> catalog_error + u32 \<times> u64" where
  "decode_chunk_key input =
     (if length input \<noteq> 13 then Inl InvalidEncoding else
      and_then (catalog_check_version (input ! 0)) (\<lambda>_. Inr (read_u32 input 1, read_u64 input 5)))"

definition encode_chunk_value :: "chunk_metadata \<Rightarrow> bytes" where
  "encode_chunk_value v =
     (let out = blit (replicate 18 0) 0 [CATALOG_VERSION];
          out = blit out 1 [chunk_state_tag (cm_state v)];
          out = put_u64 out 2 (cm_size v)
      in put_u64 out 10 (cm_record_count v))"

definition decode_chunk_value :: "bytes \<Rightarrow> catalog_error + chunk_metadata" where
  "decode_chunk_value input =
     (if length input \<noteq> 18 then Inl InvalidEncoding else
      and_then (catalog_check_version (input ! 0)) (\<lambda>_.
      and_then (ok_or (chunk_state_from_tag (input ! 1)) InvalidEncoding) (\<lambda>state.
      Inr \<lparr>cm_state = state, cm_size = read_u64 input 2, cm_record_count = read_u64 input 10\<rparr>)))"

subsection \<open>Opaque keys and values, metadata, jobs\<close>

definition encode_opaque_key :: "bytes \<Rightarrow> bytes" where
  "encode_opaque_key key = [CATALOG_VERSION] @ key"

definition decode_opaque_key :: "bytes \<Rightarrow> catalog_error + bytes" where
  "decode_opaque_key input =
     (case input of
        [] \<Rightarrow> Inl InvalidEncoding
      | version # rest \<Rightarrow> and_then (catalog_check_version version) (\<lambda>_. Inr rest))"

definition encode_opaque_value :: "bytes \<Rightarrow> bytes" where "encode_opaque_value v = encode_opaque_key v"
definition decode_opaque_value :: "bytes \<Rightarrow> catalog_error + bytes" where
  "decode_opaque_value input = decode_opaque_key input"
definition encode_meta_key :: "bytes \<Rightarrow> bytes" where "encode_meta_key key = encode_opaque_key key"
definition decode_meta_key :: "bytes \<Rightarrow> catalog_error + bytes" where
  "decode_meta_key input = decode_opaque_key input"
definition encode_job_key :: "bytes \<Rightarrow> bytes" where "encode_job_key job = encode_opaque_key job"
definition decode_job_key :: "bytes \<Rightarrow> catalog_error + bytes" where
  "decode_job_key input = decode_opaque_key input"

definition encode_current_generation_value :: "u32 \<Rightarrow> bytes" where
  "encode_current_generation_value generation =
     put_u32 (blit (replicate 5 0) 0 [CATALOG_VERSION]) 1 generation"

definition decode_current_generation_value :: "bytes \<Rightarrow> catalog_error + u32" where
  "decode_current_generation_value input =
     (if length input \<noteq> 5 then Inl InvalidEncoding else
      and_then (catalog_check_version (input ! 0)) (\<lambda>_. Inr (read_u32 input 1)))"

definition decode_object_location_rebuild_marker :: "bytes \<Rightarrow> catalog_error + rebuild_state" where
  "decode_object_location_rebuild_marker input =
     and_then (decode_opaque_value input) (\<lambda>v.
     if v = [OBJECT_LOCATION_REBUILD_IN_PROGRESS_MARKER] then Inr InProgress else Inl InvalidEncoding)"

subsection \<open>Workspaces and pins\<close>

definition encode_workspace_key :: "workspace_id \<Rightarrow> bytes" where
  "encode_workspace_key i = blit (blit (replicate 17 0) 0 [CATALOG_VERSION]) 1 (workspace_bytes i)"

definition decode_workspace_key :: "bytes \<Rightarrow> catalog_error + workspace_id" where
  "decode_workspace_key input =
     (if length input \<noteq> 17 then Inl InvalidEncoding else
      and_then (catalog_check_version (input ! 0)) (\<lambda>_. Inr (WorkspaceId (drop 1 input))))"

definition encode_workspace_name_key :: "bytes \<Rightarrow> bytes" where
  "encode_workspace_name_key name = encode_opaque_key name"
definition decode_workspace_name_key :: "bytes \<Rightarrow> catalog_error + bytes" where
  "decode_workspace_name_key input = decode_opaque_key input"
definition encode_workspace_id_value :: "workspace_id \<Rightarrow> bytes" where
  "encode_workspace_id_value i = encode_workspace_key i"
definition decode_workspace_id_value :: "bytes \<Rightarrow> catalog_error + workspace_id" where
  "decode_workspace_id_value input = decode_workspace_key input"
definition encode_workspace_pin_key :: "workspace_id \<Rightarrow> bytes" where
  "encode_workspace_pin_key i = encode_workspace_key i"
definition decode_workspace_pin_key :: "bytes \<Rightarrow> catalog_error + workspace_id" where
  "decode_workspace_pin_key input = decode_workspace_key input"
definition encode_workspace_pin_value :: "u32 \<Rightarrow> bytes" where
  "encode_workspace_pin_value generation = encode_current_generation_value generation"
definition decode_workspace_pin_value :: "bytes \<Rightarrow> catalog_error + u32" where
  "decode_workspace_pin_value input = decode_current_generation_value input"

definition encode_gc_pin_key :: "gc_pin_id \<Rightarrow> bytes" where
  "encode_gc_pin_key i =
     (let out = blit (replicate 18 0) 0 [CATALOG_VERSION];
          out = blit out 1 [EXPLICIT_GC_PIN_KEY_TAG]
      in blit out 2 (gc_pin_bytes i))"

definition decode_gc_pin_key :: "bytes \<Rightarrow> catalog_error + gc_pin_id" where
  "decode_gc_pin_key input =
     (if length input \<noteq> 18 then Inl InvalidEncoding else
      and_then (catalog_check_version (input ! 0)) (\<lambda>_.
      if input ! 1 \<noteq> EXPLICIT_GC_PIN_KEY_TAG then Inl InvalidEncoding else
      Inr (GcPinId (drop 2 input))))"

definition encode_gc_pin_value :: "u32 \<Rightarrow> bytes" where
  "encode_gc_pin_value generation = encode_workspace_pin_value generation"
definition decode_gc_pin_value :: "bytes \<Rightarrow> catalog_error + u32" where
  "decode_gc_pin_value input = decode_workspace_pin_value input"

end
