(* ===== verification/CatalogCodecs.thy ===== *)
theory CatalogCodecs
  imports CatalogKeys
begin

text \<open>
  The laws of the catalog-v1 encodings.  \<open>bytes_codec wf enc dec\<close> says that \<open>dec\<close> accepts exactly
  the encodings of well-formed values; each key and value encoding of the catalog is an instance.
  All encodings start with the catalog version.
\<close>

section \<open>The contract of an encoding\<close>

locale bytes_codec =
  fixes wf :: "'a \<Rightarrow> bool" and enc :: "'a \<Rightarrow> bytes" and dec :: "bytes \<Rightarrow> catalog_error + 'a"
  assumes dec_enc: "wf x \<Longrightarrow> dec (enc x) = Inr x"
    and dec_sound: "dec bs = Inr x \<Longrightarrow> wf x \<and> enc x = bs"
begin

lemma dec_iff: "dec bs = Inr x \<longleftrightarrow> wf x \<and> bs = enc x"
proof
  assume "dec bs = Inr x"
  from dec_sound [OF this] show "wf x \<and> bs = enc x" by simp
qed (simp add: dec_enc)

lemma enc_eq_iff: "wf x \<Longrightarrow> wf y \<Longrightarrow> enc x = enc y \<longleftrightarrow> x = y"
  by (metis dec_enc sum.inject(2))

lemma enc_inj_on: "(\<And>x. x \<in> A \<Longrightarrow> wf x) \<Longrightarrow> inj_on enc A"
  by (rule inj_onI) (simp add: enc_eq_iff)

end

locale versioned_codec = bytes_codec +
  assumes enc_version: "wf x \<Longrightarrow> \<exists>rest. enc x = CATALOG_VERSION # rest"

section \<open>Normal forms\<close>

lemma catalog_check_version_ok [simp]: "catalog_check_version v = Inr u \<longleftrightarrow> v = CATALOG_VERSION"
  by (auto simp: catalog_check_version_def)

lemma catalog_check_version_current [simp]: "catalog_check_version CATALOG_VERSION = Inr ()"
  by simp

lemma catalog_codec_ok [ok_iff]: "catalog_codec t = Inr c \<longleftrightarrow> t = codec_tag c"
  by (cases c) (auto simp: catalog_codec_def)

lemma catalog_codec_tag [simp]: "catalog_codec (codec_tag c) = Inr c"
  by (simp add: ok_iff)

lemma visibility_from_tag_Some [ok_iff]: "visibility_from_tag t = Some v \<longleftrightarrow> t = visibility_tag v"
  by (cases v) (auto simp: visibility_from_tag_def)

lemma chunk_state_from_tag_Some [ok_iff]: "chunk_state_from_tag t = Some s \<longleftrightarrow> t = chunk_state_tag s"
  by (cases s) (auto simp: chunk_state_from_tag_def)

lemma visibility_from_tag_tag [simp]: "visibility_from_tag (visibility_tag v) = Some v"
  by (simp add: ok_iff)

lemma chunk_state_from_tag_tag [simp]: "chunk_state_from_tag (chunk_state_tag s) = Some s"
  by (simp add: ok_iff)

lemma version_split: "0 < length bs \<Longrightarrow> bs ! 0 = v \<Longrightarrow> v # drop 1 bs = bs"
  by (cases bs) simp_all

lemma object_location_key_eq:
  "content_id_wf cid \<Longrightarrow> encode_object_location_key cid = CATALOG_VERSION # content_id_bytes cid"
  unfolding encode_object_location_key_def Let_def by (simp add: blit_def content_id_wf_def)

lemma repository_key_eq: "repo_id_wf i \<Longrightarrow> encode_repository_key i = CATALOG_VERSION # repo_bytes i"
  unfolding encode_repository_key_def Let_def by (simp add: blit_def id_wf_defs catalog_consts)

lemma workspace_key_eq:
  "workspace_id_wf i \<Longrightarrow> encode_workspace_key i = CATALOG_VERSION # workspace_bytes i"
  unfolding encode_workspace_key_def Let_def by (simp add: blit_def id_wf_defs catalog_consts)

lemma gc_pin_key_eq:
  "gc_pin_id_wf i \<Longrightarrow>
   encode_gc_pin_key i = [CATALOG_VERSION, EXPLICIT_GC_PIN_KEY_TAG] @ gc_pin_bytes i"
  unfolding encode_gc_pin_key_def Let_def by (simp add: blit_def id_wf_defs catalog_consts)

lemma repository_snapshot_key_eq:
  "repo_id_wf r \<Longrightarrow> snapshot_id_wf s \<Longrightarrow>
   encode_repository_snapshot_key r s = CATALOG_VERSION # repo_bytes r @ snapshot_bytes s"
  unfolding encode_repository_snapshot_key_def Let_def by (simp add: blit_def id_wf_defs catalog_consts)

lemma chunk_key_eq: "encode_chunk_key g c = CATALOG_VERSION # u32_be g @ u64_be c"
  unfolding encode_chunk_key_def Let_def by (simp add: field_defs blit_def)

lemma chunk_value_eq:
  "encode_chunk_value v =
   [CATALOG_VERSION, chunk_state_tag (cm_state v)] @ u64_be (cm_size v) @ u64_be (cm_record_count v)"
  unfolding encode_chunk_value_def Let_def by (simp add: field_defs blit_def)

lemma current_generation_value_eq: "encode_current_generation_value g = CATALOG_VERSION # u32_be g"
  unfolding encode_current_generation_value_def Let_def by (simp add: field_defs blit_def)

lemma object_location_value_eq:
  "encode_object_location_value v = CATALOG_VERSION # u32_be (loc_generation v) @ u64_be (loc_chunk_id v)
     @ u64_be (loc_offset v) @ u64_be (loc_record_length v) @ u64_be (loc_stored_length v)
     @ u64_be (loc_raw_length v) @ [kind_tag (loc_kind v)] @ [codec_tag (loc_codec v)]
     @ u16_be (loc_flags v) @ u32_be (loc_payload_crc32c v)"
  unfolding encode_object_location_value_def Let_def by (simp add: field_defs blit_def)

lemmas opaque_defs = encode_opaque_key_def decode_opaque_key_def encode_opaque_value_def
  decode_opaque_value_def encode_meta_key_def decode_meta_key_def encode_job_key_def decode_job_key_def
  encode_workspace_name_key_def decode_workspace_name_key_def

section \<open>The instances\<close>

interpretation location_key: versioned_codec content_id_wf encode_object_location_key decode_object_location_key
proof
  fix cid :: content_id
  assume wf: "content_id_wf cid"
  then show "decode_object_location_key (encode_object_location_key cid) = Inr cid"
    by (simp add: decode_object_location_key_def object_location_key_eq) (simp add: content_id_wf_def)
  show "\<exists>rest. encode_object_location_key cid = CATALOG_VERSION # rest"
    using wf by (simp add: object_location_key_eq)
next
  fix bs cid
  assume "decode_object_location_key bs = Inr cid"
  then have len: "length bs = 33" and v: "bs ! 0 = CATALOG_VERSION" and cid: "cid = ContentId (drop 1 bs)"
    by (auto simp: decode_object_location_key_def ok_iff split: if_splits)
  then have wf: "content_id_wf cid" by (simp add: content_id_wf_def)
  then show "content_id_wf cid \<and> encode_object_location_key cid = bs"
    using version_split [OF _ v] len by (simp add: object_location_key_eq cid)
qed

interpretation location_value: versioned_codec "\<lambda>_. True" encode_object_location_value decode_object_location_value
proof
  fix v :: object_location
  let ?b = "encode_object_location_value v"
  have len: "length ?b = 53" by (simp add: object_location_value_eq)
  have "?b ! 0 = CATALOG_VERSION" "?b ! 45 = kind_tag (loc_kind v)" "?b ! 46 = codec_tag (loc_codec v)"
    by (simp_all add: object_location_value_eq nth_append nth_Cons')
  moreover have "slice 1 4 ?b = u32_be (loc_generation v)" "slice 5 8 ?b = u64_be (loc_chunk_id v)"
    "slice 13 8 ?b = u64_be (loc_offset v)" "slice 21 8 ?b = u64_be (loc_record_length v)"
    "slice 29 8 ?b = u64_be (loc_stored_length v)" "slice 37 8 ?b = u64_be (loc_raw_length v)"
    "slice 47 2 ?b = u16_be (loc_flags v)" "slice 49 4 ?b = u32_be (loc_payload_crc32c v)"
    by (simp_all add: object_location_value_eq slice_def)
  ultimately show "decode_object_location_value ?b = Inr v"
    using len by (simp add: decode_object_location_value_def read_u16_def read_u32_def read_u64_def ok_iff)
  show "\<exists>rest. ?b = CATALOG_VERSION # rest" by (simp add: object_location_value_eq)
next
  fix bs v
  assume "decode_object_location_value bs = Inr v"
  then have len: "length bs = 53" and "bs ! 0 = CATALOG_VERSION" "bs ! 45 = kind_tag (loc_kind v)"
    "bs ! 46 = codec_tag (loc_codec v)" "loc_generation v = read_u32 bs 1" "loc_chunk_id v = read_u64 bs 5"
    "loc_offset v = read_u64 bs 13" "loc_record_length v = read_u64 bs 21"
    "loc_stored_length v = read_u64 bs 29" "loc_raw_length v = read_u64 bs 37"
    "loc_flags v = read_u16 bs 47" "loc_payload_crc32c v = read_u32 bs 49"
    by (auto simp: decode_object_location_value_def ok_iff split: if_splits)
  then show "True \<and> encode_object_location_value v = bs"
    using take_by_cuts [of "[1, 4, 8, 8, 8, 8, 8, 1, 1, 2, 4]" bs, OF refl]
    by (simp add: object_location_value_eq slice_reads slice_one [simplified])
qed

definition alias_key_wf :: "repo_id \<times> git_oid \<Rightarrow> bool" where
  "alias_key_wf = (\<lambda>(repo, oid). repo_id_wf repo \<and> git_oid_wf oid)"

interpretation alias_key: versioned_codec alias_key_wf "\<lambda>(repo, oid). encode_oid_alias_key repo oid" decode_oid_alias_key
proof
  fix x :: "repo_id \<times> git_oid"
  assume "alias_key_wf x"
  then obtain repo oid where x: "x = (repo, oid)" and wf: "repo_id_wf repo" "git_oid_wf oid"
    by (cases x) (simp add: alias_key_wf_def)
  let ?b = "encode_oid_alias_key repo oid"
  have len: "length (oid_as_bytes oid) = unat (oid_len oid)" "oid_len oid = oid_len_of (oid_algorithm oid)"
    using wf(2) by (auto simp: length_oid_as_bytes git_oid_wf_def)
  have r: "length (repo_bytes repo) = 16" using wf(1) by (simp add: id_wf_defs catalog_consts)
  have "?b ! 0 = CATALOG_VERSION" "slice 1 16 ?b = repo_bytes repo" "?b ! 17 = algorithm_tag (oid_algorithm oid)"
    "?b ! 18 = oid_len oid" "drop 19 ?b = oid_as_bytes oid" "length ?b = 19 + unat (oid_len oid)"
    using r len(1) by (simp_all add: encode_oid_alias_key_def slice_def nth_append nth_Cons')
  then show "decode_oid_alias_key (case x of (repo, oid) \<Rightarrow> encode_oid_alias_key repo oid) = Inr x"
    using len(2) git_oid_new_of_wf [OF wf(2)]
    by (simp add: x decode_oid_alias_key_def Let_def ok_iff catalog_consts)
  show "\<exists>rest. (case x of (repo, oid) \<Rightarrow> encode_oid_alias_key repo oid) = CATALOG_VERSION # rest"
    by (simp add: x encode_oid_alias_key_def)
next
  fix bs x
  assume dec: "decode_oid_alias_key bs = Inr x"
  obtain repo oid where x: "x = (repo, oid)" by fastforce
  from dec obtain alg where len: "length bs = 19 + unat (bs ! 18)" and v: "bs ! 0 = CATALOG_VERSION"
    and repo: "repo = RepoId (slice 1 16 bs)" and alg: "bs ! 17 = algorithm_tag alg"
    and l: "unat (bs ! 18) = unat (oid_len_of alg)" and new: "git_oid_new alg (drop 19 bs) = Inr oid"
    by (auto simp: x decode_oid_alias_key_def Let_def ok_iff split: if_splits)
  have oid: "git_oid_wf oid" "oid_algorithm oid = alg" "oid_as_bytes oid = drop 19 bs"
    using git_oid_new_wf [OF new] git_oid_new_as_bytes [OF new] by simp_all
  have ol: "oid_len oid = bs ! 18" using oid(1,2) l by (simp add: git_oid_wf_def word_unat_eq_iff)
  have "take 19 bs = concat [[bs ! 0], slice 1 16 bs, [bs ! 17], [bs ! 18]]"
    using take_by_cuts [of "[1, 16, 1, 1]" bs, OF refl] len by (simp add: slice_one [simplified])
  then have "encode_oid_alias_key repo oid = take 19 bs @ drop 19 bs"
    by (simp add: encode_oid_alias_key_def v repo alg oid(2,3) ol)
  moreover have "repo_id_wf repo" using len by (simp add: repo id_wf_defs catalog_consts)
  ultimately show "alias_key_wf x \<and> (case x of (repo, oid) \<Rightarrow> encode_oid_alias_key repo oid) = bs"
    using oid(1) by (simp add: x alias_key_wf_def)
qed

lemma content_id_value_eq:
  "encode_content_id_value = encode_object_location_key" "decode_content_id_value = decode_object_location_key"
  by (simp_all add: fun_eq_iff encode_content_id_value_def decode_content_id_value_def)

interpretation content_id_value: versioned_codec content_id_wf encode_content_id_value decode_content_id_value
  unfolding content_id_value_eq by (rule location_key.versioned_codec_axioms)

interpretation repository_key: versioned_codec repo_id_wf encode_repository_key decode_repository_key
proof
  fix i :: repo_id
  assume wf: "repo_id_wf i"
  then show "decode_repository_key (encode_repository_key i) = Inr i"
    by (simp add: decode_repository_key_def repository_key_eq) (simp add: id_wf_defs catalog_consts)
  show "\<exists>rest. encode_repository_key i = CATALOG_VERSION # rest"
    using wf by (simp add: repository_key_eq)
next
  fix bs i
  assume "decode_repository_key bs = Inr i"
  then have len: "length bs = 17" and v: "bs ! 0 = CATALOG_VERSION" and i: "i = RepoId (drop 1 bs)"
    by (auto simp: decode_repository_key_def ok_iff split: if_splits)
  then have wf: "repo_id_wf i" by (simp add: id_wf_defs catalog_consts)
  then show "repo_id_wf i \<and> encode_repository_key i = bs"
    using version_split [OF _ v] len by (simp add: repository_key_eq i)
qed

interpretation workspace_key: versioned_codec workspace_id_wf encode_workspace_key decode_workspace_key
proof
  fix i :: workspace_id
  assume wf: "workspace_id_wf i"
  then show "decode_workspace_key (encode_workspace_key i) = Inr i"
    by (simp add: decode_workspace_key_def workspace_key_eq) (simp add: id_wf_defs catalog_consts)
  show "\<exists>rest. encode_workspace_key i = CATALOG_VERSION # rest"
    using wf by (simp add: workspace_key_eq)
next
  fix bs i
  assume "decode_workspace_key bs = Inr i"
  then have len: "length bs = 17" and v: "bs ! 0 = CATALOG_VERSION" and i: "i = WorkspaceId (drop 1 bs)"
    by (auto simp: decode_workspace_key_def ok_iff split: if_splits)
  then have wf: "workspace_id_wf i" by (simp add: id_wf_defs catalog_consts)
  then show "workspace_id_wf i \<and> encode_workspace_key i = bs"
    using version_split [OF _ v] len by (simp add: workspace_key_eq i)
qed

lemma workspace_codecs_eq:
  "encode_workspace_id_value = encode_workspace_key" "decode_workspace_id_value = decode_workspace_key"
  "encode_workspace_pin_key = encode_workspace_key" "decode_workspace_pin_key = decode_workspace_key"
  by (simp_all add: fun_eq_iff encode_workspace_id_value_def decode_workspace_id_value_def
      encode_workspace_pin_key_def decode_workspace_pin_key_def)

interpretation workspace_id_value: versioned_codec workspace_id_wf encode_workspace_id_value decode_workspace_id_value
  unfolding workspace_codecs_eq by (rule workspace_key.versioned_codec_axioms)

interpretation workspace_pin_key: versioned_codec workspace_id_wf encode_workspace_pin_key decode_workspace_pin_key
  unfolding workspace_codecs_eq by (rule workspace_key.versioned_codec_axioms)

lemma two_bytes_split: "1 < length bs \<Longrightarrow> bs ! 0 = a \<Longrightarrow> bs ! 1 = b \<Longrightarrow> a # b # drop 2 bs = bs"
  by (cases bs; cases "tl bs") auto

interpretation gc_pin_key: versioned_codec gc_pin_id_wf encode_gc_pin_key decode_gc_pin_key
proof
  fix i :: gc_pin_id
  assume wf: "gc_pin_id_wf i"
  then show "decode_gc_pin_key (encode_gc_pin_key i) = Inr i"
    by (simp add: decode_gc_pin_key_def gc_pin_key_eq) (simp add: id_wf_defs catalog_consts)
  show "\<exists>rest. encode_gc_pin_key i = CATALOG_VERSION # rest"
    using wf by (simp add: gc_pin_key_eq)
next
  fix bs i
  assume "decode_gc_pin_key bs = Inr i"
  then have len: "length bs = 18" and v: "bs ! 0 = CATALOG_VERSION" "bs ! 1 = EXPLICIT_GC_PIN_KEY_TAG"
    and i: "i = GcPinId (drop 2 bs)"
    by (auto simp: decode_gc_pin_key_def ok_iff split: if_splits)
  then have wf: "gc_pin_id_wf i" by (simp add: id_wf_defs catalog_consts)
  then show "gc_pin_id_wf i \<and> encode_gc_pin_key i = bs"
    using two_bytes_split [OF _ v] len by (simp add: gc_pin_key_eq i)
qed

text \<open>The two kinds of keys of the \<open>pins\<close> family never coincide.\<close>

lemma pin_keys_disjoint:
  assumes "workspace_id_wf w" and "gc_pin_id_wf p"
  shows "encode_workspace_pin_key w \<noteq> encode_gc_pin_key p"
proof
  assume "encode_workspace_pin_key w = encode_gc_pin_key p"
  then have "length (encode_workspace_key w) = length (encode_gc_pin_key p)"
    by (simp add: workspace_codecs_eq)
  then show False
    using assms by (simp add: workspace_key_eq gc_pin_key_eq) (simp add: id_wf_defs catalog_consts)
qed

definition snapshot_key_wf :: "repo_id \<times> snapshot_id \<Rightarrow> bool" where
  "snapshot_key_wf = (\<lambda>(r, s). repo_id_wf r \<and> snapshot_id_wf s)"

lemma key_wf_pair [simp]:
  "alias_key_wf (r, oid) \<longleftrightarrow> repo_id_wf r \<and> git_oid_wf oid"
  "snapshot_key_wf (r, s) \<longleftrightarrow> repo_id_wf r \<and> snapshot_id_wf s"
  by (simp_all add: alias_key_wf_def snapshot_key_wf_def)

interpretation snapshot_key: versioned_codec snapshot_key_wf "\<lambda>(r, s). encode_repository_snapshot_key r s"
  decode_repository_snapshot_key
proof
  fix x :: "repo_id \<times> snapshot_id"
  assume "snapshot_key_wf x"
  then obtain r s where x: "x = (r, s)" and wf: "repo_id_wf r" "snapshot_id_wf s"
    by (cases x) (simp add: snapshot_key_wf_def)
  have l: "length (repo_bytes r) = 16" "length (snapshot_bytes s) = 16"
    using wf by (simp_all add: id_wf_defs catalog_consts)
  then show "decode_repository_snapshot_key (case x of (r, s) \<Rightarrow> encode_repository_snapshot_key r s) = Inr x"
    using wf by (simp add: x decode_repository_snapshot_key_def repository_snapshot_key_eq slice_def)
  show "\<exists>rest. (case x of (r, s) \<Rightarrow> encode_repository_snapshot_key r s) = CATALOG_VERSION # rest"
    using wf by (simp add: x repository_snapshot_key_eq)
next
  fix bs x
  assume dec: "decode_repository_snapshot_key bs = Inr x"
  obtain r s where x: "x = (r, s)" by fastforce
  from dec have len: "length bs = 33" and v: "bs ! 0 = CATALOG_VERSION"
    and r: "r = RepoId (slice 1 16 bs)" and s: "s = SnapshotId (drop 17 bs)"
    by (auto simp: x decode_repository_snapshot_key_def ok_iff split: if_splits)
  have wf: "repo_id_wf r" "snapshot_id_wf s" using len by (simp_all add: r s id_wf_defs catalog_consts)
  have "take 17 bs = concat [[bs ! 0], slice 1 16 bs]"
    using take_by_cuts [of "[1, 16]" bs, OF refl] len by (simp add: slice_one [simplified])
  then have "encode_repository_snapshot_key r s = take 17 bs @ drop 17 bs"
    using wf by (simp add: repository_snapshot_key_eq v) (simp add: r s)
  then show "snapshot_key_wf x \<and> (case x of (r, s) \<Rightarrow> encode_repository_snapshot_key r s) = bs"
    using wf by (simp add: x snapshot_key_wf_def)
qed

interpretation visibility_value: versioned_codec "\<lambda>_. True" encode_snapshot_visibility_value decode_snapshot_visibility_value
proof
  fix bs v
  assume "decode_snapshot_visibility_value bs = Inr v"
  then have len: "length bs = 2" and v: "bs ! 0 = CATALOG_VERSION" "bs ! 1 = visibility_tag v"
    by (auto simp: decode_snapshot_visibility_value_def ok_iff split: if_splits)
  then show "True \<and> encode_snapshot_visibility_value v = bs"
    using two_bytes_split [OF _ v] len by (simp add: encode_snapshot_visibility_value_def)
qed (simp_all add: encode_snapshot_visibility_value_def decode_snapshot_visibility_value_def)

interpretation chunk_key: versioned_codec "\<lambda>_. True" "\<lambda>(g, c). encode_chunk_key g c" decode_chunk_key
proof
  fix bs x
  assume dec: "decode_chunk_key bs = Inr x"
  obtain g c where x: "x = (g, c)" by fastforce
  from dec have "length bs = 13" "bs ! 0 = CATALOG_VERSION" "g = read_u32 bs 1" "c = read_u64 bs 5"
    by (auto simp: x decode_chunk_key_def ok_iff split: if_splits)
  then show "True \<and> (case x of (g, c) \<Rightarrow> encode_chunk_key g c) = bs"
    using take_by_cuts [of "[1, 4, 8]" bs, OF refl]
    by (simp add: x chunk_key_eq slice_reads slice_one [simplified])
qed (auto simp: decode_chunk_key_def chunk_key_eq read_u32_def read_u64_def slice_def)

interpretation chunk_value: versioned_codec "\<lambda>_. True" encode_chunk_value decode_chunk_value
proof
  fix bs v
  assume "decode_chunk_value bs = Inr v"
  then have "length bs = 18" "bs ! 0 = CATALOG_VERSION" "bs ! 1 = chunk_state_tag (cm_state v)"
    "cm_size v = read_u64 bs 2" "cm_record_count v = read_u64 bs 10"
    by (auto simp: decode_chunk_value_def ok_iff split: if_splits)
  then show "True \<and> encode_chunk_value v = bs"
    using take_by_cuts [of "[1, 1, 8, 8]" bs, OF refl]
    by (simp add: chunk_value_eq slice_reads slice_one [simplified] flip: numeral_2_eq_2)
qed (auto simp: decode_chunk_value_def chunk_value_eq read_u64_def slice_def)

interpretation generation_value: versioned_codec "\<lambda>_. True" encode_current_generation_value decode_current_generation_value
proof
  fix bs g
  assume "decode_current_generation_value bs = Inr g"
  then have "length bs = 5" "bs ! 0 = CATALOG_VERSION" "g = read_u32 bs 1"
    by (auto simp: decode_current_generation_value_def ok_iff split: if_splits)
  then show "True \<and> encode_current_generation_value g = bs"
    using take_by_cuts [of "[1, 4]" bs, OF refl]
    by (simp add: current_generation_value_eq slice_reads slice_one [simplified])
qed (auto simp: decode_current_generation_value_def current_generation_value_eq read_u32_def slice_def)

lemma pin_value_eq:
  "encode_workspace_pin_value = encode_current_generation_value"
  "decode_workspace_pin_value = decode_current_generation_value"
  "encode_gc_pin_value = encode_current_generation_value"
  "decode_gc_pin_value = decode_current_generation_value"
  by (simp_all add: fun_eq_iff encode_workspace_pin_value_def decode_workspace_pin_value_def
      encode_gc_pin_value_def decode_gc_pin_value_def)

interpretation workspace_pin_value: versioned_codec "\<lambda>_. True" encode_workspace_pin_value decode_workspace_pin_value
  unfolding pin_value_eq by (rule generation_value.versioned_codec_axioms)

interpretation gc_pin_value: versioned_codec "\<lambda>_. True" encode_gc_pin_value decode_gc_pin_value
  unfolding pin_value_eq by (rule generation_value.versioned_codec_axioms)

interpretation opaque_key: versioned_codec "\<lambda>_. True" encode_opaque_key decode_opaque_key
  by unfold_locales
    (auto simp: encode_opaque_key_def decode_opaque_key_def ok_iff split: list.splits)

lemma opaque_codecs_eq:
  "encode_opaque_value = encode_opaque_key" "decode_opaque_value = decode_opaque_key"
  "encode_meta_key = encode_opaque_key" "decode_meta_key = decode_opaque_key"
  "encode_job_key = encode_opaque_key" "decode_job_key = decode_opaque_key"
  "encode_workspace_name_key = encode_opaque_key" "decode_workspace_name_key = decode_opaque_key"
  by (simp_all add: fun_eq_iff opaque_defs)

interpretation opaque_value: versioned_codec "\<lambda>_. True" encode_opaque_value decode_opaque_value
  unfolding opaque_codecs_eq by (rule opaque_key.versioned_codec_axioms)

interpretation meta_key: versioned_codec "\<lambda>_. True" encode_meta_key decode_meta_key
  unfolding opaque_codecs_eq by (rule opaque_key.versioned_codec_axioms)

interpretation job_key: versioned_codec "\<lambda>_. True" encode_job_key decode_job_key
  unfolding opaque_codecs_eq by (rule opaque_key.versioned_codec_axioms)

interpretation workspace_name_key: versioned_codec "\<lambda>_. True" encode_workspace_name_key decode_workspace_name_key
  unfolding opaque_codecs_eq by (rule opaque_key.versioned_codec_axioms)

end
