(* ===== verification/Catalog.thy ===== *)
theory Catalog
  imports CatalogCodecs "HOL-Library.List_Lexorder" "HOL-Library.Product_Lexorder"
begin

text \<open>
  Catalog batches, the \<open>Catalog\<close> trait and the in-memory catalog
  (\<open>crates/reflink-forest-index/src/lib.rs\<close>).  The trait is the record \<open>catalog_ops\<close> of its
  methods over a catalog state; a method with \<open>&mut self\<close> returns its result and the state it
  leaves behind.  A \<open>visit_*\<close> method is given by the sequence of results it scans: the entries in
  order, or the error that ends the scan.
\<close>

section \<open>Orders\<close>

text \<open>The derived \<open>Ord\<close> instances compare byte arrays lexicographically.\<close>

instantiation repo_id :: linorder
begin
definition less_eq_repo_id :: "repo_id \<Rightarrow> repo_id \<Rightarrow> bool" where
  "less_eq_repo_id a b \<longleftrightarrow> repo_bytes a \<le> repo_bytes b"
definition less_repo_id :: "repo_id \<Rightarrow> repo_id \<Rightarrow> bool" where
  "less_repo_id a b \<longleftrightarrow> repo_bytes a < repo_bytes b"
instance
  by standard (auto simp: less_eq_repo_id_def less_repo_id_def repo_id.expand)
end

instantiation snapshot_id :: linorder
begin
definition less_eq_snapshot_id :: "snapshot_id \<Rightarrow> snapshot_id \<Rightarrow> bool" where
  "less_eq_snapshot_id a b \<longleftrightarrow> snapshot_bytes a \<le> snapshot_bytes b"
definition less_snapshot_id :: "snapshot_id \<Rightarrow> snapshot_id \<Rightarrow> bool" where
  "less_snapshot_id a b \<longleftrightarrow> snapshot_bytes a < snapshot_bytes b"
instance
  by standard (auto simp: less_eq_snapshot_id_def less_snapshot_id_def snapshot_id.expand)
end

instantiation workspace_id :: linorder
begin
definition less_eq_workspace_id :: "workspace_id \<Rightarrow> workspace_id \<Rightarrow> bool" where
  "less_eq_workspace_id a b \<longleftrightarrow> workspace_bytes a \<le> workspace_bytes b"
definition less_workspace_id :: "workspace_id \<Rightarrow> workspace_id \<Rightarrow> bool" where
  "less_workspace_id a b \<longleftrightarrow> workspace_bytes a < workspace_bytes b"
instance
  by standard (auto simp: less_eq_workspace_id_def less_workspace_id_def workspace_id.expand)
end

instantiation gc_pin_id :: linorder
begin
definition less_eq_gc_pin_id :: "gc_pin_id \<Rightarrow> gc_pin_id \<Rightarrow> bool" where
  "less_eq_gc_pin_id a b \<longleftrightarrow> gc_pin_bytes a \<le> gc_pin_bytes b"
definition less_gc_pin_id :: "gc_pin_id \<Rightarrow> gc_pin_id \<Rightarrow> bool" where
  "less_gc_pin_id a b \<longleftrightarrow> gc_pin_bytes a < gc_pin_bytes b"
instance
  by standard (auto simp: less_eq_gc_pin_id_def less_gc_pin_id_def gc_pin_id.expand)
end

text \<open>\<open>RepositorySnapshot\<close>, \<open>GcPin\<close> and \<open>GcRoot\<close> compare by variant and then field by field.\<close>

definition snapshot_order :: "repository_snapshot \<Rightarrow> repo_id \<times> snapshot_id \<times> u8" where
  "snapshot_order s = (rs_repository s, rs_snapshot s, visibility_tag (rs_visibility s))"

definition pin_order :: "gc_pin \<Rightarrow> gc_pin_id \<times> u32" where
  "pin_order p = (pin_id p, pin_generation p)"

fun root_order :: "gc_root \<Rightarrow> nat \<times> bytes \<times> bytes \<times> u32" where
  "root_order (RootSnapshot repository snapshot) = (0, repo_bytes repository, snapshot_bytes snapshot, 0)"
| "root_order (RootWorkspacePin workspace generation) = (1, workspace_bytes workspace, [], generation)"
| "root_order (RootExplicitPin pin) = (2, gc_pin_bytes (pin_id pin), [], pin_generation pin)"

section \<open>Batches\<close>

datatype operation =
    OpObjectLocation content_id object_location
  | OpOidAlias repo_id git_oid content_id
  | OpRepository repo_id bytes
  | OpDeleteRepository repo_id
  | OpRepositorySnapshot repo_id snapshot_id snapshot_visibility
  | OpDeleteRepositorySnapshot repo_id snapshot_id
  | OpChunkMetadata u32 u64 chunk_metadata
  | OpMeta bytes bytes
  | OpWorkspace workspace_id bytes
  | OpWorkspaceName bytes workspace_id
  | OpWorkspacePin workspace_id u32
  | OpDeleteWorkspacePin workspace_id
  | OpGcPin gc_pin_id u32
  | OpDeleteGcPin gc_pin_id
  | OpJob bytes bytes

record catalog_batch =
  operations :: "operation list"

definition batch_new :: catalog_batch where
  "batch_new = \<lparr>operations = []\<rparr>"

definition batch_push :: "operation \<Rightarrow> catalog_batch \<Rightarrow> catalog_batch" where
  "batch_push op b = b\<lparr>operations := operations b @ [op]\<rparr>"

definition put_object_location :: "content_id \<Rightarrow> object_location \<Rightarrow> catalog_batch \<Rightarrow> catalog_batch" where
  "put_object_location cid location = batch_push (OpObjectLocation cid location)"
definition put_oid_alias :: "repo_id \<Rightarrow> git_oid \<Rightarrow> content_id \<Rightarrow> catalog_batch \<Rightarrow> catalog_batch" where
  "put_oid_alias repo oid cid = batch_push (OpOidAlias repo oid cid)"
definition put_repository :: "repo_id \<Rightarrow> bytes \<Rightarrow> catalog_batch \<Rightarrow> catalog_batch" where
  "put_repository i rec = batch_push (OpRepository i rec)"
definition batch_delete_repository :: "repo_id \<Rightarrow> catalog_batch \<Rightarrow> catalog_batch" where
  "batch_delete_repository i = batch_push (OpDeleteRepository i)"
definition put_repository_snapshot ::
  "repo_id \<Rightarrow> snapshot_id \<Rightarrow> snapshot_visibility \<Rightarrow> catalog_batch \<Rightarrow> catalog_batch" where
  "put_repository_snapshot repository snapshot visibility =
     batch_push (OpRepositorySnapshot repository snapshot visibility)"
definition delete_repository_snapshot :: "repo_id \<Rightarrow> snapshot_id \<Rightarrow> catalog_batch \<Rightarrow> catalog_batch" where
  "delete_repository_snapshot repository snapshot = batch_push (OpDeleteRepositorySnapshot repository snapshot)"
definition put_chunk :: "u32 \<Rightarrow> u64 \<Rightarrow> chunk_metadata \<Rightarrow> catalog_batch \<Rightarrow> catalog_batch" where
  "put_chunk generation chunk_id metadata = batch_push (OpChunkMetadata generation chunk_id metadata)"
definition put_meta :: "bytes \<Rightarrow> bytes \<Rightarrow> catalog_batch \<Rightarrow> catalog_batch" where
  "put_meta key val = batch_push (OpMeta key val)"
definition put_current_generation :: "u32 \<Rightarrow> catalog_batch \<Rightarrow> catalog_batch" where
  "put_current_generation generation = batch_push (OpMeta CURRENT_GENERATION_META_KEY (u32_be generation))"
definition put_workspace :: "workspace_id \<Rightarrow> bytes \<Rightarrow> catalog_batch \<Rightarrow> catalog_batch" where
  "put_workspace i rec = batch_push (OpWorkspace i rec)"
definition put_workspace_name :: "bytes \<Rightarrow> workspace_id \<Rightarrow> catalog_batch \<Rightarrow> catalog_batch" where
  "put_workspace_name name i = batch_push (OpWorkspaceName name i)"
definition put_workspace_pin :: "workspace_id \<Rightarrow> u32 \<Rightarrow> catalog_batch \<Rightarrow> catalog_batch" where
  "put_workspace_pin i generation = batch_push (OpWorkspacePin i generation)"
definition delete_workspace_pin :: "workspace_id \<Rightarrow> catalog_batch \<Rightarrow> catalog_batch" where
  "delete_workspace_pin i = batch_push (OpDeleteWorkspacePin i)"
definition put_gc_pin :: "gc_pin_id \<Rightarrow> u32 \<Rightarrow> catalog_batch \<Rightarrow> catalog_batch" where
  "put_gc_pin i generation = batch_push (OpGcPin i generation)"
definition delete_gc_pin :: "gc_pin_id \<Rightarrow> catalog_batch \<Rightarrow> catalog_batch" where
  "delete_gc_pin i = batch_push (OpDeleteGcPin i)"
definition put_job :: "bytes \<Rightarrow> bytes \<Rightarrow> catalog_batch \<Rightarrow> catalog_batch" where
  "put_job job_id rec = batch_push (OpJob job_id rec)"

lemmas batch_defs = batch_new_def batch_push_def put_object_location_def put_oid_alias_def put_repository_def
  batch_delete_repository_def put_repository_snapshot_def delete_repository_snapshot_def put_chunk_def
  put_meta_def put_current_generation_def put_workspace_def put_workspace_name_def put_workspace_pin_def
  delete_workspace_pin_def put_gc_pin_def delete_gc_pin_def put_job_def

definition reject_direct_rebuild_marker_mutation :: "catalog_batch \<Rightarrow> catalog_error + unit" where
  "reject_direct_rebuild_marker_mutation batch =
     (if list_ex (\<lambda>op. case op of OpMeta key _ \<Rightarrow> key = OBJECT_LOCATION_REBUILD_META_KEY | _ \<Rightarrow> False)
          (operations batch)
      then Inl (UnsupportedOperation ''direct object-location rebuild metadata mutation'')
      else Inr ())"

text \<open>The identifiers inside a batch are fixed-size arrays and validated object IDs.\<close>

fun operation_wf :: "operation \<Rightarrow> bool" where
  "operation_wf (OpObjectLocation cid _) \<longleftrightarrow> content_id_wf cid"
| "operation_wf (OpOidAlias repo oid cid) \<longleftrightarrow> repo_id_wf repo \<and> git_oid_wf oid \<and> content_id_wf cid"
| "operation_wf (OpRepository i _) \<longleftrightarrow> repo_id_wf i"
| "operation_wf (OpDeleteRepository i) \<longleftrightarrow> repo_id_wf i"
| "operation_wf (OpRepositorySnapshot r s _) \<longleftrightarrow> repo_id_wf r \<and> snapshot_id_wf s"
| "operation_wf (OpDeleteRepositorySnapshot r s) \<longleftrightarrow> repo_id_wf r \<and> snapshot_id_wf s"
| "operation_wf (OpChunkMetadata _ _ _) \<longleftrightarrow> True"
| "operation_wf (OpMeta _ _) \<longleftrightarrow> True"
| "operation_wf (OpWorkspace i _) \<longleftrightarrow> workspace_id_wf i"
| "operation_wf (OpWorkspaceName _ i) \<longleftrightarrow> workspace_id_wf i"
| "operation_wf (OpWorkspacePin i _) \<longleftrightarrow> workspace_id_wf i"
| "operation_wf (OpDeleteWorkspacePin i) \<longleftrightarrow> workspace_id_wf i"
| "operation_wf (OpGcPin i _) \<longleftrightarrow> gc_pin_id_wf i"
| "operation_wf (OpDeleteGcPin i) \<longleftrightarrow> gc_pin_id_wf i"
| "operation_wf (OpJob _ _) \<longleftrightarrow> True"

definition batch_wf :: "catalog_batch \<Rightarrow> bool" where
  "batch_wf b \<longleftrightarrow> list_all operation_wf (operations b)"

section \<open>The catalog trait\<close>

record 'c catalog_ops =
  cat_apply :: "catalog_batch \<Rightarrow> ('c, catalog_error, unit) eff"
  cat_object_location :: "'c \<Rightarrow> content_id \<Rightarrow> object_location option"
  cat_rebuild_state :: "'c \<Rightarrow> catalog_error + rebuild_state"
  cat_scan_object_locations :: "'c \<Rightarrow> (catalog_error + object_location_entry) list"
  cat_scan_oid_aliases :: "'c \<Rightarrow> (catalog_error + oid_alias_entry) list"
  cat_scan_chunks :: "'c \<Rightarrow> (catalog_error + chunk_entry) list"
  cat_oid_alias :: "'c \<Rightarrow> repo_id \<Rightarrow> git_oid \<Rightarrow> content_id option"
  cat_repository :: "'c \<Rightarrow> repo_id \<Rightarrow> bytes option"
  cat_repository_snapshot :: "'c \<Rightarrow> repo_id \<Rightarrow> snapshot_id \<Rightarrow> snapshot_visibility option"
  cat_repository_snapshots :: "'c \<Rightarrow> catalog_error + repository_snapshot list"
  cat_chunk :: "'c \<Rightarrow> u32 \<Rightarrow> u64 \<Rightarrow> chunk_metadata option"
  cat_meta :: "'c \<Rightarrow> bytes \<Rightarrow> bytes option"
  cat_workspace :: "'c \<Rightarrow> workspace_id \<Rightarrow> bytes option"
  cat_workspace_name :: "'c \<Rightarrow> bytes \<Rightarrow> workspace_id option"
  cat_workspace_pin :: "'c \<Rightarrow> workspace_id \<Rightarrow> u32 option"
  cat_workspace_pins :: "'c \<Rightarrow> catalog_error + (workspace_id \<times> u32) list"
  cat_gc_pins :: "'c \<Rightarrow> catalog_error + gc_pin list"
  cat_job :: "'c \<Rightarrow> bytes \<Rightarrow> bytes option"
  cat_begin_rebuild :: "('c, catalog_error, unit) eff"
  cat_restart_rebuild :: "('c, catalog_error, unit) eff"
  cat_append_rebuilt :: "object_location_entry list \<Rightarrow> ('c, catalog_error, unit) eff"
  cat_finish_rebuild :: "('c, catalog_error, unit) eff"

text \<open>A visitor run over a scan: it stops at the first error of the scan or of the visitor.\<close>

fun visit_scan :: "('e + 'x) list \<Rightarrow> ('x \<Rightarrow> ('v, 'e, unit) eff) \<Rightarrow> ('v, 'e, unit) eff" where
  "visit_scan [] visitor = ret ()"
| "visit_scan (Inl e # scan) visitor = raise e"
| "visit_scan (Inr entry # scan) visitor = seq_eff (visitor entry) (\<lambda>_. visit_scan scan visitor)"

text \<open>The provided methods of the trait.\<close>

definition delete_repository :: "'c catalog_ops \<Rightarrow> repo_id \<Rightarrow> ('c, catalog_error, unit) eff" where
  "delete_repository ops repository = (\<lambda>c.
     case cat_repository_snapshots ops c of
       Inl e \<Rightarrow> (Inl e, c)
     | Inr snapshots \<Rightarrow>
         cat_apply ops
           (fold (\<lambda>snapshot batch. if rs_repository snapshot = repository
                  then delete_repository_snapshot repository (rs_snapshot snapshot) batch else batch)
              snapshots (batch_delete_repository repository batch_new)) c)"

definition current_generation :: "'c catalog_ops \<Rightarrow> 'c \<Rightarrow> u32 option" where
  "current_generation ops c =
     (case cat_meta ops c CURRENT_GENERATION_META_KEY of
        None \<Rightarrow> None
      | Some v \<Rightarrow> if length v = 4 then Some (be_u32 v) else None)"

definition gc_roots :: "'c catalog_ops \<Rightarrow> 'c \<Rightarrow> catalog_error + gc_root list" where
  "gc_roots ops c =
     and_then (cat_repository_snapshots ops c) (\<lambda>snapshots.
     let roots = map (\<lambda>s. RootSnapshot (rs_repository s) (rs_snapshot s))
                   (filter (\<lambda>s. rs_visibility s = Ready) snapshots) in
     and_then (cat_workspace_pins ops c) (\<lambda>pins.
     let roots = roots @ map (\<lambda>(workspace, generation). RootWorkspacePin workspace generation) pins in
     and_then (cat_gc_pins ops c) (\<lambda>pins.
     let roots = roots @ map RootExplicitPin pins in
     Inr (sort_key root_order roots))))"

section \<open>The in-memory catalog\<close>

record in_memory_catalog =
  im_objects :: "(content_id, object_location) hash_map"
  im_rebuild_in_progress :: bool
  im_aliases :: "(repo_id \<times> git_oid, content_id) hash_map"
  im_repositories :: "(repo_id, bytes) hash_map"
  im_repository_snapshots :: "(repo_id \<times> snapshot_id, snapshot_visibility) hash_map"
  im_chunks :: "(u32 \<times> u64, chunk_metadata) hash_map"
  im_meta :: "(bytes, bytes) hash_map"
  im_workspaces :: "(workspace_id, bytes) hash_map"
  im_workspace_names :: "(bytes, workspace_id) hash_map"
  im_workspace_pins :: "(workspace_id, u32) hash_map"
  im_gc_pins :: "(gc_pin_id, u32) hash_map"
  im_jobs :: "(bytes, bytes) hash_map"

definition im_default :: in_memory_catalog where
  "im_default = \<lparr>im_objects = [], im_rebuild_in_progress = False, im_aliases = [], im_repositories = [],
     im_repository_snapshots = [], im_chunks = [], im_meta = [], im_workspaces = [],
     im_workspace_names = [], im_workspace_pins = [], im_gc_pins = [], im_jobs = []\<rparr>"

fun im_stage :: "operation \<Rightarrow> in_memory_catalog \<Rightarrow> catalog_error + in_memory_catalog" where
  "im_stage (OpObjectLocation cid location) c =
     Inr (c\<lparr>im_objects := hm_insert cid location (im_objects c)\<rparr>)"
| "im_stage (OpChunkMetadata generation chunk_id metadata) c =
     Inr (c\<lparr>im_chunks := hm_insert (generation, chunk_id) metadata (im_chunks c)\<rparr>)"
| "im_stage (OpRepository i rec) c = Inr (c\<lparr>im_repositories := hm_insert i rec (im_repositories c)\<rparr>)"
| "im_stage (OpDeleteRepository i) c = Inr (c\<lparr>im_repositories := hm_remove i (im_repositories c)\<rparr>)"
| "im_stage (OpRepositorySnapshot repository snapshot visibility) c =
     Inr (c\<lparr>im_repository_snapshots :=
              hm_insert (repository, snapshot) visibility (im_repository_snapshots c)\<rparr>)"
| "im_stage (OpDeleteRepositorySnapshot repository snapshot) c =
     Inr (c\<lparr>im_repository_snapshots := hm_remove (repository, snapshot) (im_repository_snapshots c)\<rparr>)"
| "im_stage (OpMeta key v) c = Inr (c\<lparr>im_meta := hm_insert key v (im_meta c)\<rparr>)"
| "im_stage (OpWorkspace i rec) c = Inr (c\<lparr>im_workspaces := hm_insert i rec (im_workspaces c)\<rparr>)"
| "im_stage (OpWorkspaceName name i) c =
     Inr (c\<lparr>im_workspace_names := hm_insert name i (im_workspace_names c)\<rparr>)"
| "im_stage (OpWorkspacePin i generation) c =
     Inr (c\<lparr>im_workspace_pins := hm_insert i generation (im_workspace_pins c)\<rparr>)"
| "im_stage (OpDeleteWorkspacePin i) c = Inr (c\<lparr>im_workspace_pins := hm_remove i (im_workspace_pins c)\<rparr>)"
| "im_stage (OpGcPin i generation) c = Inr (c\<lparr>im_gc_pins := hm_insert i generation (im_gc_pins c)\<rparr>)"
| "im_stage (OpDeleteGcPin i) c = Inr (c\<lparr>im_gc_pins := hm_remove i (im_gc_pins c)\<rparr>)"
| "im_stage (OpJob job_id rec) c = Inr (c\<lparr>im_jobs := hm_insert job_id rec (im_jobs c)\<rparr>)"
| "im_stage (OpOidAlias repo oid cid) c =
     (case hm_get (im_aliases c) (repo, oid) of
        Some existing \<Rightarrow>
          if existing \<noteq> cid then Inl (AliasConflict repo oid existing cid)
          else Inr (c\<lparr>im_aliases := hm_insert (repo, oid) cid (im_aliases c)\<rparr>)
      | None \<Rightarrow> Inr (c\<lparr>im_aliases := hm_insert (repo, oid) cid (im_aliases c)\<rparr>))"

definition im_apply :: "catalog_batch \<Rightarrow> (in_memory_catalog, catalog_error, unit) eff" where
  "im_apply batch = (\<lambda>c.
     if im_rebuild_in_progress c then (Inl ObjectLocationRebuildInProgress, c) else
     case reject_direct_rebuild_marker_mutation batch of
       Inl e \<Rightarrow> (Inl e, c)
     | Inr _ \<Rightarrow>
         (case fold_result im_stage (operations batch) c of
            Inl e \<Rightarrow> (Inl e, c)
          | Inr staged \<Rightarrow> (Inr (), staged)))"

definition im_object_location :: "in_memory_catalog \<Rightarrow> content_id \<Rightarrow> object_location option" where
  "im_object_location c cid = (if im_rebuild_in_progress c then None else hm_get (im_objects c) cid)"

definition im_rebuild_state :: "in_memory_catalog \<Rightarrow> catalog_error + rebuild_state" where
  "im_rebuild_state c = Inr (if im_rebuild_in_progress c then InProgress else Idle)"

definition im_scan_object_locations :: "in_memory_catalog \<Rightarrow> (catalog_error + object_location_entry) list" where
  "im_scan_object_locations c =
     (if im_rebuild_in_progress c then [Inl ObjectLocationRebuildInProgress] else
      map Inr (sort_key (\<lambda>e. content_id_bytes (ole_content_id e))
        (map (\<lambda>(cid, location). \<lparr>ole_content_id = cid, ole_location = location\<rparr>) (im_objects c))))"

definition alias_order :: "oid_alias_entry \<Rightarrow> repo_id \<times> u8 \<times> bytes" where
  "alias_order e = (oae_repository e, algorithm_tag (oid_algorithm (oae_oid e)), oid_as_bytes (oae_oid e))"

definition im_scan_oid_aliases :: "in_memory_catalog \<Rightarrow> (catalog_error + oid_alias_entry) list" where
  "im_scan_oid_aliases c =
     map Inr (sort_key alias_order
       (map (\<lambda>((repository, oid), cid). \<lparr>oae_repository = repository, oae_oid = oid, oae_content_id = cid\<rparr>)
         (im_aliases c)))"

definition im_scan_chunks :: "in_memory_catalog \<Rightarrow> (catalog_error + chunk_entry) list" where
  "im_scan_chunks c =
     (if im_rebuild_in_progress c then [Inl ObjectLocationRebuildInProgress] else
      map Inr (sort_key (\<lambda>e. (ce_generation e, ce_chunk_id e))
        (map (\<lambda>((generation, chunk_id), metadata).
           \<lparr>ce_generation = generation, ce_chunk_id = chunk_id, ce_metadata = metadata\<rparr>) (im_chunks c))))"

definition im_oid_alias :: "in_memory_catalog \<Rightarrow> repo_id \<Rightarrow> git_oid \<Rightarrow> content_id option" where
  "im_oid_alias c repo oid = hm_get (im_aliases c) (repo, oid)"
definition im_repository :: "in_memory_catalog \<Rightarrow> repo_id \<Rightarrow> bytes option" where
  "im_repository c i = hm_get (im_repositories c) i"
definition im_repository_snapshot ::
  "in_memory_catalog \<Rightarrow> repo_id \<Rightarrow> snapshot_id \<Rightarrow> snapshot_visibility option" where
  "im_repository_snapshot c repository snapshot = hm_get (im_repository_snapshots c) (repository, snapshot)"

definition im_list_repository_snapshots :: "in_memory_catalog \<Rightarrow> catalog_error + repository_snapshot list" where
  "im_list_repository_snapshots c =
     Inr (sort_key snapshot_order
       (map (\<lambda>((repository, snapshot), visibility).
          \<lparr>rs_repository = repository, rs_snapshot = snapshot, rs_visibility = visibility\<rparr>)
         (im_repository_snapshots c)))"

definition im_chunk :: "in_memory_catalog \<Rightarrow> u32 \<Rightarrow> u64 \<Rightarrow> chunk_metadata option" where
  "im_chunk c generation chunk_id = hm_get (im_chunks c) (generation, chunk_id)"
definition im_get_meta :: "in_memory_catalog \<Rightarrow> bytes \<Rightarrow> bytes option" where
  "im_get_meta c key = hm_get (im_meta c) key"
definition im_workspace :: "in_memory_catalog \<Rightarrow> workspace_id \<Rightarrow> bytes option" where
  "im_workspace c i = hm_get (im_workspaces c) i"
definition im_workspace_name :: "in_memory_catalog \<Rightarrow> bytes \<Rightarrow> workspace_id option" where
  "im_workspace_name c name = hm_get (im_workspace_names c) name"
definition im_workspace_pin :: "in_memory_catalog \<Rightarrow> workspace_id \<Rightarrow> u32 option" where
  "im_workspace_pin c i = hm_get (im_workspace_pins c) i"

definition im_list_workspace_pins :: "in_memory_catalog \<Rightarrow> catalog_error + (workspace_id \<times> u32) list" where
  "im_list_workspace_pins c = Inr (sort (im_workspace_pins c))"

definition im_list_gc_pins :: "in_memory_catalog \<Rightarrow> catalog_error + gc_pin list" where
  "im_list_gc_pins c =
     Inr (sort_key pin_order (map (\<lambda>(i, generation). \<lparr>pin_id = i, pin_generation = generation\<rparr>) (im_gc_pins c)))"

definition im_job :: "in_memory_catalog \<Rightarrow> bytes \<Rightarrow> bytes option" where
  "im_job c job_id = hm_get (im_jobs c) job_id"

section \<open>The rebuild protocol of the in-memory catalog\<close>

definition im_begin_rebuild :: "(in_memory_catalog, catalog_error, unit) eff" where
  "im_begin_rebuild = (\<lambda>c.
     if im_rebuild_in_progress c then (Inl ObjectLocationRebuildInProgress, c)
     else (Inr (), c\<lparr>im_objects := [], im_rebuild_in_progress := True\<rparr>))"

definition im_restart_rebuild :: "(in_memory_catalog, catalog_error, unit) eff" where
  "im_restart_rebuild = (\<lambda>c.
     if \<not> im_rebuild_in_progress c then (Inl ObjectLocationRebuildNotInProgress, c)
     else (Inr (), c\<lparr>im_objects := []\<rparr>))"

text \<open>The check that no entry repeats a content id, of the batch or of the catalog.\<close>

fun reject_duplicates :: "(content_id \<Rightarrow> bool) \<Rightarrow> content_id list \<Rightarrow> object_location_entry list
    \<Rightarrow> catalog_error + unit" where
  "reject_duplicates present seen [] = Inr ()"
| "reject_duplicates present seen (entry # entries) =
     (if ole_content_id entry \<in> set seen \<or> present (ole_content_id entry)
      then Inl (DuplicateRebuiltObjectLocation (ole_content_id entry))
      else reject_duplicates present (ole_content_id entry # seen) entries)"

definition im_append_rebuilt :: "object_location_entry list \<Rightarrow> (in_memory_catalog, catalog_error, unit) eff" where
  "im_append_rebuilt entries = (\<lambda>c.
     if \<not> im_rebuild_in_progress c then (Inl ObjectLocationRebuildNotInProgress, c) else
     case reject_duplicates (\<lambda>cid. hm_get (im_objects c) cid \<noteq> None) [] entries of
       Inl e \<Rightarrow> (Inl e, c)
     | Inr _ \<Rightarrow>
         (Inr (), c\<lparr>im_objects :=
            fold (\<lambda>entry. hm_insert (ole_content_id entry) (ole_location entry)) entries (im_objects c)\<rparr>))"

definition im_finish_rebuild :: "(in_memory_catalog, catalog_error, unit) eff" where
  "im_finish_rebuild = (\<lambda>c.
     if \<not> im_rebuild_in_progress c then (Inl ObjectLocationRebuildNotInProgress, c)
     else (Inr (), c\<lparr>im_rebuild_in_progress := False\<rparr>))"

definition im_ops :: "in_memory_catalog catalog_ops" where
  "im_ops = \<lparr>cat_apply = im_apply, cat_object_location = im_object_location,
     cat_rebuild_state = im_rebuild_state, cat_scan_object_locations = im_scan_object_locations,
     cat_scan_oid_aliases = im_scan_oid_aliases, cat_scan_chunks = im_scan_chunks,
     cat_oid_alias = im_oid_alias, cat_repository = im_repository,
     cat_repository_snapshot = im_repository_snapshot,
     cat_repository_snapshots = im_list_repository_snapshots, cat_chunk = im_chunk,
     cat_meta = im_get_meta, cat_workspace = im_workspace, cat_workspace_name = im_workspace_name,
     cat_workspace_pin = im_workspace_pin, cat_workspace_pins = im_list_workspace_pins,
     cat_gc_pins = im_list_gc_pins, cat_job = im_job, cat_begin_rebuild = im_begin_rebuild,
     cat_restart_rebuild = im_restart_rebuild, cat_append_rebuilt = im_append_rebuilt,
     cat_finish_rebuild = im_finish_rebuild\<rparr>"

lemmas im_op_defs = im_apply_def im_object_location_def im_rebuild_state_def im_scan_object_locations_def
  im_scan_oid_aliases_def im_scan_chunks_def im_oid_alias_def im_repository_def im_repository_snapshot_def
  im_list_repository_snapshots_def im_chunk_def im_get_meta_def im_workspace_def im_workspace_name_def
  im_workspace_pin_def im_list_workspace_pins_def im_list_gc_pins_def im_job_def im_begin_rebuild_def
  im_restart_rebuild_def im_append_rebuilt_def im_finish_rebuild_def

end
