(* ===== verification/CatalogSpec.thy ===== *)
theory CatalogSpec
  imports Catalog
begin

text \<open>
  What a catalog promises.  \<open>catalog_view\<close> is the abstract state: one partial map per family and the
  rebuild flag.  The locale \<open>catalog\<close> states the contract of the trait over a view: every mutating
  method either performs its abstract counterpart completely or fails and leaves the view alone,
  every reader returns what the view holds, every scan lists the view in strictly ascending key
  order.  The in-memory catalog satisfies it.
\<close>

section \<open>Abstract catalogs\<close>

record catalog_view =
  v_objects :: "content_id \<rightharpoonup> object_location"
  v_rebuilding :: bool
  v_aliases :: "repo_id \<times> git_oid \<rightharpoonup> content_id"
  v_repositories :: "repo_id \<rightharpoonup> bytes"
  v_snapshots :: "repo_id \<times> snapshot_id \<rightharpoonup> snapshot_visibility"
  v_chunks :: "u32 \<times> u64 \<rightharpoonup> chunk_metadata"
  v_meta :: "bytes \<rightharpoonup> bytes"
  v_workspaces :: "workspace_id \<rightharpoonup> bytes"
  v_workspace_names :: "bytes \<rightharpoonup> workspace_id"
  v_workspace_pins :: "workspace_id \<rightharpoonup> u32"
  v_gc_pins :: "gc_pin_id \<rightharpoonup> u32"
  v_jobs :: "bytes \<rightharpoonup> bytes"

fun view_stage :: "operation \<Rightarrow> catalog_view \<Rightarrow> catalog_error + catalog_view" where
  "view_stage (OpObjectLocation cid location) v = Inr (v\<lparr>v_objects := (v_objects v)(cid \<mapsto> location)\<rparr>)"
| "view_stage (OpChunkMetadata g k m) v = Inr (v\<lparr>v_chunks := (v_chunks v)((g, k) \<mapsto> m)\<rparr>)"
| "view_stage (OpRepository i rec) v = Inr (v\<lparr>v_repositories := (v_repositories v)(i \<mapsto> rec)\<rparr>)"
| "view_stage (OpDeleteRepository i) v = Inr (v\<lparr>v_repositories := (v_repositories v)(i := None)\<rparr>)"
| "view_stage (OpRepositorySnapshot r s vis) v = Inr (v\<lparr>v_snapshots := (v_snapshots v)((r, s) \<mapsto> vis)\<rparr>)"
| "view_stage (OpDeleteRepositorySnapshot r s) v = Inr (v\<lparr>v_snapshots := (v_snapshots v)((r, s) := None)\<rparr>)"
| "view_stage (OpMeta k x) v = Inr (v\<lparr>v_meta := (v_meta v)(k \<mapsto> x)\<rparr>)"
| "view_stage (OpWorkspace i rec) v = Inr (v\<lparr>v_workspaces := (v_workspaces v)(i \<mapsto> rec)\<rparr>)"
| "view_stage (OpWorkspaceName n i) v = Inr (v\<lparr>v_workspace_names := (v_workspace_names v)(n \<mapsto> i)\<rparr>)"
| "view_stage (OpWorkspacePin i g) v = Inr (v\<lparr>v_workspace_pins := (v_workspace_pins v)(i \<mapsto> g)\<rparr>)"
| "view_stage (OpDeleteWorkspacePin i) v = Inr (v\<lparr>v_workspace_pins := (v_workspace_pins v)(i := None)\<rparr>)"
| "view_stage (OpGcPin i g) v = Inr (v\<lparr>v_gc_pins := (v_gc_pins v)(i \<mapsto> g)\<rparr>)"
| "view_stage (OpDeleteGcPin i) v = Inr (v\<lparr>v_gc_pins := (v_gc_pins v)(i := None)\<rparr>)"
| "view_stage (OpJob i rec) v = Inr (v\<lparr>v_jobs := (v_jobs v)(i \<mapsto> rec)\<rparr>)"
| "view_stage (OpOidAlias repo oid cid) v =
     (case v_aliases v (repo, oid) of
        Some existing \<Rightarrow> if existing = cid then Inr v else Inl (AliasConflict repo oid existing cid)
      | None \<Rightarrow> Inr (v\<lparr>v_aliases := (v_aliases v)((repo, oid) \<mapsto> cid)\<rparr>))"

definition view_apply :: "catalog_batch \<Rightarrow> catalog_view \<Rightarrow> catalog_error + catalog_view" where
  "view_apply batch v =
     (if v_rebuilding v then Inl ObjectLocationRebuildInProgress else
      and_then (reject_direct_rebuild_marker_mutation batch) (\<lambda>_.
      fold_result view_stage (operations batch) v))"

definition view_begin :: "catalog_view \<Rightarrow> catalog_error + catalog_view" where
  "view_begin v = (if v_rebuilding v then Inl ObjectLocationRebuildInProgress
     else Inr (v\<lparr>v_objects := Map.empty, v_rebuilding := True\<rparr>))"

definition view_restart :: "catalog_view \<Rightarrow> catalog_error + catalog_view" where
  "view_restart v = (if v_rebuilding v then Inr (v\<lparr>v_objects := Map.empty\<rparr>)
     else Inl ObjectLocationRebuildNotInProgress)"

definition view_append :: "object_location_entry list \<Rightarrow> catalog_view \<Rightarrow> catalog_error + catalog_view" where
  "view_append entries v =
     (if \<not> v_rebuilding v then Inl ObjectLocationRebuildNotInProgress else
      and_then (reject_duplicates (\<lambda>cid. v_objects v cid \<noteq> None) [] entries) (\<lambda>_.
      Inr (v\<lparr>v_objects := v_objects v ++ map_of (map (\<lambda>e. (ole_content_id e, ole_location e)) entries)\<rparr>)))"

definition view_finish :: "catalog_view \<Rightarrow> catalog_error + catalog_view" where
  "view_finish v = (if v_rebuilding v then Inr (v\<lparr>v_rebuilding := False\<rparr>)
     else Inl ObjectLocationRebuildNotInProgress)"

section \<open>Refinement of a mutating method\<close>

definition refines_step ::
  "('c \<Rightarrow> bool) \<Rightarrow> ('c \<Rightarrow> catalog_view) \<Rightarrow> ('c, catalog_error, unit) eff
    \<Rightarrow> (catalog_view \<Rightarrow> catalog_error + catalog_view) \<Rightarrow> bool" where
  "refines_step invar view m f \<longleftrightarrow> (\<forall>c. invar c \<longrightarrow> invar (snd (m c)) \<and>
     (case fst (m c) of
        Inr _ \<Rightarrow> f (view c) = Inr (view (snd (m c)))
      | Inl e \<Rightarrow> view (snd (m c)) = view c \<and> (f (view c) = Inl e \<or> (\<exists>s. e = Backend s))))"

lemma refines_stepD:
  assumes "refines_step invar view m f" and "invar c"
  shows "m c = (r, c') \<Longrightarrow> invar c'"
    and "m c = (Inr u, c') \<Longrightarrow> f (view c) = Inr (view c')"
    and "m c = (Inl e, c') \<Longrightarrow> view c' = view c"
    and "m c = (Inl e, c') \<Longrightarrow> f (view c) = Inl e \<or> (\<exists>s. e = Backend s)"
  using assms(1) [unfolded refines_step_def, rule_format, OF assms(2)] by auto

text \<open>\<open>es\<close> lists the entries that satisfy \<open>P\<close>, in strictly ascending order of \<open>key\<close>.\<close>

definition enumerates :: "('x \<Rightarrow> 'k :: linorder) \<Rightarrow> ('x \<Rightarrow> bool) \<Rightarrow> 'x list \<Rightarrow> bool" where
  "enumerates key P es \<longleftrightarrow> sorted_wrt (<) (map key es) \<and> (\<forall>e. e \<in> set es \<longleftrightarrow> P e)"

lemma enumerates_sort_key:
  assumes "distinct (map key xs)" and "\<And>e. e \<in> set xs \<longleftrightarrow> P e"
  shows "enumerates key P (sort_key key xs)"
proof -
  have "distinct (map key (sort_key key xs))"
    using assms(1) distinct_map [of key xs] distinct_map [of key "sort_key key xs"] by simp
  moreover have "sorted (map key (sort_key key xs))" by simp
  ultimately have "sorted_wrt (<) (map key (sort_key key xs))"
    by (simp only: strict_sorted_iff)
  then show ?thesis using assms(2) by (simp add: enumerates_def)
qed

lemma enumerates_unique:
  assumes "enumerates key P es" and "enumerates key P fs"
  shows "es = fs"
proof -
  have "map key es = map key fs"
    using assms by (intro strict_sorted_equal) (auto simp: enumerates_def)
  moreover have "inj_on key (set es \<union> set fs)"
    using assms by (metis distinct_map enumerates_def strict_sorted_iff Un_absorb set_eqI)
  ultimately show ?thesis by (rule map_inj_on)
qed

section \<open>The contract\<close>

locale catalog =
  fixes ops :: "'c catalog_ops" and invar :: "'c \<Rightarrow> bool" and view :: "'c \<Rightarrow> catalog_view"
  assumes apply_refines: "batch_wf b \<Longrightarrow> refines_step invar view (cat_apply ops b) (view_apply b)"
    and begin_refines: "refines_step invar view (cat_begin_rebuild ops) view_begin"
    and restart_refines: "refines_step invar view (cat_restart_rebuild ops) view_restart"
    and append_refines: "list_all (\<lambda>e. content_id_wf (ole_content_id e)) es \<Longrightarrow>
      refines_step invar view (cat_append_rebuilt ops es) (view_append es)"
    and finish_refines: "refines_step invar view (cat_finish_rebuild ops) view_finish"
    and object_location: "invar c \<Longrightarrow> content_id_wf cid \<Longrightarrow>
      cat_object_location ops c cid = (if v_rebuilding (view c) then None else v_objects (view c) cid)"
    and rebuild_state: "invar c \<Longrightarrow>
      cat_rebuild_state ops c = Inr (if v_rebuilding (view c) then InProgress else Idle)"
    and oid_alias: "invar c \<Longrightarrow> repo_id_wf r \<Longrightarrow> git_oid_wf oid \<Longrightarrow>
      cat_oid_alias ops c r oid = v_aliases (view c) (r, oid)"
    and repository: "invar c \<Longrightarrow> repo_id_wf r \<Longrightarrow> cat_repository ops c r = v_repositories (view c) r"
    and repository_snapshot: "invar c \<Longrightarrow> repo_id_wf r \<Longrightarrow> snapshot_id_wf s \<Longrightarrow>
      cat_repository_snapshot ops c r s = v_snapshots (view c) (r, s)"
    and chunk: "invar c \<Longrightarrow> cat_chunk ops c g k = v_chunks (view c) (g, k)"
    and meta: "invar c \<Longrightarrow> cat_meta ops c key = v_meta (view c) key"
    and workspace: "invar c \<Longrightarrow> workspace_id_wf w \<Longrightarrow> cat_workspace ops c w = v_workspaces (view c) w"
    and workspace_name: "invar c \<Longrightarrow> cat_workspace_name ops c n = v_workspace_names (view c) n"
    and workspace_pin: "invar c \<Longrightarrow> workspace_id_wf w \<Longrightarrow>
      cat_workspace_pin ops c w = v_workspace_pins (view c) w"
    and job: "invar c \<Longrightarrow> cat_job ops c i = v_jobs (view c) i"
    and scan_object_locations: "invar c \<Longrightarrow> \<not> v_rebuilding (view c) \<Longrightarrow>
      \<exists>es. cat_scan_object_locations ops c = map Inr es \<and>
        enumerates (\<lambda>e. content_id_bytes (ole_content_id e))
          (\<lambda>e. v_objects (view c) (ole_content_id e) = Some (ole_location e)) es"
    and scan_oid_aliases: "invar c \<Longrightarrow>
      \<exists>es. cat_scan_oid_aliases ops c = map Inr es \<and>
        enumerates alias_order
          (\<lambda>e. v_aliases (view c) (oae_repository e, oae_oid e) = Some (oae_content_id e)) es"
    and scan_chunks: "invar c \<Longrightarrow> \<not> v_rebuilding (view c) \<Longrightarrow>
      \<exists>es. cat_scan_chunks ops c = map Inr es \<and>
        enumerates (\<lambda>e. (ce_generation e, ce_chunk_id e))
          (\<lambda>e. v_chunks (view c) (ce_generation e, ce_chunk_id e) = Some (ce_metadata e)) es"
    and scans_rebuilding: "invar c \<Longrightarrow> v_rebuilding (view c) \<Longrightarrow>
      cat_scan_object_locations ops c = [Inl ObjectLocationRebuildInProgress] \<and>
      cat_scan_chunks ops c = [Inl ObjectLocationRebuildInProgress]"
    and repository_snapshots: "invar c \<Longrightarrow>
      \<exists>es. cat_repository_snapshots ops c = Inr es \<and>
        enumerates snapshot_order
          (\<lambda>e. v_snapshots (view c) (rs_repository e, rs_snapshot e) = Some (rs_visibility e)) es"
    and workspace_pins: "invar c \<Longrightarrow>
      \<exists>es. cat_workspace_pins ops c = Inr es \<and>
        enumerates (\<lambda>e. e) (\<lambda>(w, g). v_workspace_pins (view c) w = Some g) es"
    and gc_pins: "invar c \<Longrightarrow>
      \<exists>es. cat_gc_pins ops c = Inr es \<and>
        enumerates pin_order (\<lambda>e. v_gc_pins (view c) (pin_id e) = Some (pin_generation e)) es"
    and view_wf: "invar c \<Longrightarrow>
      (\<forall>cid \<in> dom (v_objects (view c)). content_id_wf cid) \<and>
      (\<forall>(r, oid) \<in> dom (v_aliases (view c)). repo_id_wf r \<and> git_oid_wf oid) \<and>
      (\<forall>cid \<in> ran (v_aliases (view c)). content_id_wf cid) \<and>
      (\<forall>(r, s) \<in> dom (v_snapshots (view c)). repo_id_wf r \<and> snapshot_id_wf s)"

end
