(* ===== verification/RocksCatalog.thy ===== *)
theory RocksCatalog
  imports CatalogSpec
begin

text \<open>
  The RocksDB catalog (\<open>crates/reflink-forest-index/src/lib.rs\<close>).  The RocksDB engine is a
  parameter: the record \<open>rocks\<close> of the calls the crate makes, over an engine state.  What the crate
  relies on is \<open>rocks_ok\<close>: column families exist once opened, a read that succeeds returns the
  committed contents, an iterator delivers the contents in key order until it ends or fails, and a
  write batch is applied completely or, if it fails, not at all.
\<close>

section \<open>The engine\<close>

datatype write_op =
    PutCf string bytes bytes
  | DeleteCf string bytes
  | DeleteRangeCf string bytes bytes

record 'd rocks =
  rk_cf_handle :: "'d \<Rightarrow> string \<Rightarrow> bool"
  rk_get :: "'d \<Rightarrow> string \<Rightarrow> bytes \<Rightarrow> string + bytes option"
  rk_iter :: "'d \<Rightarrow> string \<Rightarrow> (string + bytes \<times> bytes) list"
  rk_write :: "write_op list \<Rightarrow> ('d, string, unit) eff"

type_synonym cf_contents = "string \<Rightarrow> bytes \<rightharpoonup> bytes"

fun perform_write :: "write_op \<Rightarrow> cf_contents \<Rightarrow> cf_contents" where
  "perform_write (PutCf cf k v) d = d(cf := (d cf)(k \<mapsto> v))"
| "perform_write (DeleteCf cf k) d = d(cf := (d cf)(k := None))"
| "perform_write (DeleteRangeCf cf lo hi) d = d(cf := (\<lambda>k. if lo \<le> k \<and> k < hi then None else d cf k))"

section \<open>Column families\<close>

definition CF_OBJECT_LOCATIONS :: string where "CF_OBJECT_LOCATIONS = ''object_locations''"
definition CF_OID_ALIASES :: string where "CF_OID_ALIASES = ''oid_aliases''"
definition CF_REPOSITORIES :: string where "CF_REPOSITORIES = ''repositories''"
definition CF_REPO_SNAPSHOTS :: string where "CF_REPO_SNAPSHOTS = ''repo_snapshots''"
definition CF_REFS :: string where "CF_REFS = ''refs''"
definition CF_CHUNKS :: string where "CF_CHUNKS = ''chunks''"
definition CF_CACHE_OBJECTS :: string where "CF_CACHE_OBJECTS = ''cache_objects''"
definition CF_WORKSPACES :: string where "CF_WORKSPACES = ''workspaces''"
definition CF_WORKSPACE_NAMES :: string where "CF_WORKSPACE_NAMES = ''workspace_names''"
definition CF_PINS :: string where "CF_PINS = ''pins''"
definition CF_JOBS :: string where "CF_JOBS = ''jobs''"
definition CF_META :: string where "CF_META = ''meta''"

definition ROCKSDB_COLUMN_FAMILIES :: "string list" where
  "ROCKSDB_COLUMN_FAMILIES = [CF_OBJECT_LOCATIONS, CF_OID_ALIASES, CF_REPOSITORIES, CF_REPO_SNAPSHOTS,
     CF_REFS, CF_CHUNKS, CF_CACHE_OBJECTS, CF_WORKSPACES, CF_WORKSPACE_NAMES, CF_PINS, CF_JOBS, CF_META]"

lemmas cf_names = CF_OBJECT_LOCATIONS_def CF_OID_ALIASES_def CF_REPOSITORIES_def CF_REPO_SNAPSHOTS_def
  CF_REFS_def CF_CHUNKS_def CF_CACHE_OBJECTS_def CF_WORKSPACES_def CF_WORKSPACE_NAMES_def CF_PINS_def
  CF_JOBS_def CF_META_def

definition rocks_ok :: "'d rocks \<Rightarrow> ('d \<Rightarrow> cf_contents) \<Rightarrow> bool" where
  "rocks_ok e contents \<longleftrightarrow>
     (\<forall>d. \<forall>cf \<in> set ROCKSDB_COLUMN_FAMILIES. rk_cf_handle e d cf) \<and>
     (\<forall>d cf k v. rk_get e d cf k = Inr v \<longrightarrow> v = contents d cf k) \<and>
     (\<forall>d cf. \<exists>es. enumerates fst (\<lambda>(k, v). contents d cf k = Some v) es \<and>
        (rk_iter e d cf = map Inr es \<or> (\<exists>n err. rk_iter e d cf = map Inr (take n es) @ [Inl err]))) \<and>
     (\<forall>ws d. case rk_write e ws d of
        (Inr _, d') \<Rightarrow> contents d' = fold perform_write ws (contents d)
      | (Inl _, d') \<Rightarrow> contents d' = contents d)"

text \<open>An engine whose reads succeed.\<close>

definition rocks_reads_ok :: "'d rocks \<Rightarrow> bool" where
  "rocks_reads_ok e \<longleftrightarrow> (\<forall>d cf k. \<exists>v. rk_get e d cf k = Inr v) \<and>
     (\<forall>d cf. \<forall>x \<in> set (rk_iter e d cf). \<exists>kv. x = Inr kv)"

section \<open>Reading\<close>

definition rocks_cf :: "'d rocks \<Rightarrow> 'd \<Rightarrow> string \<Rightarrow> catalog_error + string" where
  "rocks_cf e d name =
     (if rk_cf_handle e d name then Inr name
      else Inl (Backend (''missing RocksDB column family '' @ name)))"

definition rocks_get :: "'d rocks \<Rightarrow> 'd \<Rightarrow> string \<Rightarrow> bytes \<Rightarrow> catalog_error + bytes option" where
  "rocks_get e d cf key = map_err Backend (rk_get e d cf key)"

definition read_object_location_rebuild_state :: "'d rocks \<Rightarrow> 'd \<Rightarrow> catalog_error + rebuild_state" where
  "read_object_location_rebuild_state e d =
     and_then (rocks_cf e d CF_META) (\<lambda>meta_cf.
     and_then (rocks_get e d meta_cf (encode_meta_key OBJECT_LOCATION_REBUILD_META_KEY)) (\<lambda>v.
     case v of None \<Rightarrow> Inr Idle | Some v \<Rightarrow> decode_object_location_rebuild_marker v))"

text \<open>\<open>get_cf(...).ok()??\<close> followed by the decoder and \<open>.ok()\<close>, shared by the point readers.\<close>

definition rocks_lookup ::
  "'d rocks \<Rightarrow> 'd \<Rightarrow> string \<Rightarrow> bytes \<Rightarrow> (bytes \<Rightarrow> catalog_error + 'v) \<Rightarrow> 'v option" where
  "rocks_lookup e d name key dec =
     (case ok (rocks_cf e d name) of
        None \<Rightarrow> None
      | Some cf \<Rightarrow>
        (case ok (rocks_get e d cf key) of
           None \<Rightarrow> None
         | Some None \<Rightarrow> None
         | Some (Some v) \<Rightarrow> ok (dec v)))"

definition rocks_object_location :: "'d rocks \<Rightarrow> 'd \<Rightarrow> content_id \<Rightarrow> object_location option" where
  "rocks_object_location e d cid =
     (case ok (read_object_location_rebuild_state e d) of
        None \<Rightarrow> None
      | Some state \<Rightarrow>
        if state \<noteq> Idle then None
        else rocks_lookup e d CF_OBJECT_LOCATIONS (encode_object_location_key cid) decode_object_location_value)"

definition rocks_oid_alias :: "'d rocks \<Rightarrow> 'd \<Rightarrow> repo_id \<Rightarrow> git_oid \<Rightarrow> content_id option" where
  "rocks_oid_alias e d repo oid =
     rocks_lookup e d CF_OID_ALIASES (encode_oid_alias_key repo oid) decode_content_id_value"
definition rocks_repository :: "'d rocks \<Rightarrow> 'd \<Rightarrow> repo_id \<Rightarrow> bytes option" where
  "rocks_repository e d i = rocks_lookup e d CF_REPOSITORIES (encode_repository_key i) decode_opaque_value"
definition rocks_repository_snapshot ::
  "'d rocks \<Rightarrow> 'd \<Rightarrow> repo_id \<Rightarrow> snapshot_id \<Rightarrow> snapshot_visibility option" where
  "rocks_repository_snapshot e d repository snapshot =
     rocks_lookup e d CF_REPO_SNAPSHOTS (encode_repository_snapshot_key repository snapshot)
       decode_snapshot_visibility_value"
definition rocks_chunk :: "'d rocks \<Rightarrow> 'd \<Rightarrow> u32 \<Rightarrow> u64 \<Rightarrow> chunk_metadata option" where
  "rocks_chunk e d generation chunk_id =
     rocks_lookup e d CF_CHUNKS (encode_chunk_key generation chunk_id) decode_chunk_value"
definition rocks_meta :: "'d rocks \<Rightarrow> 'd \<Rightarrow> bytes \<Rightarrow> bytes option" where
  "rocks_meta e d key =
     (if key = OBJECT_LOCATION_REBUILD_META_KEY then None
      else rocks_lookup e d CF_META (encode_meta_key key) decode_opaque_value)"
definition rocks_workspace :: "'d rocks \<Rightarrow> 'd \<Rightarrow> workspace_id \<Rightarrow> bytes option" where
  "rocks_workspace e d i = rocks_lookup e d CF_WORKSPACES (encode_workspace_key i) decode_opaque_value"
definition rocks_workspace_name :: "'d rocks \<Rightarrow> 'd \<Rightarrow> bytes \<Rightarrow> workspace_id option" where
  "rocks_workspace_name e d name =
     rocks_lookup e d CF_WORKSPACE_NAMES (encode_workspace_name_key name) decode_workspace_id_value"
definition rocks_workspace_pin :: "'d rocks \<Rightarrow> 'd \<Rightarrow> workspace_id \<Rightarrow> u32 option" where
  "rocks_workspace_pin e d i =
     rocks_lookup e d CF_PINS (encode_workspace_pin_key i) decode_workspace_pin_value"
definition rocks_job :: "'d rocks \<Rightarrow> 'd \<Rightarrow> bytes \<Rightarrow> bytes option" where
  "rocks_job e d job_id = rocks_lookup e d CF_JOBS (encode_job_key job_id) decode_opaque_value"

text \<open>An iteration over a column family: its steps, each decoded by \<open>dec\<close>.\<close>

definition rocks_scan ::
  "'d rocks \<Rightarrow> 'd \<Rightarrow> string \<Rightarrow> (bytes \<Rightarrow> bytes \<Rightarrow> catalog_error + 'x) \<Rightarrow> (catalog_error + 'x) list" where
  "rocks_scan e d name dec =
     (case rocks_cf e d name of
        Inl err \<Rightarrow> [Inl err]
      | Inr cf \<Rightarrow> map (\<lambda>entry. and_then (map_err Backend entry) (\<lambda>(key, v). dec key v)) (rk_iter e d cf))"

definition rocks_scan_object_locations :: "'d rocks \<Rightarrow> 'd \<Rightarrow> (catalog_error + object_location_entry) list" where
  "rocks_scan_object_locations e d =
     (case read_object_location_rebuild_state e d of
        Inl err \<Rightarrow> [Inl err]
      | Inr state \<Rightarrow>
        if state = InProgress then [Inl ObjectLocationRebuildInProgress]
        else rocks_scan e d CF_OBJECT_LOCATIONS (\<lambda>key v.
          and_then (decode_object_location_key key) (\<lambda>cid.
          and_then (decode_object_location_value v) (\<lambda>location.
          Inr \<lparr>ole_content_id = cid, ole_location = location\<rparr>))))"

definition rocks_scan_oid_aliases :: "'d rocks \<Rightarrow> 'd \<Rightarrow> (catalog_error + oid_alias_entry) list" where
  "rocks_scan_oid_aliases e d = rocks_scan e d CF_OID_ALIASES (\<lambda>key v.
     and_then (decode_oid_alias_key key) (\<lambda>(repository, oid).
     and_then (decode_content_id_value v) (\<lambda>cid.
     Inr \<lparr>oae_repository = repository, oae_oid = oid, oae_content_id = cid\<rparr>)))"

definition rocks_scan_chunks :: "'d rocks \<Rightarrow> 'd \<Rightarrow> (catalog_error + chunk_entry) list" where
  "rocks_scan_chunks e d =
     (case read_object_location_rebuild_state e d of
        Inl err \<Rightarrow> [Inl err]
      | Inr state \<Rightarrow>
        if state = InProgress then [Inl ObjectLocationRebuildInProgress]
        else rocks_scan e d CF_CHUNKS (\<lambda>key v.
          and_then (decode_chunk_key key) (\<lambda>(generation, chunk_id).
          and_then (decode_chunk_value v) (\<lambda>metadata.
          Inr \<lparr>ce_generation = generation, ce_chunk_id = chunk_id, ce_metadata = metadata\<rparr>))))"

text \<open>A loop that pushes the decoded entries, or returns the first error.\<close>

fun collect_scan :: "('e + 'x) list \<Rightarrow> 'e + 'x list" where
  "collect_scan [] = Inr []"
| "collect_scan (Inl err # scan) = Inl err"
| "collect_scan (Inr x # scan) = and_then (collect_scan scan) (\<lambda>xs. Inr (x # xs))"

definition rocks_list_repository_snapshots :: "'d rocks \<Rightarrow> 'd \<Rightarrow> catalog_error + repository_snapshot list" where
  "rocks_list_repository_snapshots e d =
     and_then (collect_scan (rocks_scan e d CF_REPO_SNAPSHOTS (\<lambda>key v.
       and_then (decode_repository_snapshot_key key) (\<lambda>(repository, snapshot).
       and_then (decode_snapshot_visibility_value v) (\<lambda>visibility.
       Inr \<lparr>rs_repository = repository, rs_snapshot = snapshot, rs_visibility = visibility\<rparr>)))))
     (\<lambda>snapshots. Inr (sort_key snapshot_order snapshots))"

definition rocks_list_workspace_pins :: "'d rocks \<Rightarrow> 'd \<Rightarrow> catalog_error + (workspace_id \<times> u32) list" where
  "rocks_list_workspace_pins e d =
     and_then (collect_scan (rocks_scan e d CF_PINS (\<lambda>key v.
       if length key = 17 then
         and_then (decode_workspace_pin_key key) (\<lambda>workspace.
         and_then (decode_workspace_pin_value v) (\<lambda>generation.
         Inr [(workspace, generation)]))
       else if length key \<noteq> 18 then Inl InvalidEncoding else Inr [])))
     (\<lambda>pins. Inr (sort (concat pins)))"

definition rocks_list_gc_pins :: "'d rocks \<Rightarrow> 'd \<Rightarrow> catalog_error + gc_pin list" where
  "rocks_list_gc_pins e d =
     and_then (collect_scan (rocks_scan e d CF_PINS (\<lambda>key v.
       if length key = 18 then
         and_then (decode_gc_pin_key key) (\<lambda>i.
         and_then (decode_gc_pin_value v) (\<lambda>generation.
         Inr [\<lparr>pin_id = i, pin_generation = generation\<rparr>]))
       else if length key \<noteq> 17 then Inl InvalidEncoding else Inr [])))
     (\<lambda>pins. Inr (sort_key pin_order (concat pins)))"

section \<open>Validation\<close>

definition validate_entries ::
  "'d rocks \<Rightarrow> 'd \<Rightarrow> string \<Rightarrow> (bytes \<Rightarrow> bytes \<Rightarrow> catalog_error + unit) \<Rightarrow> catalog_error + unit" where
  "validate_entries e d name validate =
     and_then (collect_scan (rocks_scan e d name validate)) (\<lambda>_. Inr ())"

definition decodes :: "(bytes \<Rightarrow> catalog_error + 'k) \<Rightarrow> (bytes \<Rightarrow> catalog_error + 'v) \<Rightarrow> bytes \<Rightarrow> bytes
    \<Rightarrow> catalog_error + unit" where
  "decodes deck decv key v = and_then (deck key) (\<lambda>_. and_then (decv v) (\<lambda>_. Inr ()))"

definition validate_pin :: "bytes \<Rightarrow> bytes \<Rightarrow> catalog_error + unit" where
  "validate_pin key v =
     (if length key = 17 then decodes decode_workspace_pin_key decode_workspace_pin_value key v
      else if length key = 18 then decodes decode_gc_pin_key decode_gc_pin_value key v
      else Inl InvalidEncoding)"

definition validate_meta :: "bytes \<Rightarrow> bytes \<Rightarrow> catalog_error + unit" where
  "validate_meta key v =
     and_then (decode_meta_key key) (\<lambda>key.
     if key = CURRENT_GENERATION_META_KEY then and_then (decode_current_generation_value v) (\<lambda>_. Inr ())
     else if key = OBJECT_LOCATION_REBUILD_META_KEY
       then and_then (decode_object_location_rebuild_marker v) (\<lambda>_. Inr ())
     else and_then (decode_opaque_value v) (\<lambda>_. Inr ()))"

definition rocks_validate :: "'d rocks \<Rightarrow> 'd \<Rightarrow> catalog_error + unit" where
  "rocks_validate e d =
     and_then (validate_entries e d CF_OBJECT_LOCATIONS (decodes decode_object_location_key decode_object_location_value)) (\<lambda>_.
     and_then (validate_entries e d CF_OID_ALIASES (decodes decode_oid_alias_key decode_content_id_value)) (\<lambda>_.
     and_then (validate_entries e d CF_REPOSITORIES (decodes decode_repository_key decode_opaque_value)) (\<lambda>_.
     and_then (validate_entries e d CF_REPO_SNAPSHOTS
       (decodes decode_repository_snapshot_key decode_snapshot_visibility_value)) (\<lambda>_.
     and_then (validate_entries e d CF_REFS (decodes decode_opaque_key decode_opaque_value)) (\<lambda>_.
     and_then (validate_entries e d CF_CHUNKS (decodes decode_chunk_key decode_chunk_value)) (\<lambda>_.
     and_then (validate_entries e d CF_CACHE_OBJECTS (decodes decode_opaque_key decode_opaque_value)) (\<lambda>_.
     and_then (validate_entries e d CF_WORKSPACES (decodes decode_workspace_key decode_opaque_value)) (\<lambda>_.
     and_then (validate_entries e d CF_WORKSPACE_NAMES (decodes decode_workspace_name_key decode_workspace_id_value)) (\<lambda>_.
     and_then (validate_entries e d CF_PINS validate_pin) (\<lambda>_.
     and_then (validate_entries e d CF_JOBS (decodes decode_job_key decode_opaque_value)) (\<lambda>_.
     validate_entries e d CF_META validate_meta)))))))))))"

section \<open>Writing\<close>

definition rocks_write_sync :: "'d rocks \<Rightarrow> write_op list \<Rightarrow> ('d, catalog_error, unit) eff" where
  "rocks_write_sync e writes = (\<lambda>d. case rk_write e writes d of (r, d') \<Rightarrow> (map_err Backend r, d'))"

text \<open>The conflict check of \<open>apply\<close>, with the aliases this batch has set so far.\<close>

fun check_alias_conflicts ::
  "'d rocks \<Rightarrow> 'd \<Rightarrow> operation list \<Rightarrow> (repo_id \<times> git_oid, content_id) hash_map \<Rightarrow> catalog_error + unit" where
  "check_alias_conflicts e d [] pending = Inr ()"
| "check_alias_conflicts e d (OpOidAlias repo oid requested # os) pending =
     and_then (case hm_get pending (repo, oid) of
         Some cid \<Rightarrow> Inr (Some cid)
       | None \<Rightarrow>
           and_then (rocks_get e d CF_OID_ALIASES (encode_oid_alias_key repo oid)) (\<lambda>v.
           case v of None \<Rightarrow> Inr None | Some v \<Rightarrow> and_then (decode_content_id_value v) (\<lambda>cid. Inr (Some cid))))
       (\<lambda>existing.
         case existing of
           Some existing \<Rightarrow>
             if existing \<noteq> requested then Inl (AliasConflict repo oid existing requested)
             else check_alias_conflicts e d os (hm_insert (repo, oid) requested pending)
         | None \<Rightarrow> check_alias_conflicts e d os (hm_insert (repo, oid) requested pending))"
| "check_alias_conflicts e d (op # os) pending = check_alias_conflicts e d os pending"

fun write_of :: "operation \<Rightarrow> write_op" where
  "write_of (OpObjectLocation cid location) =
     PutCf CF_OBJECT_LOCATIONS (encode_object_location_key cid) (encode_object_location_value location)"
| "write_of (OpOidAlias repo oid cid) =
     PutCf CF_OID_ALIASES (encode_oid_alias_key repo oid) (encode_content_id_value cid)"
| "write_of (OpRepository i rec) = PutCf CF_REPOSITORIES (encode_repository_key i) (encode_opaque_value rec)"
| "write_of (OpDeleteRepository i) = DeleteCf CF_REPOSITORIES (encode_repository_key i)"
| "write_of (OpRepositorySnapshot repository snapshot visibility) =
     PutCf CF_REPO_SNAPSHOTS (encode_repository_snapshot_key repository snapshot)
       (encode_snapshot_visibility_value visibility)"
| "write_of (OpDeleteRepositorySnapshot repository snapshot) =
     DeleteCf CF_REPO_SNAPSHOTS (encode_repository_snapshot_key repository snapshot)"
| "write_of (OpChunkMetadata generation chunk_id metadata) =
     PutCf CF_CHUNKS (encode_chunk_key generation chunk_id) (encode_chunk_value metadata)"
| "write_of (OpMeta key v) = PutCf CF_META (encode_meta_key key) (encode_opaque_value v)"
| "write_of (OpWorkspace i rec) = PutCf CF_WORKSPACES (encode_workspace_key i) (encode_opaque_value rec)"
| "write_of (OpWorkspaceName name i) =
     PutCf CF_WORKSPACE_NAMES (encode_workspace_name_key name) (encode_workspace_id_value i)"
| "write_of (OpWorkspacePin i generation) =
     PutCf CF_PINS (encode_workspace_pin_key i) (encode_workspace_pin_value generation)"
| "write_of (OpDeleteWorkspacePin i) = DeleteCf CF_PINS (encode_workspace_pin_key i)"
| "write_of (OpGcPin i generation) = PutCf CF_PINS (encode_gc_pin_key i) (encode_gc_pin_value generation)"
| "write_of (OpDeleteGcPin i) = DeleteCf CF_PINS (encode_gc_pin_key i)"
| "write_of (OpJob job_id rec) = PutCf CF_JOBS (encode_job_key job_id) (encode_opaque_value rec)"

text \<open>The column families \<open>apply\<close> looks up before it does anything else.\<close>

definition apply_families :: "string list" where
  "apply_families = [CF_OBJECT_LOCATIONS, CF_OID_ALIASES, CF_REPOSITORIES, CF_REPO_SNAPSHOTS, CF_CHUNKS,
     CF_META, CF_WORKSPACES, CF_WORKSPACE_NAMES, CF_PINS, CF_JOBS]"

definition rocks_apply :: "'d rocks \<Rightarrow> catalog_batch \<Rightarrow> ('d, catalog_error, unit) eff" where
  "rocks_apply e batch = (\<lambda>d.
     case and_then (read_object_location_rebuild_state e d) (\<lambda>state.
          if state = InProgress then Inl ObjectLocationRebuildInProgress else
          and_then (reject_direct_rebuild_marker_mutation batch) (\<lambda>_.
          and_then (fold_result (\<lambda>cf _. and_then (rocks_cf e d cf) (\<lambda>_. Inr ())) apply_families ()) (\<lambda>_.
          check_alias_conflicts e d (operations batch) []))) of
       Inl err \<Rightarrow> (Inl err, d)
     | Inr _ \<Rightarrow> rocks_write_sync e (map write_of (operations batch)) d)"

definition clear_object_locations_and_mark_rebuild :: "'d rocks \<Rightarrow> ('d, catalog_error, unit) eff" where
  "clear_object_locations_and_mark_rebuild e = (\<lambda>d.
     case and_then (rocks_cf e d CF_OBJECT_LOCATIONS) (\<lambda>object_cf.
          and_then (rocks_cf e d CF_META) (\<lambda>meta_cf. Inr (object_cf, meta_cf))) of
       Inl err \<Rightarrow> (Inl err, d)
     | Inr (object_cf, meta_cf) \<Rightarrow>
         rocks_write_sync e
           [DeleteRangeCf object_cf [CATALOG_VERSION] [CATALOG_VERSION + 1],
            PutCf meta_cf (encode_meta_key OBJECT_LOCATION_REBUILD_META_KEY)
              (encode_opaque_value [OBJECT_LOCATION_REBUILD_IN_PROGRESS_MARKER])] d)"

definition rocks_begin_rebuild :: "'d rocks \<Rightarrow> ('d, catalog_error, unit) eff" where
  "rocks_begin_rebuild e = (\<lambda>d.
     case read_object_location_rebuild_state e d of
       Inl err \<Rightarrow> (Inl err, d)
     | Inr state \<Rightarrow>
         if state = InProgress then (Inl ObjectLocationRebuildInProgress, d)
         else clear_object_locations_and_mark_rebuild e d)"

definition rocks_restart_rebuild :: "'d rocks \<Rightarrow> ('d, catalog_error, unit) eff" where
  "rocks_restart_rebuild e = (\<lambda>d.
     case read_object_location_rebuild_state e d of
       Inl err \<Rightarrow> (Inl err, d)
     | Inr state \<Rightarrow>
         if state \<noteq> InProgress then (Inl ObjectLocationRebuildNotInProgress, d)
         else clear_object_locations_and_mark_rebuild e d)"

fun rocks_reject_duplicates ::
  "'d rocks \<Rightarrow> 'd \<Rightarrow> string \<Rightarrow> content_id list \<Rightarrow> object_location_entry list \<Rightarrow> catalog_error + unit" where
  "rocks_reject_duplicates e d cf seen [] = Inr ()"
| "rocks_reject_duplicates e d cf seen (entry # entries) =
     (if ole_content_id entry \<in> set seen
      then Inl (DuplicateRebuiltObjectLocation (ole_content_id entry))
      else and_then (rocks_get e d cf (encode_object_location_key (ole_content_id entry))) (\<lambda>v.
        if v \<noteq> None then Inl (DuplicateRebuiltObjectLocation (ole_content_id entry))
        else rocks_reject_duplicates e d cf (ole_content_id entry # seen) entries))"

definition rocks_append_rebuilt :: "'d rocks \<Rightarrow> object_location_entry list \<Rightarrow> ('d, catalog_error, unit) eff" where
  "rocks_append_rebuilt e entries = (\<lambda>d.
     case and_then (read_object_location_rebuild_state e d) (\<lambda>state.
          if state \<noteq> InProgress then Inl ObjectLocationRebuildNotInProgress else
          and_then (rocks_cf e d CF_OBJECT_LOCATIONS) (\<lambda>object_cf.
          and_then (rocks_reject_duplicates e d object_cf [] entries) (\<lambda>_. Inr object_cf))) of
       Inl err \<Rightarrow> (Inl err, d)
     | Inr object_cf \<Rightarrow>
         rocks_write_sync e
           (map (\<lambda>entry. PutCf object_cf (encode_object_location_key (ole_content_id entry))
              (encode_object_location_value (ole_location entry))) entries) d)"

definition rocks_finish_rebuild :: "'d rocks \<Rightarrow> ('d, catalog_error, unit) eff" where
  "rocks_finish_rebuild e = (\<lambda>d.
     case and_then (read_object_location_rebuild_state e d) (\<lambda>state.
          if state \<noteq> InProgress then Inl ObjectLocationRebuildNotInProgress else rocks_cf e d CF_META) of
       Inl err \<Rightarrow> (Inl err, d)
     | Inr meta_cf \<Rightarrow>
         rocks_write_sync e [DeleteCf meta_cf (encode_meta_key OBJECT_LOCATION_REBUILD_META_KEY)] d)"

definition rocks_ops :: "'d rocks \<Rightarrow> 'd catalog_ops" where
  "rocks_ops e = \<lparr>cat_apply = rocks_apply e, cat_object_location = rocks_object_location e,
     cat_rebuild_state = read_object_location_rebuild_state e,
     cat_scan_object_locations = rocks_scan_object_locations e,
     cat_scan_oid_aliases = rocks_scan_oid_aliases e, cat_scan_chunks = rocks_scan_chunks e,
     cat_oid_alias = rocks_oid_alias e, cat_repository = rocks_repository e,
     cat_repository_snapshot = rocks_repository_snapshot e,
     cat_repository_snapshots = rocks_list_repository_snapshots e, cat_chunk = rocks_chunk e,
     cat_meta = rocks_meta e, cat_workspace = rocks_workspace e,
     cat_workspace_name = rocks_workspace_name e, cat_workspace_pin = rocks_workspace_pin e,
     cat_workspace_pins = rocks_list_workspace_pins e, cat_gc_pins = rocks_list_gc_pins e,
     cat_job = rocks_job e, cat_begin_rebuild = rocks_begin_rebuild e,
     cat_restart_rebuild = rocks_restart_rebuild e, cat_append_rebuilt = rocks_append_rebuilt e,
     cat_finish_rebuild = rocks_finish_rebuild e\<rparr>"

definition validate_checkpoint ::
  "'d rocks \<Rightarrow> string + 'd \<Rightarrow> catalog_error + u32 option" where
  "validate_checkpoint e opened =
     and_then (map_err Backend opened) (\<lambda>d.
     and_then (rocks_validate e d) (\<lambda>_. Inr (current_generation (rocks_ops e) d)))"

end
