(* ===== verification/CatalogMem.thy ===== *)
theory CatalogMem
  imports CatalogSpec
begin

text \<open>
  The in-memory catalog fulfils the contract of the trait: its invariant (hash maps with distinct,
  well-formed keys, no metadata under the reserved rebuild key) and its abstraction to a view.
\<close>

definition keys_wf :: "('k \<Rightarrow> bool) \<Rightarrow> ('k, 'v) hash_map \<Rightarrow> bool" where
  "keys_wf P m \<longleftrightarrow> hm_wf m \<and> (\<forall>k \<in> set (map fst m). P k)"

lemma keys_wf_Nil [simp]: "keys_wf P []"
  by (simp add: keys_wf_def)

lemma keys_wf_insert [simp]: "keys_wf P m \<Longrightarrow> P k \<Longrightarrow> keys_wf P (hm_insert k v m)"
  by (auto simp: keys_wf_def hm_insert_def hm_wf_def distinct_update dom_update)

lemma keys_wf_remove [simp]: "keys_wf P m \<Longrightarrow> keys_wf P (hm_remove k m)"
  using hm_wf_remove [of m k] by (auto simp: keys_wf_def hm_remove_def AList.delete_eq)

lemma keys_wfD: "keys_wf P m \<Longrightarrow> hm_wf m"
  by (simp add: keys_wf_def)

lemma keys_wf_get: "keys_wf P m \<Longrightarrow> hm_get m k = Some v \<Longrightarrow> P k"
  by (force simp: keys_wf_def hm_get_def dest: map_of_SomeD)

definition vals_wf :: "('v \<Rightarrow> bool) \<Rightarrow> ('k, 'v) hash_map \<Rightarrow> bool" where
  "vals_wf P m \<longleftrightarrow> (\<forall>k v. hm_get m k = Some v \<longrightarrow> P v)"

lemma vals_wf_Nil [simp]: "vals_wf P []"
  by (simp add: vals_wf_def)

lemma vals_wf_insert [simp]: "vals_wf P m \<Longrightarrow> P v \<Longrightarrow> vals_wf P (hm_insert k v m)"
  by (auto simp: vals_wf_def)

definition im_wf :: "in_memory_catalog \<Rightarrow> bool" where
  "im_wf c \<longleftrightarrow> keys_wf content_id_wf (im_objects c) \<and> keys_wf alias_key_wf (im_aliases c) \<and>
     vals_wf content_id_wf (im_aliases c) \<and>
     keys_wf repo_id_wf (im_repositories c) \<and> keys_wf snapshot_key_wf (im_repository_snapshots c) \<and>
     keys_wf (\<lambda>_. True) (im_chunks c) \<and>
     keys_wf (\<lambda>k. k \<noteq> OBJECT_LOCATION_REBUILD_META_KEY) (im_meta c) \<and>
     keys_wf workspace_id_wf (im_workspaces c) \<and>
     keys_wf (\<lambda>_. True) (im_workspace_names c) \<and>
     vals_wf workspace_id_wf (im_workspace_names c) \<and>
     keys_wf workspace_id_wf (im_workspace_pins c) \<and>
     keys_wf gc_pin_id_wf (im_gc_pins c) \<and> keys_wf (\<lambda>_. True) (im_jobs c)"

definition im_view :: "in_memory_catalog \<Rightarrow> catalog_view" where
  "im_view c = \<lparr>v_objects = hm_get (im_objects c), v_rebuilding = im_rebuild_in_progress c,
     v_aliases = hm_get (im_aliases c), v_repositories = hm_get (im_repositories c),
     v_snapshots = hm_get (im_repository_snapshots c), v_chunks = hm_get (im_chunks c),
     v_meta = hm_get (im_meta c), v_workspaces = hm_get (im_workspaces c),
     v_workspace_names = hm_get (im_workspace_names c), v_workspace_pins = hm_get (im_workspace_pins c),
     v_gc_pins = hm_get (im_gc_pins c), v_jobs = hm_get (im_jobs c)\<rparr>"

lemma hm_get_insert_fun [simp]: "hm_get (hm_insert k v m) = (hm_get m)(k \<mapsto> v)"
  by (rule ext) simp

lemma hm_get_remove_fun [simp]: "hm_get (hm_remove k m) = (hm_get m)(k := None)"
  by (rule ext) simp

lemma im_view_stage:
  "(case im_stage op c of Inl e \<Rightarrow> Inl e | Inr c' \<Rightarrow> Inr (im_view c')) = view_stage op (im_view c)"
  by (cases op) (auto simp: im_view_def fun_upd_idem split: option.splits)

lemma im_stage_wf:
  assumes "im_stage op c = Inr c'" and "operation_wf op" and "im_wf c"
    and "\<And>k v. op = OpMeta k v \<Longrightarrow> k \<noteq> OBJECT_LOCATION_REBUILD_META_KEY"
  shows "im_wf c'"
proof (cases op)
  case (OpOidAlias repo oid cid)
  then have "c' = c\<lparr>im_aliases := hm_insert (repo, oid) cid (im_aliases c)\<rparr>"
    using assms(1) by (auto split: option.splits if_splits)
  then show ?thesis using assms(2,3) OpOidAlias by (simp add: im_wf_def alias_key_wf_def)
qed (use assms in \<open>auto simp: im_wf_def snapshot_key_wf_def\<close>)

lemma im_stage_rebuild [simp]:
  "im_stage op c = Inr c' \<Longrightarrow> im_rebuild_in_progress c' = im_rebuild_in_progress c"
  by (cases op) (auto split: option.splits if_splits)

lemma fold_im_stage:
  "(case fold_result im_stage os c of Inl e \<Rightarrow> Inl e | Inr c' \<Rightarrow> Inr (im_view c'))
    = fold_result view_stage os (im_view c)"
proof (induction os arbitrary: c)
  case (Cons op os)
  show ?case
  proof (cases "im_stage op c")
    case (Inl e)
    then show ?thesis using im_view_stage [of op c] by (simp flip: im_view_stage)
  next
    case (Inr c')
    then show ?thesis using Cons [of c'] im_view_stage [of op c] by (simp flip: im_view_stage)
  qed
qed simp

lemma reject_ok_iff [ok_iff]:
  "reject_direct_rebuild_marker_mutation b = Inr u \<longleftrightarrow>
    (\<forall>k v. OpMeta k v \<in> set (operations b) \<longrightarrow> k \<noteq> OBJECT_LOCATION_REBUILD_META_KEY)"
proof -
  have "(case op of OpMeta key _ \<Rightarrow> key = OBJECT_LOCATION_REBUILD_META_KEY | _ \<Rightarrow> False) \<longleftrightarrow>
      (\<exists>v. op = OpMeta OBJECT_LOCATION_REBUILD_META_KEY v)" for op
    by (cases op) auto
  then show ?thesis by (auto simp: reject_direct_rebuild_marker_mutation_def list_ex_iff)
qed

lemma im_apply_refines: "batch_wf b \<Longrightarrow> refines_step im_wf im_view (im_apply b) (view_apply b)"
  unfolding refines_step_def
proof (intro allI impI)
  fix c
  assume b: "batch_wf b" and wf: "im_wf c"
  have reb: "v_rebuilding (im_view c) = im_rebuild_in_progress c" by (simp add: im_view_def)
  show "im_wf (snd (im_apply b c)) \<and>
    (case fst (im_apply b c) of Inl e \<Rightarrow> im_view (snd (im_apply b c)) = im_view c \<and>
        (view_apply b (im_view c) = Inl e \<or> (\<exists>s. e = Backend s))
     | Inr _ \<Rightarrow> view_apply b (im_view c) = Inr (im_view (snd (im_apply b c))))"
  proof (cases "im_rebuild_in_progress c")
    case True
    then show ?thesis using wf by (simp add: im_apply_def view_apply_def reb)
  next
    case idle: False
    show ?thesis
    proof (cases "reject_direct_rebuild_marker_mutation b")
      case (Inl e)
      then show ?thesis using wf idle by (simp add: im_apply_def view_apply_def reb)
    next
      case (Inr u)
      note fold = fold_im_stage [of "operations b" c]
      show ?thesis
      proof (cases "fold_result im_stage (operations b) c")
        case (Inl e)
        then show ?thesis using wf idle Inr fold by (simp add: im_apply_def view_apply_def reb)
      next
        case staged: (Inr c')
        have "im_wf c'"
        proof (rule fold_result_invariant [where P = im_wf, OF _ wf staged])
          fix op s t
          assume "op \<in> set (operations b)" "im_wf s" "im_stage op s = Inr t"
          then show "im_wf t"
            using b Inr by (intro im_stage_wf [of op s t]) (auto simp: batch_wf_def list_all_iff ok_iff)
        qed
        then show ?thesis using idle Inr staged fold by (simp add: im_apply_def view_apply_def reb)
      qed
    qed
  qed
qed

lemma im_apply_fst:
  "fst (im_apply b c) = (case view_apply b (im_view c) of Inl e \<Rightarrow> Inl e | Inr _ \<Rightarrow> Inr ())"
proof -
  have "v_rebuilding (im_view c) = im_rebuild_in_progress c" by (simp add: im_view_def)
  then show ?thesis
    using fold_im_stage [of "operations b" c]
    by (auto simp: im_apply_def view_apply_def simp flip: fold_im_stage split: sum.splits)
qed

lemma reject_duplicates_ok:
  "reject_duplicates present seen es = Inr u \<longleftrightarrow>
    distinct (map ole_content_id es) \<and>
    (\<forall>e \<in> set es. ole_content_id e \<notin> set seen \<and> \<not> present (ole_content_id e))"
  by (induction es arbitrary: seen) (auto intro: rev_image_eqI)

lemma fold_insert_entries:
  assumes "distinct (map ole_content_id es)"
  shows "hm_get (fold (\<lambda>e. hm_insert (ole_content_id e) (ole_location e)) es m)
    = hm_get m ++ map_of (map (\<lambda>e. (ole_content_id e, ole_location e)) es)"
  using assms
proof (induction es arbitrary: m)
  case (Cons e es)
  have "map_of (map (\<lambda>e. (ole_content_id e, ole_location e)) es) (ole_content_id e) = None"
    using Cons.prems by (auto simp: map_of_eq_None_iff)
  then show ?case using Cons by (auto simp: fun_eq_iff map_add_def split: option.splits)
qed (simp add: map_add_def)

lemma fold_insert_wf:
  "keys_wf content_id_wf m \<Longrightarrow> list_all (\<lambda>e. content_id_wf (ole_content_id e)) es \<Longrightarrow>
   keys_wf content_id_wf (fold (\<lambda>e. hm_insert (ole_content_id e) (ole_location e)) es m)"
  by (induction es arbitrary: m) simp_all

lemma im_append_refines:
  assumes "list_all (\<lambda>e. content_id_wf (ole_content_id e)) es"
  shows "refines_step im_wf im_view (im_append_rebuilt es) (view_append es)"
  unfolding refines_step_def
proof (intro allI impI)
  fix c
  assume wf: "im_wf c"
  have [simp]: "v_rebuilding (im_view c) = im_rebuild_in_progress c" "v_objects (im_view c) = hm_get (im_objects c)"
    by (simp_all add: im_view_def)
  show "im_wf (snd (im_append_rebuilt es c)) \<and>
    (case fst (im_append_rebuilt es c) of Inl e \<Rightarrow> im_view (snd (im_append_rebuilt es c)) = im_view c \<and>
        (view_append es (im_view c) = Inl e \<or> (\<exists>s. e = Backend s))
     | Inr _ \<Rightarrow> view_append es (im_view c) = Inr (im_view (snd (im_append_rebuilt es c))))"
  proof (cases "im_rebuild_in_progress c \<and>
      is_ok (reject_duplicates (\<lambda>cid. hm_get (im_objects c) cid \<noteq> None) [] es)")
    case False
    then show ?thesis
      using wf by (cases "reject_duplicates (\<lambda>cid. hm_get (im_objects c) cid \<noteq> None) [] es")
        (auto simp: im_append_rebuilt_def view_append_def)
  next
    case True
    then have ok: "reject_duplicates (\<lambda>cid. hm_get (im_objects c) cid \<noteq> None) [] es = Inr ()"
      by (auto simp: is_ok_iff)
    then have d: "distinct (map ole_content_id es)" by (simp add: reject_duplicates_ok)
    have keys: "keys_wf content_id_wf (im_objects c)" using wf by (simp add: im_wf_def)
    let ?c' = "c\<lparr>im_objects := fold (\<lambda>e. hm_insert (ole_content_id e) (ole_location e)) es (im_objects c)\<rparr>"
    have run: "im_append_rebuilt es c = (Inr (), ?c')"
      using True ok by (simp add: im_append_rebuilt_def)
    have "im_wf ?c'" using wf fold_insert_wf [OF keys assms] by (simp add: im_wf_def)
    moreover have "view_append es (im_view c) = Inr (im_view ?c')"
      using True ok by (simp add: view_append_def im_view_def fold_insert_entries [OF d])
    ultimately show ?thesis by (simp add: run)
  qed
qed

lemma enumerates_hash_map:
  assumes "hm_wf m"
    and inj: "\<And>k v k' v'. hm_get m k = Some v \<Longrightarrow> hm_get m k' = Some v' \<Longrightarrow> key (mk (k, v)) = key (mk (k', v')) \<Longrightarrow> k = k'"
    and P: "\<And>e. P e \<longleftrightarrow> (\<exists>k v. e = mk (k, v) \<and> hm_get m k = Some v)"
  shows "enumerates key P (sort_key key (map mk m))"
proof (rule enumerates_sort_key)
  have "inj_on (\<lambda>x. key (mk x)) (set m)"
  proof (rule inj_onI)
    fix x y
    assume xy: "x \<in> set m" "y \<in> set m" "key (mk x) = key (mk y)"
    obtain k v k' v' where [simp]: "x = (k, v)" "y = (k', v')" by fastforce
    have get: "hm_get m k = Some v" "hm_get m k' = Some v'"
      using xy(1,2) hm_entries [OF assms(1)] by auto
    then have "k = k'" using inj xy(3) by simp
    then show "x = y" using get by simp
  qed
  moreover have "distinct m" using assms(1) by (simp add: hm_wf_def distinct_map)
  ultimately show "distinct (map key (map mk m))" by (simp add: distinct_map o_def)
next
  fix e
  show "e \<in> set (map mk m) \<longleftrightarrow> P e" using hm_entries [OF assms(1)] by (force simp: P)
qed

lemma git_oid_order_inj:
  "git_oid_wf a \<Longrightarrow> git_oid_wf b \<Longrightarrow> algorithm_tag (oid_algorithm a) = algorithm_tag (oid_algorithm b) \<Longrightarrow>
   oid_as_bytes a = oid_as_bytes b \<Longrightarrow> a = b"
  by (intro git_oid_eqI algorithm_tag_inj)

lemma im_scan_objects:
  assumes "im_wf c" and "\<not> im_rebuild_in_progress c"
  shows "\<exists>es. im_scan_object_locations c = map Inr es \<and>
    enumerates (\<lambda>e. content_id_bytes (ole_content_id e))
      (\<lambda>e. hm_get (im_objects c) (ole_content_id e) = Some (ole_location e)) es"
  using assms
  by (auto simp: im_scan_object_locations_def im_wf_def content_id.expand dest: keys_wfD
      intro!: exI conjI enumerates_hash_map)

lemma im_scan_aliases:
  assumes "im_wf c"
  shows "\<exists>es. im_scan_oid_aliases c = map Inr es \<and>
    enumerates alias_order (\<lambda>e. hm_get (im_aliases c) (oae_repository e, oae_oid e) = Some (oae_content_id e)) es"
proof -
  have keys: "keys_wf alias_key_wf (im_aliases c)" using assms by (simp add: im_wf_def)
  let ?mk = "\<lambda>((repository, oid), cid).
      \<lparr>oae_repository = repository, oae_oid = oid, oae_content_id = cid\<rparr>"
  have "enumerates alias_order (\<lambda>e. hm_get (im_aliases c) (oae_repository e, oae_oid e) = Some (oae_content_id e))
    (sort_key alias_order (map ?mk (im_aliases c)))"
  proof (rule enumerates_hash_map)
    fix k v k' v'
    assume get: "hm_get (im_aliases c) k = Some v" "hm_get (im_aliases c) k' = Some v'"
      and eq: "alias_order (?mk (k, v)) = alias_order (?mk (k', v'))"
    then have "alias_key_wf k" "alias_key_wf k'" using keys_wf_get [OF keys] by blast+
    then show "k = k'"
      using eq by (cases k; cases k') (auto simp: alias_order_def alias_key_wf_def intro: git_oid_order_inj)
  next
    fix e
    show "hm_get (im_aliases c) (oae_repository e, oae_oid e) = Some (oae_content_id e) \<longleftrightarrow>
        (\<exists>k v. e = ?mk (k, v) \<and> hm_get (im_aliases c) k = Some v)"
      by (cases e) auto
  qed (rule keys_wfD [OF keys])
  then show ?thesis by (auto simp: im_scan_oid_aliases_def)
qed

lemma im_scan_chunks_enum:
  assumes "im_wf c" and "\<not> im_rebuild_in_progress c"
  shows "\<exists>es. im_scan_chunks c = map Inr es \<and>
    enumerates (\<lambda>e. (ce_generation e, ce_chunk_id e))
      (\<lambda>e. hm_get (im_chunks c) (ce_generation e, ce_chunk_id e) = Some (ce_metadata e)) es"
  using assms
  by (auto simp: im_scan_chunks_def im_wf_def dest: keys_wfD intro!: exI conjI enumerates_hash_map)

lemma im_snapshots_enum:
  assumes "im_wf c"
  shows "\<exists>es. im_list_repository_snapshots c = Inr es \<and>
    enumerates snapshot_order
      (\<lambda>e. hm_get (im_repository_snapshots c) (rs_repository e, rs_snapshot e) = Some (rs_visibility e)) es"
  using assms
  by (auto simp: im_list_repository_snapshots_def im_wf_def snapshot_order_def dest: keys_wfD
      intro!: exI conjI enumerates_hash_map)

lemma im_workspace_pins_enum:
  assumes "im_wf c"
  shows "\<exists>es. im_list_workspace_pins c = Inr es \<and>
    enumerates (\<lambda>e. e) (\<lambda>(w, g). hm_get (im_workspace_pins c) w = Some g) es"
proof -
  have "enumerates (\<lambda>e. e) (\<lambda>(w, g). hm_get (im_workspace_pins c) w = Some g)
      (sort_key (\<lambda>e. e) (map (\<lambda>x. x) (im_workspace_pins c)))"
    by (rule enumerates_hash_map) (use assms in \<open>auto simp: im_wf_def dest: keys_wfD\<close>)
  then show ?thesis by (simp add: im_list_workspace_pins_def)
qed

lemma im_gc_pins_enum:
  assumes "im_wf c"
  shows "\<exists>es. im_list_gc_pins c = Inr es \<and>
    enumerates pin_order (\<lambda>e. hm_get (im_gc_pins c) (pin_id e) = Some (pin_generation e)) es"
  using assms
  by (auto simp: im_list_gc_pins_def im_wf_def pin_order_def dest: keys_wfD
      intro!: exI conjI enumerates_hash_map)

lemma im_scans_rebuilding:
  "im_rebuild_in_progress c \<Longrightarrow>
    im_scan_object_locations c = [Inl ObjectLocationRebuildInProgress] \<and>
    im_scan_chunks c = [Inl ObjectLocationRebuildInProgress]"
  by (simp add: im_scan_object_locations_def im_scan_chunks_def)

lemma im_view_simps [simp]:
  "v_objects (im_view c) = hm_get (im_objects c)" "v_rebuilding (im_view c) = im_rebuild_in_progress c"
  "v_aliases (im_view c) = hm_get (im_aliases c)" "v_repositories (im_view c) = hm_get (im_repositories c)"
  "v_snapshots (im_view c) = hm_get (im_repository_snapshots c)" "v_chunks (im_view c) = hm_get (im_chunks c)"
  "v_meta (im_view c) = hm_get (im_meta c)" "v_workspaces (im_view c) = hm_get (im_workspaces c)"
  "v_workspace_names (im_view c) = hm_get (im_workspace_names c)"
  "v_workspace_pins (im_view c) = hm_get (im_workspace_pins c)"
  "v_gc_pins (im_view c) = hm_get (im_gc_pins c)" "v_jobs (im_view c) = hm_get (im_jobs c)"
  by (simp_all add: im_view_def)

lemma im_protocol_refines:
  "refines_step im_wf im_view im_begin_rebuild view_begin"
  "refines_step im_wf im_view im_restart_rebuild view_restart"
  "refines_step im_wf im_view im_finish_rebuild view_finish"
  by (auto simp: refines_step_def im_begin_rebuild_def im_restart_rebuild_def im_finish_rebuild_def
      view_begin_def view_restart_def view_finish_def im_wf_def im_view_def fun_eq_iff)

interpretation im: catalog im_ops im_wf im_view
proof
  fix c
  assume wf: "im_wf c"
  show "(\<forall>cid \<in> dom (v_objects (im_view c)). content_id_wf cid) \<and>
      (\<forall>(r, oid) \<in> dom (v_aliases (im_view c)). repo_id_wf r \<and> git_oid_wf oid) \<and>
      (\<forall>cid \<in> ran (v_aliases (im_view c)). content_id_wf cid) \<and>
      (\<forall>(r, s) \<in> dom (v_snapshots (im_view c)). repo_id_wf r \<and> snapshot_id_wf s)"
    using wf keys_wf_get [of alias_key_wf "im_aliases c"] keys_wf_get [of snapshot_key_wf "im_repository_snapshots c"]
    by (auto simp: im_wf_def vals_wf_def ran_def alias_key_wf_def snapshot_key_wf_def dest: keys_wf_get)
qed (simp_all add: im_ops_def im_apply_refines im_protocol_refines im_append_refines im_object_location_def
    im_rebuild_state_def im_oid_alias_def im_repository_def im_repository_snapshot_def im_chunk_def
    im_get_meta_def im_workspace_def im_workspace_name_def im_workspace_pin_def im_job_def
    im_scan_objects im_scan_aliases im_scan_chunks_enum im_snapshots_enum im_workspace_pins_enum
    im_gc_pins_enum im_scans_rebuilding)

end
