(* ===== verification/RocksRefine.thy ===== *)
theory RocksRefine
  imports RocksCatalog CatalogMem
begin

text \<open>
  The RocksDB catalog implements the abstract catalog: the locale \<open>family\<close> relates a column family
  to the partial map it encodes, and each method of the RocksDB catalog is proved to refine its
  abstract counterpart.
\<close>

section \<open>Key order\<close>

lemma less_append_same_length:
  fixes xs ys :: "'a :: linorder list"
  assumes "length xs = length ys"
  shows "xs @ as < ys @ bs \<longleftrightarrow> xs < ys \<or> xs = ys \<and> as < bs"
  using assms by (induction xs ys rule: list_induct2) auto

lemma be_value_less:
  assumes "length xs = length ys"
  shows "xs < ys \<longleftrightarrow> be_value xs < be_value ys"
  using assms
proof (induction xs ys rule: list_induct2)
  case (Cons x xs y ys)
  let ?n = "256 ^ length ys :: nat"
  have bx: "be_value xs < ?n" and "be_value ys < ?n"
    using be_value_bound [of xs] be_value_bound [of ys] Cons.hyps by simp_all
  have lt: "unat a * ?n + p < unat b * ?n + q" if "unat a < unat b" "p < ?n" for a b :: u8 and p q
  proof -
    have "unat a * ?n + p < (unat a + 1) * ?n" using that(2) by simp
    also have "\<dots> \<le> unat b * ?n" using that(1) by (intro mult_right_mono) simp_all
    finally show ?thesis by simp
  qed
  show ?case
  proof (cases "unat x = unat y")
    case True
    then show ?thesis using Cons by (simp add: word_less_nat_alt word_unat_eq_iff)
  next
    case False
    then show ?thesis
      using Cons.hyps lt [of x y "be_value xs" "be_value ys"] lt [of y x "be_value ys" "be_value xs"]
        bx \<open>be_value ys < ?n\<close>
      by (cases "unat x < unat y") (auto simp: word_less_nat_alt word_unat_eq_iff)
  qed
qed simp

lemma be_value_u32_be: "be_value (u32_be w) = unat w"
  using unsigned_less [where 'a = nat, of w] by (simp add: u32_be_def be_value_be_digits)

lemma be_value_u64_be: "be_value (u64_be w) = unat w"
  using unsigned_less [where 'a = nat, of w] by (simp add: u64_be_def be_value_be_digits)

lemma u_be_less:
  "u32_be a < u32_be b \<longleftrightarrow> a < b" "u64_be c < u64_be d \<longleftrightarrow> c < d"
  by (simp_all add: be_value_less be_value_u32_be be_value_u64_be word_less_nat_alt)

section \<open>Scans\<close>

lemma collect_scan_Inr [simp]: "collect_scan (map Inr xs) = Inr xs"
  by (induction xs) simp_all

lemma collect_scan_filtered:
  assumes "map g (filter P es) = map Inr xs"
    and "\<And>x. x \<in> set es \<Longrightarrow> f x = (if P x then and_then (g x) (\<lambda>y. Inr [y]) else Inr [])"
  shows "\<exists>ys. collect_scan (map f es) = Inr ys \<and> concat ys = xs"
  using assms
proof (induction es arbitrary: xs)
  case (Cons x es)
  show ?case
  proof (cases "P x")
    case True
    then obtain y ys where xs: "xs = y # ys" "g x = Inr y" "map g (filter P es) = map Inr ys"
      using Cons.prems(1) by (cases xs) auto
    then obtain zs where "collect_scan (map f es) = Inr zs" "concat zs = ys"
      using Cons.IH [of ys] Cons.prems(2) by auto
    then show ?thesis using Cons.prems(2) [of x] True xs by simp
  next
    case False
    then show ?thesis using Cons.IH [of xs] Cons.prems by auto
  qed
qed simp

lemma enumerates_filter:
  assumes "enumerates key Q es"
  shows "enumerates key (\<lambda>e. P e \<and> Q e) (filter P es)"
  using assms by (auto simp: enumerates_def sorted_wrt_map intro: sorted_wrt_filter)

lemma enumerates_sorted:
  assumes "enumerates key P xs"
  shows "enumerates key P (sort_key key xs)"
  using assms by (intro enumerates_sort_key) (auto simp: enumerates_def strict_sorted_iff)

section \<open>Column families as maps\<close>

locale family =
  key: bytes_codec kwf kenc kdec + val: bytes_codec vwf venc vdec
  for kwf :: "'k \<Rightarrow> bool" and kenc kdec and vwf :: "'v \<Rightarrow> bool" and venc vdec
begin

definition family_view :: "(bytes \<rightharpoonup> bytes) \<Rightarrow> 'k \<rightharpoonup> 'v" where
  "family_view m k = (if kwf k then (case m (kenc k) of None \<Rightarrow> None | Some b \<Rightarrow> ok (vdec b)) else None)"

definition family_wf :: "(bytes \<rightharpoonup> bytes) \<Rightarrow> bool" where
  "family_wf m \<longleftrightarrow> (\<forall>k b. m k = Some b \<longrightarrow> is_ok (kdec k) \<and> is_ok (vdec b))"

lemma view_put:
  assumes "kwf k" and "vwf v"
  shows "family_view (m(kenc k \<mapsto> venc v)) = (family_view m)(k \<mapsto> v)"
  using assms by (auto simp: family_view_def fun_eq_iff key.enc_eq_iff val.dec_enc)

lemma view_delete:
  assumes "kwf k"
  shows "family_view (m(kenc k := None)) = (family_view m)(k := None)"
  using assms by (auto simp: family_view_def fun_eq_iff key.enc_eq_iff)

lemma wf_put: "family_wf m \<Longrightarrow> kwf k \<Longrightarrow> vwf v \<Longrightarrow> family_wf (m(kenc k \<mapsto> venc v))"
  by (auto simp: family_wf_def is_ok_iff key.dec_enc val.dec_enc)

lemma wf_delete: "family_wf m \<Longrightarrow> family_wf (m(k := None))"
  by (auto simp: family_wf_def)

lemma view_Some_iff: "family_view m k = Some v \<longleftrightarrow> kwf k \<and> vwf v \<and> m (kenc k) = Some (venc v)"
  by (auto simp: family_view_def ok_Some_iff val.dec_iff split: option.splits)

lemma view_None_iff: "family_wf m \<Longrightarrow> kwf k \<Longrightarrow> family_view m k = None \<longleftrightarrow> m (kenc k) = None"
  by (auto simp: family_view_def family_wf_def is_ok_iff ok_Some_iff split: option.splits)

lemma entry_decodes:
  assumes "family_wf m" and "m kb = Some vb"
  obtains k v where "kwf k" "vwf v" "kb = kenc k" "vb = venc v" "family_view m k = Some v"
proof -
  have "is_ok (kdec kb)" "is_ok (vdec vb)" using assms by (auto simp: family_wf_def)
  then obtain k v where "kdec kb = Inr k" "vdec vb = Inr v" by (auto simp: is_ok_iff)
  then have "kwf k" "kb = kenc k" "vwf v" "vb = venc v" by (auto simp: key.dec_iff val.dec_iff)
  then show ?thesis using that [of k v] assms(2) by (simp add: view_Some_iff)
qed

lemma scan_entries:
  assumes wf: "family_wf m" and es: "enumerates fst (\<lambda>(kb, vb). m kb = Some vb) es"
    and mono: "\<And>k v k' v'. kwf k \<Longrightarrow> kwf k' \<Longrightarrow> kenc k < kenc k' \<Longrightarrow> ord (mk k v) < ord (mk k' v')"
  shows "\<exists>xs. map (\<lambda>(kb, vb). and_then (kdec kb) (\<lambda>k. and_then (vdec vb) (\<lambda>v. Inr (mk k v)))) es = map Inr xs \<and>
    enumerates ord (\<lambda>x. \<exists>k v. x = mk k v \<and> family_view m k = Some v) xs"
proof -
  define g where "g = (\<lambda>(kb, vb). mk (projr (kdec kb)) (projr (vdec vb)))"
  have entry: "\<exists>k v. kwf k \<and> e = (kenc k, venc v) \<and> g e = mk k v \<and> family_view m k = Some v \<and>
      kdec (kenc k) = Inr k \<and> vdec (venc v) = Inr v" if "e \<in> set es" for e
  proof -
    obtain kb vb where e: "e = (kb, vb)" by fastforce
    then have "m kb = Some vb" using that es by (auto simp: enumerates_def)
    note e = e this
    from entry_decodes [OF wf e(2)] obtain k v where
      "kwf k" "vwf v" "kb = kenc k" "vb = venc v" "family_view m k = Some v" .
    then show ?thesis using e by (auto simp: g_def key.dec_enc val.dec_enc intro!: exI [of _ k] exI [of _ v])
  qed
  have "map (\<lambda>(kb, vb). and_then (kdec kb) (\<lambda>k. and_then (vdec vb) (\<lambda>v. Inr (mk k v)))) es = map Inr (map g es)"
    using entry by (fastforce simp: g_def)
  moreover have "sorted_wrt (<) (map ord (map g es))"
  proof -
    have "sorted_wrt (\<lambda>a b. fst a < fst b) es"
      using es by (simp add: enumerates_def sorted_wrt_map)
    then have "sorted_wrt (\<lambda>a b. ord (g a) < ord (g b)) es"
    proof (rule sorted_wrt_mono_rel [rotated])
      fix a b
      assume ab: "a \<in> set es" "b \<in> set es" "fst a < fst b"
      from entry [OF ab(1)] entry [OF ab(2)] show "ord (g a) < ord (g b)" using ab(3) mono by force
    qed
    then show ?thesis by (simp add: sorted_wrt_map)
  qed
  moreover have "x \<in> set (map g es) \<longleftrightarrow> (\<exists>k v. x = mk k v \<and> family_view m k = Some v)" for x
  proof
    assume "x \<in> set (map g es)"
    then show "\<exists>k v. x = mk k v \<and> family_view m k = Some v" using entry by fastforce
  next
    assume "\<exists>k v. x = mk k v \<and> family_view m k = Some v"
    then obtain k v where x: "x = mk k v" and kv: "kwf k" "vwf v" "m (kenc k) = Some (venc v)"
      by (auto simp: view_Some_iff)
    then have "(kenc k, venc v) \<in> set es" using es by (auto simp: enumerates_def)
    moreover have "g (kenc k, venc v) = x" using kv x by (simp add: g_def key.dec_enc val.dec_enc)
    ultimately show "x \<in> set (map g es)" by force
  qed
  ultimately show ?thesis unfolding enumerates_def by (intro exI [of _ "map g es"] conjI allI)
qed

text \<open>A family that shares its column with another one, told apart by the length of its keys.\<close>

lemma scan_shared:
  assumes es: "enumerates fst (\<lambda>(kb, vb). m kb = Some vb) es"
    and own: "\<And>kb vb. m kb = Some vb \<Longrightarrow> length kb = n \<Longrightarrow> is_ok (kdec kb) \<and> is_ok (vdec vb)"
    and other: "\<forall>kb \<in> dom m. length kb \<noteq> n \<longrightarrow> length kb = n'"
    and len: "\<And>k. kwf k \<Longrightarrow> length (kenc k) = n"
    and mono: "\<And>k v k' v'. kwf k \<Longrightarrow> kwf k' \<Longrightarrow> kenc k < kenc k' \<Longrightarrow> ord (mk k v) < ord (mk k' v')"
  shows "\<exists>ys. collect_scan (map (\<lambda>(kb, vb). if length kb = n
        then and_then (kdec kb) (\<lambda>k. and_then (vdec vb) (\<lambda>v. Inr [mk k v]))
        else if length kb \<noteq> n' then Inl err else Inr []) es) = Inr ys \<and>
    enumerates ord (\<lambda>x. \<exists>k v. x = mk k v \<and> family_view m k = Some v) (concat ys)"
proof -
  let ?m = "\<lambda>kb. if length kb = n then m kb else None"
  let ?P = "\<lambda>(kb, vb). length kb = n"
  let ?g = "\<lambda>(kb, vb). and_then (kdec kb) (\<lambda>k. and_then (vdec vb) (\<lambda>v. Inr (mk k v)))"
  have same: "family_view ?m = family_view m" by (auto simp: family_view_def fun_eq_iff len)
  have "family_wf ?m" using own by (auto simp: family_wf_def split: if_splits)
  moreover have "enumerates fst (\<lambda>(kb, vb). ?m kb = Some vb) (filter ?P es)"
    using enumerates_filter [OF es, of ?P] by (rule back_subst [of "\<lambda>Q. enumerates fst Q _"]) (auto simp: fun_eq_iff)
  ultimately obtain xs where xs: "map ?g (filter ?P es) = map Inr xs"
    "enumerates ord (\<lambda>x. \<exists>k v. x = mk k v \<and> family_view m k = Some v) xs"
    using scan_entries [of ?m "filter ?P es" ord mk] mono unfolding same by blast
  have "\<exists>ys. collect_scan (map (\<lambda>(kb, vb). if length kb = n
      then and_then (kdec kb) (\<lambda>k. and_then (vdec vb) (\<lambda>v. Inr [mk k v]))
      else if length kb \<noteq> n' then Inl err else Inr []) es) = Inr ys \<and> concat ys = xs"
  proof (rule collect_scan_filtered [OF xs(1)])
    fix x
    assume x: "x \<in> set es"
    obtain kb vb where kv: "x = (kb, vb)" by fastforce
    then have "m kb = Some vb" using x es by (auto simp: enumerates_def)
    then have "length kb \<noteq> n \<Longrightarrow> length kb = n'" and "length kb = n \<Longrightarrow> is_ok (kdec kb) \<and> is_ok (vdec vb)"
      using own other by blast+
    then show "(case x of (kb, vb) \<Rightarrow> if length kb = n
        then and_then (kdec kb) (\<lambda>k. and_then (vdec vb) (\<lambda>v. Inr [mk k v]))
        else if length kb \<noteq> n' then Inl err else Inr []) =
      (if ?P x then and_then (?g x) (\<lambda>y. Inr [y]) else Inr [])"
      by (auto simp: kv is_ok_iff)
  qed
  then show ?thesis using xs(2) by auto
qed

end

interpretation objects_cf: family content_id_wf encode_object_location_key decode_object_location_key
  "\<lambda>_. True" encode_object_location_value decode_object_location_value ..
interpretation aliases_cf: family alias_key_wf "\<lambda>(repo, oid). encode_oid_alias_key repo oid" decode_oid_alias_key
  content_id_wf encode_content_id_value decode_content_id_value ..
interpretation repositories_cf: family repo_id_wf encode_repository_key decode_repository_key
  "\<lambda>_. True" encode_opaque_value decode_opaque_value ..
interpretation snapshots_cf: family snapshot_key_wf "\<lambda>(r, s). encode_repository_snapshot_key r s"
  decode_repository_snapshot_key "\<lambda>_. True" encode_snapshot_visibility_value decode_snapshot_visibility_value ..
interpretation chunks_cf: family "\<lambda>_. True" "\<lambda>(g, c). encode_chunk_key g c" decode_chunk_key
  "\<lambda>_. True" encode_chunk_value decode_chunk_value ..
interpretation workspaces_cf: family workspace_id_wf encode_workspace_key decode_workspace_key
  "\<lambda>_. True" encode_opaque_value decode_opaque_value ..
interpretation names_cf: family "\<lambda>_. True" encode_workspace_name_key decode_workspace_name_key
  workspace_id_wf encode_workspace_id_value decode_workspace_id_value ..
interpretation workspace_pins_cf: family workspace_id_wf encode_workspace_pin_key decode_workspace_pin_key
  "\<lambda>_. True" encode_workspace_pin_value decode_workspace_pin_value ..
interpretation gc_pins_cf: family gc_pin_id_wf encode_gc_pin_key decode_gc_pin_key
  "\<lambda>_. True" encode_gc_pin_value decode_gc_pin_value ..
interpretation jobs_cf: family "\<lambda>_. True" encode_job_key decode_job_key
  "\<lambda>_. True" encode_opaque_value decode_opaque_value ..
interpretation meta_cf: family "\<lambda>_. True" encode_meta_key decode_meta_key
  "\<lambda>_. True" encode_opaque_value decode_opaque_value ..


section \<open>The view of a database\<close>

definition marker_key :: bytes where
  "marker_key = encode_meta_key OBJECT_LOCATION_REBUILD_META_KEY"

definition marker_value :: bytes where
  "marker_value = encode_opaque_value [OBJECT_LOCATION_REBUILD_IN_PROGRESS_MARKER]"

definition rocks_view :: "cf_contents \<Rightarrow> catalog_view" where
  "rocks_view d = \<lparr>v_objects = objects_cf.family_view (d CF_OBJECT_LOCATIONS),
     v_rebuilding = (d CF_META marker_key \<noteq> None),
     v_aliases = aliases_cf.family_view (d CF_OID_ALIASES),
     v_repositories = repositories_cf.family_view (d CF_REPOSITORIES),
     v_snapshots = snapshots_cf.family_view (d CF_REPO_SNAPSHOTS),
     v_chunks = chunks_cf.family_view (d CF_CHUNKS),
     v_meta = (meta_cf.family_view (d CF_META))(OBJECT_LOCATION_REBUILD_META_KEY := None),
     v_workspaces = workspaces_cf.family_view (d CF_WORKSPACES),
     v_workspace_names = names_cf.family_view (d CF_WORKSPACE_NAMES),
     v_workspace_pins = workspace_pins_cf.family_view (d CF_PINS),
     v_gc_pins = gc_pins_cf.family_view (d CF_PINS),
     v_jobs = jobs_cf.family_view (d CF_JOBS)\<rparr>"

definition pins_wf :: "(bytes \<rightharpoonup> bytes) \<Rightarrow> bool" where
  "pins_wf m \<longleftrightarrow> (\<forall>k b. m k = Some b \<longrightarrow> is_ok (validate_pin k b))"

definition meta_wf :: "(bytes \<rightharpoonup> bytes) \<Rightarrow> bool" where
  "meta_wf m \<longleftrightarrow> meta_cf.family_wf m \<and> (\<forall>b. m marker_key = Some b \<longrightarrow> b = marker_value)"

definition rocks_wf :: "cf_contents \<Rightarrow> bool" where
  "rocks_wf d \<longleftrightarrow> objects_cf.family_wf (d CF_OBJECT_LOCATIONS) \<and> aliases_cf.family_wf (d CF_OID_ALIASES) \<and>
     repositories_cf.family_wf (d CF_REPOSITORIES) \<and> snapshots_cf.family_wf (d CF_REPO_SNAPSHOTS) \<and>
     chunks_cf.family_wf (d CF_CHUNKS) \<and> meta_wf (d CF_META) \<and>
     workspaces_cf.family_wf (d CF_WORKSPACES) \<and> names_cf.family_wf (d CF_WORKSPACE_NAMES) \<and>
     pins_wf (d CF_PINS) \<and> jobs_cf.family_wf (d CF_JOBS)"

lemma cf_distinct [simp]:
  "CF_OBJECT_LOCATIONS \<noteq> CF_OID_ALIASES" "CF_OBJECT_LOCATIONS \<noteq> CF_META" "CF_META \<noteq> CF_OBJECT_LOCATIONS"
  by (simp_all add: cf_names)

lemma pins_wf_put_workspace:
  "pins_wf m \<Longrightarrow> workspace_id_wf w \<Longrightarrow> pins_wf (m(encode_workspace_pin_key w \<mapsto> encode_workspace_pin_value g))"
  by (auto simp: pins_wf_def validate_pin_def decodes_def workspace_pin_key.dec_enc workspace_pin_value.dec_enc
      is_ok_iff) (auto simp: workspace_codecs_eq workspace_key_eq id_wf_defs catalog_consts)

lemma pins_wf_put_gc:
  "pins_wf m \<Longrightarrow> gc_pin_id_wf p \<Longrightarrow> pins_wf (m(encode_gc_pin_key p \<mapsto> encode_gc_pin_value g))"
  by (auto simp: pins_wf_def validate_pin_def decodes_def gc_pin_key.dec_enc gc_pin_value.dec_enc
      is_ok_iff) (auto simp: gc_pin_key_eq id_wf_defs catalog_consts)

lemma pins_wf_delete: "pins_wf m \<Longrightarrow> pins_wf (m(k := None))"
  by (auto simp: pins_wf_def)

lemma pins_view_other:
  "gc_pin_id_wf p \<Longrightarrow> workspace_pins_cf.family_view (m(encode_gc_pin_key p := x)) = workspace_pins_cf.family_view m"
  "workspace_id_wf w \<Longrightarrow> gc_pins_cf.family_view (m(encode_workspace_pin_key w := x)) = gc_pins_cf.family_view m"
  using pin_keys_disjoint
  by (auto simp: workspace_pins_cf.family_view_def gc_pins_cf.family_view_def fun_eq_iff)
     (metis pin_keys_disjoint)+

lemma marker_key_iff: "encode_meta_key k = marker_key \<longleftrightarrow> k = OBJECT_LOCATION_REBUILD_META_KEY"
  by (simp add: marker_key_def meta_key.enc_eq_iff)

lemma perform_write_view:
  assumes "operation_wf op" and "\<And>k v. op = OpMeta k v \<Longrightarrow> k \<noteq> OBJECT_LOCATION_REBUILD_META_KEY"
    and "rocks_wf d"
  shows "rocks_wf (perform_write (write_of op) d)"
proof (cases op)
  case (OpMeta k v)
  then have "encode_meta_key k \<noteq> marker_key" using assms(2) by (simp add: marker_key_iff)
  then show ?thesis
    using assms OpMeta by (simp add: rocks_wf_def meta_wf_def meta_cf.wf_put cf_names)
qed (use assms in \<open>simp_all add: rocks_wf_def cf_names objects_cf.wf_put aliases_cf.wf_put [of _ "(_, _)", simplified]
    repositories_cf.wf_put repositories_cf.wf_delete snapshots_cf.wf_put [of _ "(_, _)", simplified]
    snapshots_cf.wf_delete chunks_cf.wf_put [of _ "(_, _)", simplified] workspaces_cf.wf_put names_cf.wf_put
    pins_wf_put_workspace pins_wf_put_gc pins_wf_delete jobs_cf.wf_put\<close>)

lemma write_of_view:
  assumes "operation_wf op" and "\<And>k v. op = OpMeta k v \<Longrightarrow> k \<noteq> OBJECT_LOCATION_REBUILD_META_KEY"
    and "view_stage op (rocks_view d) = Inr v'"
  shows "rocks_view (perform_write (write_of op) d) = v'"
proof (cases op)
  case (OpMeta k v)
  then have k: "k \<noteq> OBJECT_LOCATION_REBUILD_META_KEY" "encode_meta_key k \<noteq> marker_key"
    using assms(2) by (simp_all add: marker_key_iff)
  have "(meta_cf.family_view (d CF_META))(k \<mapsto> v, OBJECT_LOCATION_REBUILD_META_KEY := None) =
      (meta_cf.family_view (d CF_META))(OBJECT_LOCATION_REBUILD_META_KEY := None, k \<mapsto> v)"
    using k(1) by (rule fun_upd_twist)
  then show ?thesis
    using assms(3) k(2) OpMeta by (auto simp: rocks_view_def cf_names meta_cf.view_put)
next
  case (OpOidAlias repo oid cid)
  let ?m = "aliases_cf.family_view (d CF_OID_ALIASES)"
  have put: "aliases_cf.family_view ((d CF_OID_ALIASES)(encode_oid_alias_key repo oid \<mapsto> encode_content_id_value cid))
      = ?m((repo, oid) \<mapsto> cid)"
    using aliases_cf.view_put [of "(repo, oid)" cid "d CF_OID_ALIASES"] assms(1) OpOidAlias
    by (simp add: alias_key_wf_def)
  have "rocks_view (perform_write (write_of op) d) = (rocks_view d)\<lparr>v_aliases := ?m((repo, oid) \<mapsto> cid)\<rparr>"
    using put OpOidAlias by (simp add: rocks_view_def cf_names)
  moreover have "v' = (rocks_view d)\<lparr>v_aliases := ?m((repo, oid) \<mapsto> cid)\<rparr>"
    using assms(3) OpOidAlias by (auto simp: rocks_view_def fun_upd_idem split: option.splits if_splits)
  ultimately show ?thesis by simp
qed (use assms in \<open>auto simp: rocks_view_def cf_names objects_cf.view_put repositories_cf.view_put
    repositories_cf.view_delete snapshots_cf.view_put [where k = "(r, s)" for r s, simplified]
    snapshots_cf.view_delete [where k = "(r, s)" for r s, simplified]
    chunks_cf.view_put [where k = "(g, c)" for g c, simplified] workspaces_cf.view_put names_cf.view_put
    workspace_pins_cf.view_put workspace_pins_cf.view_delete gc_pins_cf.view_put gc_pins_cf.view_delete
    pins_view_other jobs_cf.view_put\<close>)

definition no_marker :: "operation list \<Rightarrow> bool" where
  "no_marker os \<longleftrightarrow> (\<forall>k v. OpMeta k v \<in> set os \<longrightarrow> k \<noteq> OBJECT_LOCATION_REBUILD_META_KEY)"

lemma perform_writes_view:
  assumes "list_all operation_wf os" and "no_marker os" and "rocks_wf d"
    and "fold_result view_stage os (rocks_view d) = Inr v'"
  shows "rocks_view (fold perform_write (map write_of os) d) = v' \<and>
    rocks_wf (fold perform_write (map write_of os) d)"
  using assms
proof (induction os arbitrary: d)
  case (Cons op os)
  then obtain v where v: "view_stage op (rocks_view d) = Inr v" "fold_result view_stage os v = Inr v'"
    by (auto simp: ok_iff)
  have op: "operation_wf op" "\<And>k v. op = OpMeta k v \<Longrightarrow> k \<noteq> OBJECT_LOCATION_REBUILD_META_KEY"
    using Cons.prems(1,2) by (auto simp: no_marker_def)
  have "rocks_view (perform_write (write_of op) d) = v" by (rule write_of_view [OF op v(1)])
  moreover have "rocks_wf (perform_write (write_of op) d)" by (rule perform_write_view [OF op Cons.prems(3)])
  moreover have "list_all operation_wf os" "no_marker os"
    using Cons.prems(1,2) by (auto simp: no_marker_def)
  ultimately show ?case using Cons.IH [of "perform_write (write_of op) d"] v(2) by simp
qed simp

section \<open>Engines that keep their promise\<close>

lemma rocks_cf_ok: "rocks_ok e contents \<Longrightarrow> cf \<in> set ROCKSDB_COLUMN_FAMILIES \<Longrightarrow> rocks_cf e d cf = Inr cf"
  by (simp add: rocks_ok_def rocks_cf_def)

lemma rocks_get_cases:
  assumes "rocks_ok e contents"
  obtains (err) s where "rocks_get e d cf k = Inl (Backend s)"
    | (got) "rocks_get e d cf k = Inr (contents d cf k)"
proof (cases "rk_get e d cf k")
  case (Inl s)
  then show ?thesis using err by (simp add: rocks_get_def)
next
  case (Inr v)
  then have "v = contents d cf k" using assms by (simp add: rocks_ok_def)
  then show ?thesis using got Inr by (simp add: rocks_get_def)
qed

lemma marker_decodes: "decode_object_location_rebuild_marker marker_value = Inr InProgress"
  by (simp add: decode_object_location_rebuild_marker_def marker_value_def opaque_value.dec_enc)

lemma rebuild_state_cases:
  assumes "rocks_ok e contents" and "rocks_wf (contents d)"
  obtains (err) s where "read_object_location_rebuild_state e d = Inl (Backend s)"
    | (got) "read_object_location_rebuild_state e d =
        Inr (if v_rebuilding (rocks_view (contents d)) then InProgress else Idle)"
proof -
  have cf: "rocks_cf e d CF_META = Inr CF_META"
    by (rule rocks_cf_ok [OF assms(1)]) (simp add: ROCKSDB_COLUMN_FAMILIES_def)
  have mark: "contents d CF_META marker_key = Some b \<Longrightarrow> b = marker_value" for b
    using assms(2) by (simp add: rocks_wf_def meta_wf_def)
  consider (err) s where "rocks_get e d CF_META marker_key = Inl (Backend s)"
    | (got) "rocks_get e d CF_META marker_key = Inr (contents d CF_META marker_key)"
    by (rule rocks_get_cases [OF assms(1)])
  then show ?thesis
  proof cases
    case err
    then show ?thesis
      using that(1) by (simp add: read_object_location_rebuild_state_def cf marker_key_def)
  next
    case got
    then show ?thesis
      using that(2) mark marker_decodes
      by (cases "contents d CF_META marker_key") (auto simp: read_object_location_rebuild_state_def cf rocks_view_def simp flip: marker_key_def)
  qed
qed

lemma rocks_write_sync_cases:
  assumes "rocks_ok e contents"
  obtains (err) s d' where "rocks_write_sync e ws d = (Inl (Backend s), d')" and "contents d' = contents d"
    | (wrote) d' where "rocks_write_sync e ws d = (Inr (), d')"
        and "contents d' = fold perform_write ws (contents d)"
proof -
  obtain r d' where w: "rk_write e ws d = (r, d')" by fastforce
  have "case rk_write e ws d of (Inr _, d') \<Rightarrow> contents d' = fold perform_write ws (contents d)
      | (Inl _, d') \<Rightarrow> contents d' = contents d"
    using assms by (simp add: rocks_ok_def)
  then show ?thesis
    using that w by (cases r) (auto simp: rocks_write_sync_def)
qed

lemma view_stage_other_aliases:
  assumes "\<And>repo oid cid. op \<noteq> OpOidAlias repo oid cid"
  obtains v' where "view_stage op v = Inr v'" "v_aliases v' = v_aliases v"
  using assms by (cases op) auto

lemma check_alias_conflicts_result:
  assumes ok: "rocks_ok e contents" and wf: "rocks_wf (contents d)" and "list_all operation_wf os"
    and "\<And>k. alias_key_wf k \<Longrightarrow> v_aliases v k =
      (case hm_get pending k of Some c \<Rightarrow> Some c | None \<Rightarrow> v_aliases (rocks_view (contents d)) k)"
  shows "case check_alias_conflicts e d os pending of
      Inr _ \<Rightarrow> \<exists>v'. fold_result view_stage os v = Inr v'
    | Inl err \<Rightarrow> fold_result view_stage os v = Inl err \<or> (\<exists>s. err = Backend s)"
  using assms(3,4)
proof (induction os arbitrary: v pending)
  case (Cons op os)
  show ?case
  proof (cases "\<exists>repo oid cid. op = OpOidAlias repo oid cid")
    case False
    then have "check_alias_conflicts e d (op # os) pending = check_alias_conflicts e d os pending"
      by (cases op) auto
    moreover obtain v' where "view_stage op v = Inr v'" "v_aliases v' = v_aliases v"
      using view_stage_other_aliases [of op v] False by blast
    ultimately show ?thesis using Cons.IH [of v' pending] Cons.prems by (auto split: sum.splits)
  next
    case True
    then obtain repo oid cid where op: "op = OpOidAlias repo oid cid" by blast
    have kwf: "alias_key_wf (repo, oid)" and cwf: "content_id_wf cid"
      using Cons.prems(1) op by (simp_all add: alias_key_wf_def)
    have next_view: "v_aliases (v\<lparr>v_aliases := (v_aliases v)((repo, oid) \<mapsto> cid)\<rparr>) k =
        (case hm_get (hm_insert (repo, oid) cid pending) k of Some c \<Rightarrow> Some c
         | None \<Rightarrow> v_aliases (rocks_view (contents d)) k)" if "alias_key_wf k" for k
      using Cons.prems(2) [OF that] by simp
    have IH: "case check_alias_conflicts e d os (hm_insert (repo, oid) cid pending) of
        Inr _ \<Rightarrow> \<exists>v'. fold_result view_stage os (v\<lparr>v_aliases := (v_aliases v)((repo, oid) \<mapsto> cid)\<rparr>) = Inr v'
      | Inl err \<Rightarrow> fold_result view_stage os (v\<lparr>v_aliases := (v_aliases v)((repo, oid) \<mapsto> cid)\<rparr>) = Inl err
          \<or> (\<exists>s. err = Backend s)"
      using Cons.IH [OF _ next_view] Cons.prems(1) by simp
    have same: "v_aliases v (repo, oid) = Some cid \<Longrightarrow> v\<lparr>v_aliases := (v_aliases v)((repo, oid) \<mapsto> cid)\<rparr> = v"
      by (simp add: fun_upd_idem)
    let ?look = "case hm_get pending (repo, oid) of Some cid \<Rightarrow> Inr (Some cid)
       | None \<Rightarrow> and_then (rocks_get e d CF_OID_ALIASES (encode_oid_alias_key repo oid)) (\<lambda>v.
           case v of None \<Rightarrow> Inr None | Some v \<Rightarrow> and_then (decode_content_id_value v) (\<lambda>cid. Inr (Some cid)))"
    have look: "?look = Inr (v_aliases v (repo, oid)) \<or> (\<exists>s. ?look = Inl (Backend s))"
    proof (cases "hm_get pending (repo, oid)")
      case (Some c)
      then show ?thesis using Cons.prems(2) [OF kwf] by simp
    next
      case None
      have fam: "v_aliases v (repo, oid) = aliases_cf.family_view (contents d CF_OID_ALIASES) (repo, oid)"
        using Cons.prems(2) [OF kwf] None by (simp add: rocks_view_def)
      have decv: "is_ok (decode_content_id_value b)"
        if "contents d CF_OID_ALIASES (encode_oid_alias_key repo oid) = Some b" for b
        using wf that by (auto simp: rocks_wf_def aliases_cf.family_wf_def)
      consider (err) s where "rocks_get e d CF_OID_ALIASES (encode_oid_alias_key repo oid) = Inl (Backend s)"
        | (got) "rocks_get e d CF_OID_ALIASES (encode_oid_alias_key repo oid)
            = Inr (contents d CF_OID_ALIASES (encode_oid_alias_key repo oid))"
        by (rule rocks_get_cases [OF ok])
      then show ?thesis
      proof cases
        case err
        then show ?thesis using None by simp
      next
        case got
        then show ?thesis
          using None fam decv kwf
          by (auto simp: aliases_cf.family_view_def is_ok_iff split: option.splits)
      qed
    qed
    then show ?thesis
    proof
      assume "\<exists>s. ?look = Inl (Backend s)"
      then show ?thesis unfolding op check_alias_conflicts.simps by (elim exE) simp
    next
      assume l: "?look = Inr (v_aliases v (repo, oid))"
      show ?thesis
        unfolding op check_alias_conflicts.simps l
        using IH same by (cases "v_aliases v (repo, oid)") (auto split: sum.splits)
    qed
  qed
qed simp

section \<open>The mutating methods\<close>

abbreviation rocks_invar :: "('d \<Rightarrow> cf_contents) \<Rightarrow> 'd \<Rightarrow> bool" where
  "rocks_invar contents d \<equiv> rocks_wf (contents d)"

abbreviation rocks_abs :: "('d \<Rightarrow> cf_contents) \<Rightarrow> 'd \<Rightarrow> catalog_view" where
  "rocks_abs contents d \<equiv> rocks_view (contents d)"

text \<open>The step \<open>m\<close> does at \<open>d\<close> what \<open>f\<close> does to the view.\<close>

definition refines_at ::
  "('d \<Rightarrow> cf_contents) \<Rightarrow> ('d, catalog_error, unit) eff \<Rightarrow> (catalog_view \<Rightarrow> catalog_error + catalog_view) \<Rightarrow> 'd \<Rightarrow> bool" where
  "refines_at contents m f d \<longleftrightarrow> rocks_wf (contents (snd (m d))) \<and>
     (case fst (m d) of
        Inr _ \<Rightarrow> f (rocks_view (contents d)) = Inr (rocks_view (contents (snd (m d))))
      | Inl e \<Rightarrow> rocks_view (contents (snd (m d))) = rocks_view (contents d) \<and>
          (f (rocks_view (contents d)) = Inl e \<or> (\<exists>s. e = Backend s)))"

lemma refines_stepI:
  assumes "\<And>d. rocks_wf (contents d) \<Longrightarrow> refines_at contents m f d"
  shows "refines_step (rocks_invar contents) (rocks_abs contents) m f"
  using assms by (simp add: refines_step_def refines_at_def)

lemma refines_at_failed:
  "rocks_wf (contents d) \<Longrightarrow> m d = (Inl e, d) \<Longrightarrow> f (rocks_view (contents d)) = Inl e \<Longrightarrow> refines_at contents m f d"
  "rocks_wf (contents d) \<Longrightarrow> m d = (Inl (Backend s), d) \<Longrightarrow> refines_at contents m f d"
  by (simp_all add: refines_at_def)

lemma refines_at_write_sync:
  assumes "rocks_ok e contents" and "rocks_wf (contents d)" and run: "m d = rocks_write_sync e ws d"
    and "rocks_view (fold perform_write ws (contents d)) = v'" and "rocks_wf (fold perform_write ws (contents d))"
    and "f (rocks_view (contents d)) = Inr v'"
  shows "refines_at contents m f d"
proof -
  consider s d' where "rocks_write_sync e ws d = (Inl (Backend s), d')" "contents d' = contents d"
    | d' where "rocks_write_sync e ws d = (Inr (), d')" "contents d' = fold perform_write ws (contents d)"
    by (rule rocks_write_sync_cases [OF assms(1)])
  then show ?thesis using assms(2-6) by cases (simp_all add: refines_at_def)
qed

lemma apply_families_ok:
  assumes "rocks_ok e contents"
  shows "fold_result (\<lambda>cf _. and_then (rocks_cf e d cf) (\<lambda>_. Inr ())) apply_families () = Inr ()"
  using rocks_cf_ok [OF assms, of _ d] by (simp add: apply_families_def ROCKSDB_COLUMN_FAMILIES_def)

lemma rocks_apply_refines:
  assumes ok: "rocks_ok e contents" and b: "batch_wf b"
  shows "refines_step (rocks_invar contents) (rocks_abs contents) (rocks_apply e b) (view_apply b)"
proof (rule refines_stepI)
  fix d
  assume wf: "rocks_wf (contents d)"
  let ?v = "rocks_view (contents d)"
  let ?goal = "refines_at contents (rocks_apply e b) (view_apply b) d"
  have os: "list_all operation_wf (operations b)" using b by (simp add: batch_wf_def)
  consider (err) s where "read_object_location_rebuild_state e d = Inl (Backend s)"
    | (got) "read_object_location_rebuild_state e d = Inr (if v_rebuilding ?v then InProgress else Idle)"
    by (rule rebuild_state_cases [OF ok wf])
  then show ?goal
  proof cases
    case err
    then show ?thesis using refines_at_failed(2) [where contents = contents, OF wf] by (simp add: rocks_apply_def)
  next
    case got
    show ?thesis
    proof (cases "v_rebuilding ?v \<or> \<not> is_ok (reject_direct_rebuild_marker_mutation b)")
      case True
      then obtain err where "rocks_apply e b d = (Inl err, d)" "view_apply b ?v = Inl err"
        using got by (cases "reject_direct_rebuild_marker_mutation b")
          (auto simp: rocks_apply_def view_apply_def split: if_splits)
      then show ?thesis by (rule refines_at_failed(1) [where contents = contents, OF wf])
    next
      case False
      then have idle: "\<not> v_rebuilding ?v" and rej: "reject_direct_rebuild_marker_mutation b = Inr ()"
        by (auto simp: is_ok_iff)
      have nm: "no_marker (operations b)" using rej by (simp add: ok_iff no_marker_def)
      note chk = check_alias_conflicts_result [OF ok wf os, of ?v "[]"]
      have va: "view_apply b ?v = fold_result view_stage (operations b) ?v"
        using idle rej by (simp add: view_apply_def)
      show ?thesis
      proof (cases "check_alias_conflicts e d (operations b) []")
        case (Inl err)
        then have "rocks_apply e b d = (Inl err, d)"
          using got idle rej by (simp add: rocks_apply_def apply_families_ok [OF ok])
        then show ?thesis using chk Inl wf by (simp add: refines_at_def va)
      next
        case (Inr u)
        then obtain v' where v': "fold_result view_stage (operations b) ?v = Inr v'" using chk by auto
        have run: "rocks_apply e b d = rocks_write_sync e (map write_of (operations b)) d"
          using Inr got idle rej by (simp add: rocks_apply_def apply_families_ok [OF ok])
        show ?thesis
          by (rule refines_at_write_sync [OF ok wf, where m = "rocks_apply e b", OF run])
             (use perform_writes_view [OF os nm wf v'] v' va in simp_all)
      qed
    qed
  qed
qed

definition cleared :: "cf_contents \<Rightarrow> cf_contents" where
  "cleared d = fold perform_write
     [DeleteRangeCf CF_OBJECT_LOCATIONS [CATALOG_VERSION] [CATALOG_VERSION + 1],
      PutCf CF_META marker_key marker_value] d"

lemma cleared_view:
  assumes "rocks_wf d"
  shows "rocks_view (cleared d) = (rocks_view d)\<lparr>v_objects := Map.empty, v_rebuilding := True\<rparr>"
    and "rocks_wf (cleared d)"
proof -
  let ?m = "\<lambda>k. if [CATALOG_VERSION] \<le> k \<and> k < [CATALOG_VERSION + 1] then None else d CF_OBJECT_LOCATIONS k"
  have objs: "cleared d CF_OBJECT_LOCATIONS = ?m"
    and meta: "cleared d CF_META = (d CF_META)(marker_key \<mapsto> marker_value)"
    by (auto simp: cleared_def)
  have "cleared d cf = d cf" if "cf \<noteq> CF_OBJECT_LOCATIONS" "cf \<noteq> CF_META" for cf
    using that by (simp add: cleared_def)
  then have other: "cleared d CF_OID_ALIASES = d CF_OID_ALIASES" "cleared d CF_REPOSITORIES = d CF_REPOSITORIES"
    "cleared d CF_REPO_SNAPSHOTS = d CF_REPO_SNAPSHOTS" "cleared d CF_CHUNKS = d CF_CHUNKS"
    "cleared d CF_WORKSPACES = d CF_WORKSPACES" "cleared d CF_WORKSPACE_NAMES = d CF_WORKSPACE_NAMES"
    "cleared d CF_PINS = d CF_PINS" "cleared d CF_JOBS = d CF_JOBS"
    by (simp_all add: cf_names)
  have "?m (encode_object_location_key cid) = None" if "content_id_wf cid" for cid
    using that by (simp add: object_location_key_eq catalog_consts)
  then have empty: "objects_cf.family_view ?m = Map.empty"
    by (auto simp: objects_cf.family_view_def fun_eq_iff)
  have marker: "(meta_cf.family_view ((d CF_META)(marker_key \<mapsto> marker_value)))(OBJECT_LOCATION_REBUILD_META_KEY := None)
      = (meta_cf.family_view (d CF_META))(OBJECT_LOCATION_REBUILD_META_KEY := None)"
    by (simp add: marker_key_def marker_value_def meta_cf.view_put)
  show "rocks_view (cleared d) = (rocks_view d)\<lparr>v_objects := Map.empty, v_rebuilding := True\<rparr>"
    using marker empty by (simp add: rocks_view_def objs meta other)
  have "objects_cf.family_wf ?m"
    using assms by (auto simp: rocks_wf_def objects_cf.family_wf_def split: if_splits)
  moreover have "meta_wf ((d CF_META)(marker_key \<mapsto> marker_value))"
    using assms by (simp add: rocks_wf_def meta_wf_def marker_key_def marker_value_def meta_cf.wf_put)
  ultimately show "rocks_wf (cleared d)"
    using assms by (simp add: rocks_wf_def objs meta other)
qed

lemma clear_refines:
  assumes ok: "rocks_ok e contents" and wf: "rocks_wf (contents d)"
    and m: "m d = clear_object_locations_and_mark_rebuild e d"
    and f: "f (rocks_view (contents d)) = Inr ((rocks_view (contents d))\<lparr>v_objects := Map.empty, v_rebuilding := True\<rparr>)"
  shows "refines_at contents m f d"
proof -
  have cf: "rocks_cf e d CF_OBJECT_LOCATIONS = Inr CF_OBJECT_LOCATIONS" "rocks_cf e d CF_META = Inr CF_META"
    using rocks_cf_ok [OF ok] by (simp_all add: ROCKSDB_COLUMN_FAMILIES_def)
  have run: "m d = rocks_write_sync e
      [DeleteRangeCf CF_OBJECT_LOCATIONS [CATALOG_VERSION] [CATALOG_VERSION + 1],
       PutCf CF_META marker_key marker_value] d"
    by (simp add: m clear_object_locations_and_mark_rebuild_def cf marker_key_def marker_value_def)
  show ?thesis
    by (rule refines_at_write_sync [OF ok wf, where m = m and f = f, OF run])
       (use cleared_view [OF wf, unfolded cleared_def] f in simp_all)
qed

lemma rocks_begin_refines:
  assumes ok: "rocks_ok e contents"
  shows "refines_step (rocks_invar contents) (rocks_abs contents) (rocks_begin_rebuild e) view_begin"
proof (rule refines_stepI)
  fix d
  assume wf: "rocks_wf (contents d)"
  let ?busy = "v_rebuilding (rocks_view (contents d))"
  consider (err) s where "read_object_location_rebuild_state e d = Inl (Backend s)"
    | (got) "read_object_location_rebuild_state e d = Inr (if ?busy then InProgress else Idle)"
    by (rule rebuild_state_cases [OF ok wf])
  then show "refines_at contents (rocks_begin_rebuild e) view_begin d"
  proof cases
    case err
    then show ?thesis using refines_at_failed(2) [where contents = contents, OF wf] by (simp add: rocks_begin_rebuild_def)
  next
    case got
    then show ?thesis
      using refines_at_failed(1) [where contents = contents, OF wf] clear_refines [OF ok wf]
      by (cases ?busy) (simp_all add: rocks_begin_rebuild_def view_begin_def)
  qed
qed

lemma rocks_restart_refines:
  assumes ok: "rocks_ok e contents"
  shows "refines_step (rocks_invar contents) (rocks_abs contents) (rocks_restart_rebuild e) view_restart"
proof (rule refines_stepI)
  fix d
  assume wf: "rocks_wf (contents d)"
  let ?v = "rocks_view (contents d)"
  consider (err) s where "read_object_location_rebuild_state e d = Inl (Backend s)"
    | (got) "read_object_location_rebuild_state e d = Inr (if v_rebuilding ?v then InProgress else Idle)"
    by (rule rebuild_state_cases [OF ok wf])
  then show "refines_at contents (rocks_restart_rebuild e) view_restart d"
  proof cases
    case err
    then show ?thesis using refines_at_failed(2) [where contents = contents, OF wf] by (simp add: rocks_restart_rebuild_def)
  next
    case got
    show ?thesis
    proof (cases "v_rebuilding ?v")
      case True
      then have "?v\<lparr>v_objects := Map.empty\<rparr> = ?v\<lparr>v_objects := Map.empty, v_rebuilding := True\<rparr>" by simp
      then show ?thesis
        using clear_refines [OF ok wf] got True by (simp add: rocks_restart_rebuild_def view_restart_def)
    next
      case False
      then show ?thesis
        using refines_at_failed(1) [where contents = contents, OF wf] got by (simp add: rocks_restart_rebuild_def view_restart_def)
    qed
  qed
qed

lemma rocks_reject_duplicates_result:
  assumes ok: "rocks_ok e contents" and wf: "rocks_wf (contents d)"
    and "list_all (\<lambda>x. content_id_wf (ole_content_id x)) es"
  shows "rocks_reject_duplicates e d CF_OBJECT_LOCATIONS seen es =
      reject_duplicates (\<lambda>cid. v_objects (rocks_view (contents d)) cid \<noteq> None) seen es \<or>
    (\<exists>s. rocks_reject_duplicates e d CF_OBJECT_LOCATIONS seen es = Inl (Backend s))"
  using assms(3)
proof (induction es arbitrary: seen)
  case (Cons x es)
  let ?cid = "ole_content_id x"
  have "objects_cf.family_wf (contents d CF_OBJECT_LOCATIONS)" using wf by (simp add: rocks_wf_def)
  then have present: "contents d CF_OBJECT_LOCATIONS (encode_object_location_key ?cid) = None \<longleftrightarrow>
      v_objects (rocks_view (contents d)) ?cid = None"
    using objects_cf.view_None_iff Cons.prems by (simp add: rocks_view_def)
  note IH = Cons.IH [of "?cid # seen"]
  consider (err) s where "rocks_get e d CF_OBJECT_LOCATIONS (encode_object_location_key ?cid) = Inl (Backend s)"
    | (got) "rocks_get e d CF_OBJECT_LOCATIONS (encode_object_location_key ?cid)
        = Inr (contents d CF_OBJECT_LOCATIONS (encode_object_location_key ?cid))"
    by (rule rocks_get_cases [OF ok])
  then show ?case using IH Cons.prems by cases (auto simp: present simp del: not_None_eq)
qed simp

lemma put_locations:
  assumes "list_all (\<lambda>x. content_id_wf (ole_content_id x)) es" and "distinct (map ole_content_id es)"
    and "rocks_wf d"
  defines "ws \<equiv> map (\<lambda>x. PutCf CF_OBJECT_LOCATIONS (encode_object_location_key (ole_content_id x))
      (encode_object_location_value (ole_location x))) es"
  shows "rocks_view (fold perform_write ws d) = (rocks_view d)\<lparr>v_objects := v_objects (rocks_view d) ++
      map_of (map (\<lambda>x. (ole_content_id x, ole_location x)) es)\<rparr> \<and> rocks_wf (fold perform_write ws d)"
  using assms(1-3) unfolding ws_def
proof (induction es arbitrary: d)
  case (Cons x es)
  let ?m = "map_of (map (\<lambda>x. (ole_content_id x, ole_location x)) es)"
  define d' where "d' = perform_write (write_of (OpObjectLocation (ole_content_id x) (ole_location x))) d"
  have step: "rocks_view d' =
      (rocks_view d)\<lparr>v_objects := (v_objects (rocks_view d))(ole_content_id x \<mapsto> ole_location x)\<rparr>"
    unfolding d'_def by (rule write_of_view) (use Cons.prems in simp_all)
  have keep: "rocks_wf d'"
    unfolding d'_def by (rule perform_write_view) (use Cons.prems in simp_all)
  have run: "perform_write (PutCf CF_OBJECT_LOCATIONS (encode_object_location_key (ole_content_id x))
      (encode_object_location_value (ole_location x))) d = d'"
    by (simp add: d'_def)
  have "ole_content_id x \<notin> dom ?m" using Cons.prems(2) by (auto simp: dom_map_of_conv_image_fst)
  then have "v_objects (rocks_view d') ++ ?m =
      v_objects (rocks_view d) ++ map_of (map (\<lambda>x. (ole_content_id x, ole_location x)) (x # es))"
    by (auto simp: step fun_eq_iff map_add_def split: option.splits)
  then have "(rocks_view d')\<lparr>v_objects := v_objects (rocks_view d') ++ ?m\<rparr> = (rocks_view d)\<lparr>v_objects :=
      v_objects (rocks_view d) ++ map_of (map (\<lambda>x. (ole_content_id x, ole_location x)) (x # es))\<rparr>"
    by (simp only:) (simp add: step)
  then show ?case
    using Cons.IH [of d'] Cons.prems keep unfolding list.map fold_simps run by (simp only: list.pred_inject distinct.simps list.map)
qed simp

lemma rocks_append_refines:
  assumes ok: "rocks_ok e contents" and es: "list_all (\<lambda>x. content_id_wf (ole_content_id x)) es"
  shows "refines_step (rocks_invar contents) (rocks_abs contents) (rocks_append_rebuilt e es) (view_append es)"
proof (rule refines_stepI)
  fix d
  assume wf: "rocks_wf (contents d)"
  let ?v = "rocks_view (contents d)"
  have cf: "rocks_cf e d CF_OBJECT_LOCATIONS = Inr CF_OBJECT_LOCATIONS"
    using rocks_cf_ok [OF ok] by (simp add: ROCKSDB_COLUMN_FAMILIES_def)
  consider (err) s where "read_object_location_rebuild_state e d = Inl (Backend s)"
    | (got) "read_object_location_rebuild_state e d = Inr (if v_rebuilding ?v then InProgress else Idle)"
    by (rule rebuild_state_cases [OF ok wf])
  then show "refines_at contents (rocks_append_rebuilt e es) (view_append es) d"
  proof cases
    case err
    then show ?thesis
      using refines_at_failed(2) [where contents = contents, OF wf] by (simp add: rocks_append_rebuilt_def)
  next
    case got
    show ?thesis
    proof (cases "v_rebuilding ?v")
      case False
      then show ?thesis using refines_at_failed(1) [where contents = contents, OF wf] got
        by (simp add: rocks_append_rebuilt_def view_append_def)
    next
      case True
      note chk = rocks_reject_duplicates_result [OF ok wf es, of "[]"]
      show ?thesis
      proof (cases "rocks_reject_duplicates e d CF_OBJECT_LOCATIONS [] es")
        case (Inl err)
        then have "rocks_append_rebuilt e es d = (Inl err, d)" using got True cf by (simp add: rocks_append_rebuilt_def)
        moreover have "reject_duplicates (\<lambda>cid. v_objects ?v cid \<noteq> None) [] es = Inl err \<or> (\<exists>s. err = Backend s)"
          using chk unfolding Inl by (auto simp del: not_None_eq)
        ultimately show ?thesis using wf True by (auto simp: refines_at_def view_append_def simp del: not_None_eq)
      next
        case (Inr u)
        then have rej: "reject_duplicates (\<lambda>cid. v_objects ?v cid \<noteq> None) [] es = Inr u" using chk by auto
        then have dist: "distinct (map ole_content_id es)" by (simp add: reject_duplicates_ok)
        have run: "rocks_append_rebuilt e es d = rocks_write_sync e (map (\<lambda>x. PutCf CF_OBJECT_LOCATIONS
            (encode_object_location_key (ole_content_id x)) (encode_object_location_value (ole_location x))) es) d"
          using Inr got True cf by (simp add: rocks_append_rebuilt_def)
        show ?thesis
          by (rule refines_at_write_sync [OF ok wf, where m = "rocks_append_rebuilt e es", OF run])
             (use put_locations [OF es dist wf] rej True in \<open>simp_all add: view_append_def\<close>)
      qed
    qed
  qed
qed

lemma unmarked:
  assumes "rocks_wf d"
  shows "rocks_view (perform_write (DeleteCf CF_META marker_key) d) = (rocks_view d)\<lparr>v_rebuilding := False\<rparr>"
    and "rocks_wf (perform_write (DeleteCf CF_META marker_key) d)"
proof -
  have "meta_cf.family_view ((d CF_META)(marker_key := None)) =
      (meta_cf.family_view (d CF_META))(OBJECT_LOCATION_REBUILD_META_KEY := None)"
    by (simp add: marker_key_def meta_cf.view_delete)
  then show "rocks_view (perform_write (DeleteCf CF_META marker_key) d) = (rocks_view d)\<lparr>v_rebuilding := False\<rparr>"
    by (simp add: rocks_view_def cf_names)
  show "rocks_wf (perform_write (DeleteCf CF_META marker_key) d)"
    using assms by (simp add: rocks_wf_def meta_wf_def meta_cf.wf_delete cf_names)
qed

lemma rocks_finish_refines:
  assumes ok: "rocks_ok e contents"
  shows "refines_step (rocks_invar contents) (rocks_abs contents) (rocks_finish_rebuild e) view_finish"
proof (rule refines_stepI)
  fix d
  assume wf: "rocks_wf (contents d)"
  let ?v = "rocks_view (contents d)"
  have cf: "rocks_cf e d CF_META = Inr CF_META"
    using rocks_cf_ok [OF ok] by (simp add: ROCKSDB_COLUMN_FAMILIES_def)
  consider (err) s where "read_object_location_rebuild_state e d = Inl (Backend s)"
    | (got) "read_object_location_rebuild_state e d = Inr (if v_rebuilding ?v then InProgress else Idle)"
    by (rule rebuild_state_cases [OF ok wf])
  then show "refines_at contents (rocks_finish_rebuild e) view_finish d"
  proof cases
    case err
    then show ?thesis
      using refines_at_failed(2) [where contents = contents, OF wf] by (simp add: rocks_finish_rebuild_def)
  next
    case got
    show ?thesis
    proof (cases "v_rebuilding ?v")
      case False
      then show ?thesis using refines_at_failed(1) [where contents = contents, OF wf] got
        by (simp add: rocks_finish_rebuild_def view_finish_def)
    next
      case True
      have run: "rocks_finish_rebuild e d = rocks_write_sync e [DeleteCf CF_META marker_key] d"
        using got True cf by (simp add: rocks_finish_rebuild_def marker_key_def)
      show ?thesis
        by (rule refines_at_write_sync [OF ok wf, where m = "rocks_finish_rebuild e", OF run])
           (use unmarked [OF wf] True in \<open>simp_all add: view_finish_def\<close>)
    qed
  qed
qed

section \<open>The reading methods\<close>

lemma rocks_get_reads:
  assumes "rocks_ok e contents" and "rocks_reads_ok e"
  shows "rocks_get e d cf k = Inr (contents d cf k)"
  using assms by (auto simp: rocks_ok_def rocks_reads_ok_def rocks_get_def) (metis map_err.simps(2))

lemma rebuild_state_reads:
  assumes "rocks_ok e contents" and "rocks_reads_ok e" and "rocks_wf (contents d)"
  shows "read_object_location_rebuild_state e d =
    Inr (if v_rebuilding (rocks_view (contents d)) then InProgress else Idle)"
proof -
  have "rocks_cf e d CF_META = Inr CF_META"
    using rocks_cf_ok [OF assms(1)] by (simp add: ROCKSDB_COLUMN_FAMILIES_def)
  moreover have "contents d CF_META marker_key = Some b \<Longrightarrow> b = marker_value" for b
    using assms(3) by (simp add: rocks_wf_def meta_wf_def)
  ultimately show ?thesis
    using marker_decodes
    by (cases "contents d CF_META marker_key")
       (auto simp: read_object_location_rebuild_state_def rocks_get_reads [OF assms(1,2)] rocks_view_def
          simp flip: marker_key_def)
qed

lemma rocks_lookup_reads:
  assumes "rocks_ok e contents" and "rocks_reads_ok e" and "cf \<in> set ROCKSDB_COLUMN_FAMILIES"
  shows "rocks_lookup e d cf k dec = (case contents d cf k of None \<Rightarrow> None | Some v \<Rightarrow> ok (dec v))"
  using rocks_cf_ok [OF assms(1,3)] rocks_get_reads [OF assms(1,2)]
  by (simp add: rocks_lookup_def split: option.splits)

lemma rocks_scan_reads:
  assumes "rocks_ok e contents" and "rocks_reads_ok e" and "cf \<in> set ROCKSDB_COLUMN_FAMILIES"
  shows "\<exists>es. enumerates fst (\<lambda>(k, v). contents d cf k = Some v) es \<and>
    (\<forall>dec :: bytes \<Rightarrow> bytes \<Rightarrow> catalog_error + 'x. rocks_scan e d cf dec = map (\<lambda>(k, v). dec k v) es)"
proof -
  obtain es where es: "enumerates fst (\<lambda>(k, v). contents d cf k = Some v) es"
    "rk_iter e d cf = map Inr es \<or> (\<exists>n err. rk_iter e d cf = map Inr (take n es) @ [Inl err])"
    using assms(1) unfolding rocks_ok_def by blast
  have "\<exists>kv. x = Inr kv" if "x \<in> set (rk_iter e d cf)" for x
    using assms(2) that unfolding rocks_reads_ok_def by blast
  then have "rk_iter e d cf = map Inr es" using es(2) by fastforce
  then have "rocks_scan e d cf dec = map (\<lambda>(k, v). dec k v) es" for dec :: "bytes \<Rightarrow> bytes \<Rightarrow> catalog_error + 'x"
    using rocks_cf_ok [OF assms(1,3)] by (auto simp: rocks_scan_def)
  then show ?thesis using es(1) by blast
qed

end
