(* ===== verification/CatalogLaws.thy ===== *)
theory CatalogLaws
  imports CatalogMem
begin

text \<open>
  What the clients of a catalog may conclude from its contract: batches are atomic, an alias never
  changes whatever is done to the catalog, a rebuild fails closed until it is finished and then
  serves exactly the appended locations, deleting a repository removes its roots, and the garbage
  collection roots are exactly the visible snapshots and pins.
\<close>

section \<open>Reachable catalogs\<close>

inductive catalog_step :: "'c catalog_ops \<Rightarrow> 'c \<Rightarrow> 'c \<Rightarrow> bool" for ops :: "'c catalog_ops" where
  step_apply: "batch_wf b \<Longrightarrow> cat_apply ops b c = (r, c') \<Longrightarrow> catalog_step ops c c'"
| step_begin: "cat_begin_rebuild ops c = (r, c') \<Longrightarrow> catalog_step ops c c'"
| step_restart: "cat_restart_rebuild ops c = (r, c') \<Longrightarrow> catalog_step ops c c'"
| step_append: "list_all (\<lambda>e. content_id_wf (ole_content_id e)) es \<Longrightarrow>
    cat_append_rebuilt ops es c = (r, c') \<Longrightarrow> catalog_step ops c c'"
| step_finish: "cat_finish_rebuild ops c = (r, c') \<Longrightarrow> catalog_step ops c c'"

inductive_cases catalog_stepE: "catalog_step ops c c'"

text \<open>The rebuild protocol as one run: begin, the batches in order, finish.\<close>

fun append_all :: "'c catalog_ops \<Rightarrow> object_location_entry list list \<Rightarrow> ('c, catalog_error, unit) eff" where
  "append_all ops [] = ret ()"
| "append_all ops (es # ess) = seq_eff (cat_append_rebuilt ops es) (\<lambda>_. append_all ops ess)"

definition run_rebuild :: "'c catalog_ops \<Rightarrow> object_location_entry list list \<Rightarrow> ('c, catalog_error, unit) eff" where
  "run_rebuild ops ess =
     seq_eff (cat_begin_rebuild ops) (\<lambda>_. seq_eff (append_all ops ess) (\<lambda>_. cat_finish_rebuild ops))"

definition entry_map :: "object_location_entry list \<Rightarrow> content_id \<rightharpoonup> object_location" where
  "entry_map es = map_of (map (\<lambda>e. (ole_content_id e, ole_location e)) es)"

lemma dom_entry_map: "dom (entry_map es) = ole_content_id ` set es"
  by (force simp: entry_map_def dom_map_of_conv_image_fst)

lemma entry_map_append: "entry_map (es @ fs) = entry_map fs ++ entry_map es"
  by (simp add: entry_map_def)

section \<open>Views\<close>

lemma view_stage_aliases:
  assumes "view_stage op v = Inr v'" and "v_aliases v k = Some cid"
  shows "v_aliases v' k = Some cid"
  using assms by (cases op) (auto split: option.splits if_splits)

lemma view_stage_rebuilding: "view_stage op v = Inr v' \<Longrightarrow> v_rebuilding v' = v_rebuilding v"
  by (cases op) (auto split: option.splits if_splits)

lemma view_apply_aliases:
  assumes "view_apply b v = Inr v'" and "v_aliases v k = Some cid"
  shows "v_aliases v' k = Some cid"
proof -
  have "fold_result view_stage (operations b) v = Inr v'"
    using assms(1) by (auto simp: view_apply_def ok_iff split: if_splits)
  then show ?thesis
    by (rule fold_result_invariant [where P = "\<lambda>v. v_aliases v k = Some cid", OF view_stage_aliases assms(2), rotated 2])
qed

lemma view_protocol_aliases:
  "view_begin v = Inr v' \<Longrightarrow> v_aliases v' = v_aliases v"
  "view_restart v = Inr v' \<Longrightarrow> v_aliases v' = v_aliases v"
  "view_append es v = Inr v' \<Longrightarrow> v_aliases v' = v_aliases v"
  "view_finish v = Inr v' \<Longrightarrow> v_aliases v' = v_aliases v"
  by (auto simp: view_begin_def view_restart_def view_append_def view_finish_def ok_iff split: if_splits)

lemma view_append_Inr:
  assumes "view_append es v = Inr v'"
  shows "v_rebuilding v" and "distinct (map ole_content_id es)"
    and "\<And>e. e \<in> set es \<Longrightarrow> v_objects v (ole_content_id e) = None"
    and "v' = v\<lparr>v_objects := v_objects v ++ entry_map es\<rparr>"
  using assms by (auto simp: view_append_def ok_iff reject_duplicates_ok entry_map_def split: if_splits)

lemma view_stage_delete_snapshots:
  "fold_result view_stage (map (OpDeleteRepositorySnapshot r) ss) v =
    Inr (v\<lparr>v_snapshots := (\<lambda>k. if fst k = r \<and> snd k \<in> set ss then None else v_snapshots v k)\<rparr>)"
proof (induction ss arbitrary: v)
  case (Cons s ss)
  then show ?case by (auto simp: fun_eq_iff)
qed simp

lemma delete_repository_batch:
  "operations (fold (\<lambda>snapshot batch. if rs_repository snapshot = r
      then delete_repository_snapshot r (rs_snapshot snapshot) batch else batch) ss b)
    = operations b @ map (OpDeleteRepositorySnapshot r) (map rs_snapshot (filter (\<lambda>s. rs_repository s = r) ss))"
  by (induction ss arbitrary: b) (auto simp: delete_repository_snapshot_def batch_push_def)

section \<open>Laws of every catalog\<close>

context catalog
begin

lemma apply_atomic:
  assumes "invar c" and "batch_wf b" and "cat_apply ops b c = (Inl e, c')"
  shows "view c' = view c"
  using refines_stepD(3) [OF apply_refines [OF assms(2)] assms(1,3)] .

lemma step_invar: "catalog_step ops c c' \<Longrightarrow> invar c \<Longrightarrow> invar c'"
  by (elim catalog_stepE)
     (blast intro: refines_stepD(1) [OF apply_refines] refines_stepD(1) [OF begin_refines]
       refines_stepD(1) [OF restart_refines] refines_stepD(1) [OF append_refines] refines_stepD(1) [OF finish_refines])+

lemma refines_alias:
  assumes "refines_step invar view m f" and "invar c" and "m c = (r, c')"
    and "\<And>v'. f (view c) = Inr v' \<Longrightarrow> v_aliases v' k = Some cid" and "v_aliases (view c) k = Some cid"
  shows "v_aliases (view c') k = Some cid"
proof (cases r)
  case (Inl e)
  then show ?thesis using refines_stepD(3) [OF assms(1,2)] assms(3,5) by auto
next
  case (Inr u)
  then show ?thesis using refines_stepD(2) [OF assms(1,2)] assms(3,4) by auto
qed

lemma step_alias:
  assumes "catalog_step ops c c'" and "invar c" and "v_aliases (view c) k = Some cid"
  shows "v_aliases (view c') k = Some cid"
  using assms(1)
proof cases
  case (step_apply b r)
  show ?thesis
    by (rule refines_alias [OF apply_refines [OF step_apply(1)] assms(2) step_apply(2) _ assms(3)])
       (rule view_apply_aliases [OF _ assms(3)])
next
  case (step_begin r)
  show ?thesis
    by (rule refines_alias [OF begin_refines assms(2) step_begin _ assms(3)])
       (simp add: view_protocol_aliases assms(3))
next
  case (step_restart r)
  show ?thesis
    by (rule refines_alias [OF restart_refines assms(2) step_restart _ assms(3)])
       (simp add: view_protocol_aliases assms(3))
next
  case (step_append es r)
  show ?thesis
    by (rule refines_alias [OF append_refines [OF step_append(1)] assms(2) step_append(2) _ assms(3)])
       (simp add: view_protocol_aliases(3) assms(3))
next
  case (step_finish r)
  show ?thesis
    by (rule refines_alias [OF finish_refines assms(2) step_finish _ assms(3)])
       (simp add: view_protocol_aliases assms(3))
qed

lemma alias_immutable:
  assumes "(catalog_step ops)\<^sup>*\<^sup>* c c'" and "invar c" and "v_aliases (view c) k = Some cid"
  shows "invar c' \<and> v_aliases (view c') k = Some cid"
  using assms by (induction rule: rtranclp_induct) (auto intro: step_invar step_alias)

lemma rebuilding_closed:
  assumes "invar c" and "v_rebuilding (view c)" and "batch_wf b" and "content_id_wf cid"
  shows "cat_object_location ops c cid = None"
    and "\<exists>e. fst (cat_apply ops b c) = Inl e" and "view (snd (cat_apply ops b c)) = view c"
proof -
  show "cat_object_location ops c cid = None" using assms by (simp add: object_location)
  obtain r c' where run: "cat_apply ops b c = (r, c')" by fastforce
  have "\<nexists>u. r = Inr u"
    using refines_stepD(2) [OF apply_refines [OF assms(3)] assms(1)] run assms(2) by (auto simp: view_apply_def)
  then obtain e where "r = Inl e" by (cases r) auto
  then show "\<exists>e. fst (cat_apply ops b c) = Inl e" and "view (snd (cat_apply ops b c)) = view c"
    using refines_stepD(3) [OF apply_refines [OF assms(3)] assms(1)] run by auto
qed

lemma append_all_result:
  assumes "invar c" and "v_rebuilding (view c)"
    and "list_all (list_all (\<lambda>e. content_id_wf (ole_content_id e))) ess" and "append_all ops ess c = (r, c')"
  shows "invar c' \<and> (\<exists>m. view c' = (view c)\<lparr>v_objects := m\<rparr>) \<and>
    (r = Inr () \<longrightarrow> view c' = (view c)\<lparr>v_objects := v_objects (view c) ++ entry_map (concat ess)\<rparr> \<and>
      distinct (map ole_content_id (concat ess)) \<and>
      (\<forall>e \<in> set (concat ess). v_objects (view c) (ole_content_id e) = None))"
  using assms
proof (induction ess arbitrary: c)
  case Nil
  then show ?case by (auto simp: entry_map_def intro: exI [of _ "v_objects (view c)"])
next
  case (Cons es ess)
  have wf: "list_all (\<lambda>e. content_id_wf (ole_content_id e)) es" using Cons.prems(3) by simp
  note ref = refines_stepD [OF append_refines [OF wf] Cons.prems(1)]
  from Cons.prems(4) have "seq_eff (cat_append_rebuilt ops es) (\<lambda>_. append_all ops ess) c = (r, c')" by simp
  then show ?case
  proof (cases rule: seq_eff_elim)
    case (fail e)
    then show ?thesis using ref(1,3) by (auto intro: exI [of _ "v_objects (view c)"])
  next
    case (cont x d)
    have d: "view_append es (view c) = Inr (view d)" by (rule ref(2) [OF cont(1)])
    note vd = view_append_Inr [OF d]
    have inv: "invar d" by (rule ref(1) [OF cont(1)])
    have reb: "v_rebuilding (view d)" using vd(4) Cons.prems(2) by simp
    from Cons.IH [OF inv reb _ cont(2)] Cons.prems(3)
    have IH: "invar c'" "\<exists>m. view c' = (view d)\<lparr>v_objects := m\<rparr>"
      "r = Inr () \<Longrightarrow> view c' = (view d)\<lparr>v_objects := v_objects (view d) ++ entry_map (concat ess)\<rparr> \<and>
        distinct (map ole_content_id (concat ess)) \<and>
        (\<forall>e \<in> set (concat ess). v_objects (view d) (ole_content_id e) = None)"
      by auto
    have objs: "v_objects (view d) = v_objects (view c) ++ entry_map es" using vd(4) by simp
    have "\<exists>m. view c' = (view c)\<lparr>v_objects := m\<rparr>" using IH(2) vd(4) by auto
    moreover have "view c' = (view c)\<lparr>v_objects := v_objects (view c) ++ entry_map (concat (es # ess))\<rparr> \<and>
      distinct (map ole_content_id (concat (es # ess))) \<and>
      (\<forall>e \<in> set (concat (es # ess)). v_objects (view c) (ole_content_id e) = None)" if "r = Inr ()"
    proof -
      note fin = IH(3) [OF that]
      have new: "v_objects (view c) (ole_content_id e) = None \<and> ole_content_id e \<notin> ole_content_id ` set es"
        if "e \<in> set (concat ess)" for e
      proof -
        have "(v_objects (view c) ++ entry_map es) (ole_content_id e) = None" using fin that objs by auto
        then have "entry_map es (ole_content_id e) = None" "v_objects (view c) (ole_content_id e) = None"
          by (simp_all add: map_add_None)
        then show ?thesis by (force simp: entry_map_def map_of_eq_None_iff)
      qed
      have "ole_content_id a \<noteq> ole_content_id e" if "a \<in> set es" "e \<in> set (concat ess)" for a e
        using new [OF that(2)] that(1) by (metis imageI)
      then have apart: "ole_content_id ` set es \<inter> ole_content_id ` set (concat ess) = {}"
        by (auto simp del: set_concat)
      then have disj: "distinct (map ole_content_id (concat (es # ess)))"
        using fin vd(2) by (simp del: set_concat)
      have "entry_map (concat (es # ess)) = entry_map es ++ entry_map (concat ess)"
        using entry_map_append [of es "concat ess"] map_add_comm [of "entry_map es" "entry_map (concat ess)"] apart
        by (simp add: dom_entry_map del: set_concat)
      then show ?thesis using fin vd(3,4) disj new objs by auto
    qed
    ultimately show ?thesis using IH(1) by blast
  qed
qed

lemma run_rebuild_result:
  assumes "invar c" and "list_all (list_all (\<lambda>e. content_id_wf (ole_content_id e))) ess"
    and "run_rebuild ops ess c = (r, c')"
  shows "invar c' \<and> (\<exists>m b. view c' = (view c)\<lparr>v_objects := m, v_rebuilding := b\<rparr>) \<and>
    (case r of
       Inr _ \<Rightarrow> distinct (map ole_content_id (concat ess)) \<and>
         view c' = (view c)\<lparr>v_objects := entry_map (concat ess), v_rebuilding := False\<rparr>
     | Inl e \<Rightarrow> view c' = view c \<or> v_rebuilding (view c'))"
  using assms(3) unfolding run_rebuild_def
proof (cases rule: seq_eff_elim)
  case (fail e)
  have "invar c'" "view c' = view c"
    using refines_stepD(1,3) [OF begin_refines assms(1)] fail(1) by blast+
  moreover have "\<exists>m b. view c = (view c)\<lparr>v_objects := m, v_rebuilding := b\<rparr>"
    by (rule exI [of _ "v_objects (view c)"], rule exI [of _ "v_rebuilding (view c)"]) simp
  ultimately show ?thesis using fail(2) by simp
next
  case (cont x d)
  note bd = refines_stepD [OF begin_refines assms(1)]
  have vd: "view d = (view c)\<lparr>v_objects := Map.empty, v_rebuilding := True\<rparr>" "\<not> v_rebuilding (view c)"
    using bd(2) [OF cont(1)] by (auto simp: view_begin_def split: if_splits)
  have id: "invar d" by (rule bd(1) [OF cont(1)])
  have reb: "v_rebuilding (view d)" using vd(1) by simp
  from cont(2) show ?thesis
  proof (cases rule: seq_eff_elim)
    case (fail e)
    from append_all_result [OF id reb assms(2) fail(1)] obtain m where
      "invar c'" "view c' = (view d)\<lparr>v_objects := m\<rparr>" by blast
    then show ?thesis
      using fail(2) vd(1) by (auto intro!: exI [of _ m] exI [of _ True])
  next
    case (cont x d')
    from append_all_result [OF id reb assms(2) cont(1)] have
      id': "invar d'" and vd': "view d' = (view d)\<lparr>v_objects := v_objects (view d) ++ entry_map (concat ess)\<rparr>"
      and dist: "distinct (map ole_content_id (concat ess))" by auto
    have vd'': "view d' = (view c)\<lparr>v_objects := entry_map (concat ess), v_rebuilding := True\<rparr>"
      using vd' vd(1) by simp
    note fd = refines_stepD [OF finish_refines id']
    have ic: "invar c'" by (rule fd(1) [OF cont(2)])
    show ?thesis
    proof (cases r)
      case (Inl e)
      then have "view c' = view d'" using fd(3) cont(2) by simp
      then show ?thesis using ic Inl vd'' by auto
    next
      case (Inr u)
      then have "view c' = (view d')\<lparr>v_rebuilding := False\<rparr>"
        using fd(2) [of u c'] cont(2) by (auto simp: view_finish_def split: if_splits)
      then show ?thesis using ic Inr vd'' dist by auto
    qed
  qed
qed

lemma delete_repository_result:
  assumes "invar c" and "repo_id_wf repo" and "delete_repository ops repo c = (Inr u, c')"
  shows "invar c' \<and> view c' = (view c)\<lparr>v_repositories := (v_repositories (view c))(repo := None),
    v_snapshots := (\<lambda>k. if fst k = repo then None else v_snapshots (view c) k)\<rparr>"
proof -
  from repository_snapshots [OF assms(1)] obtain es where
    es: "cat_repository_snapshots ops c = Inr es"
      "\<And>e. e \<in> set es \<longleftrightarrow> v_snapshots (view c) (rs_repository e, rs_snapshot e) = Some (rs_visibility e)"
    by (auto simp: enumerates_def)
  define b where "b = fold (\<lambda>snapshot batch. if rs_repository snapshot = repo
      then delete_repository_snapshot repo (rs_snapshot snapshot) batch else batch) es
      (batch_delete_repository repo batch_new)"
  define ss where "ss = map rs_snapshot (filter (\<lambda>s. rs_repository s = repo) es)"
  have ops: "operations b = OpDeleteRepository repo # map (OpDeleteRepositorySnapshot repo) ss"
    by (simp add: b_def ss_def delete_repository_batch batch_delete_repository_def batch_push_def batch_new_def)
  have ss: "s \<in> set ss \<longleftrightarrow> v_snapshots (view c) (repo, s) \<noteq> None" for s
  proof
    assume "s \<in> set ss"
    then show "v_snapshots (view c) (repo, s) \<noteq> None" using es(2) by (auto simp: ss_def)
  next
    assume "v_snapshots (view c) (repo, s) \<noteq> None"
    then obtain vis where "\<lparr>rs_repository = repo, rs_snapshot = s, rs_visibility = vis\<rparr> \<in> set es"
      using es(2) by auto
    then show "s \<in> set ss" by (force simp: ss_def)
  qed
  have "snapshot_id_wf s" if "s \<in> set ss" for s
    using view_wf [OF assms(1)] that ss by fastforce
  then have wf: "batch_wf b" using assms(2) by (auto simp: batch_wf_def ops list_all_iff)
  have run: "cat_apply ops b c = (Inr u, c')"
    using assms(3) by (simp add: delete_repository_def es(1) b_def)
  note ref = refines_stepD [OF apply_refines [OF wf] assms(1)]
  have "view c' = (view c)\<lparr>v_repositories := (v_repositories (view c))(repo := None),
    v_snapshots := (\<lambda>k. if fst k = repo \<and> snd k \<in> set ss then None else v_snapshots (view c) k)\<rparr>"
  proof -
    have idle: "\<not> v_rebuilding (view c)"
      using ref(2) [OF run] by (auto simp: view_apply_def split: if_splits)
    have "reject_direct_rebuild_marker_mutation b = Inr ()" by (auto simp: ok_iff ops)
    then have "view_apply b (view c) = Inr ((view c)\<lparr>v_repositories := (v_repositories (view c))(repo := None),
      v_snapshots := (\<lambda>k. if fst k = repo \<and> snd k \<in> set ss then None else v_snapshots (view c) k)\<rparr>)"
      by (simp add: view_apply_def idle ops view_stage_delete_snapshots cong: if_cong)
    then show ?thesis using ref(2) [OF run] by simp
  qed
  moreover have "(\<lambda>k. if fst k = repo \<and> snd k \<in> set ss then None else v_snapshots (view c) k)
      = (\<lambda>k. if fst k = repo then None else v_snapshots (view c) k)"
    using ss by (auto simp: fun_eq_iff)
  ultimately show ?thesis using ref(1) [OF run] by simp
qed

lemma current_generation_published:
  assumes "invar c" and "batch_wf b" and "cat_apply ops (put_current_generation g b) c = (Inr u, c')"
  shows "current_generation ops c' = Some g"
proof -
  have wf: "batch_wf (put_current_generation g b)"
    using assms(2) by (simp add: batch_wf_def put_current_generation_def batch_push_def)
  note ref = refines_stepD [OF apply_refines [OF wf] assms(1)]
  have "\<exists>v. view_stage (OpMeta CURRENT_GENERATION_META_KEY (u32_be g)) v = Inr (view c')"
    using ref(2) [OF assms(3)]
    by (auto simp: view_apply_def put_current_generation_def batch_push_def fold_result_append ok_iff
        split: if_splits)
  then obtain v where "v\<lparr>v_meta := (v_meta v)(CURRENT_GENERATION_META_KEY \<mapsto> u32_be g)\<rparr> = view c'" by auto
  from this [symmetric] have "v_meta (view c') CURRENT_GENERATION_META_KEY = Some (u32_be g)" by simp
  then show ?thesis
    using meta [OF ref(1) [OF assms(3)]] by (simp add: current_generation_def)
qed

lemma gc_roots_result:
  assumes "invar c"
  shows "\<exists>roots. gc_roots ops c = Inr roots \<and> sorted (map root_order roots) \<and>
    set roots = {RootSnapshot r s | r s. v_snapshots (view c) (r, s) = Some Ready}
      \<union> {RootWorkspacePin w g | w g. v_workspace_pins (view c) w = Some g}
      \<union> {RootExplicitPin p | p. v_gc_pins (view c) (pin_id p) = Some (pin_generation p)}"
proof -
  obtain ss where ss: "cat_repository_snapshots ops c = Inr ss"
      "\<And>e. e \<in> set ss \<longleftrightarrow> v_snapshots (view c) (rs_repository e, rs_snapshot e) = Some (rs_visibility e)"
    using repository_snapshots [OF assms] by (auto simp: enumerates_def)
  obtain ws where ws: "cat_workspace_pins ops c = Inr ws"
      "\<And>w g. (w, g) \<in> set ws \<longleftrightarrow> v_workspace_pins (view c) w = Some g"
    using workspace_pins [OF assms] by (auto simp: enumerates_def)
  obtain ps where ps: "cat_gc_pins ops c = Inr ps"
      "\<And>e. e \<in> set ps \<longleftrightarrow> v_gc_pins (view c) (pin_id e) = Some (pin_generation e)"
    using gc_pins [OF assms] by (auto simp: enumerates_def)
  let ?a = "map (\<lambda>s. RootSnapshot (rs_repository s) (rs_snapshot s)) (filter (\<lambda>s. rs_visibility s = Ready) ss)"
  let ?b = "map (\<lambda>(workspace, generation). RootWorkspacePin workspace generation) ws"
  have "gc_roots ops c = Inr (sort_key root_order ((?a @ ?b) @ map RootExplicitPin ps))"
    by (simp add: gc_roots_def ss(1) ws(1) ps(1))
  moreover have "set ?a = {RootSnapshot r s | r s. v_snapshots (view c) (r, s) = Some Ready}"
  proof -
    have "\<exists>e \<in> set ss. rs_visibility e = Ready \<and> r = rs_repository e \<and> s = rs_snapshot e"
      if "v_snapshots (view c) (r, s) = Some Ready" for r s
      using ss(2) [of "\<lparr>rs_repository = r, rs_snapshot = s, rs_visibility = Ready\<rparr>"] that by force
    then show ?thesis using ss(2) by fastforce
  qed
  moreover have "set ?b = {RootWorkspacePin w g | w g. v_workspace_pins (view c) w = Some g}"
    using ws(2) by force
  moreover have "set (map RootExplicitPin ps) = {RootExplicitPin p | p. v_gc_pins (view c) (pin_id p) = Some (pin_generation p)}"
    using ps(2) by auto
  ultimately show ?thesis by auto
qed

end

end
