(* ===== verification/RocksContract.thy ===== *)
theory RocksContract
  imports RocksRefine CatalogLaws
begin

text \<open>
  The reading methods of the RocksDB catalog list and return what the view holds, so that over an
  engine that keeps its promise and whose reads succeed the RocksDB catalog satisfies the same
  contract as the in-memory one.
\<close>

section \<open>The order of the encoded keys\<close>

lemma location_key_less:
  "content_id_wf a \<Longrightarrow> content_id_wf b \<Longrightarrow>
    encode_object_location_key a < encode_object_location_key b \<longleftrightarrow> content_id_bytes a < content_id_bytes b"
  by (simp add: object_location_key_eq)

lemma alias_key_eq:
  assumes "alias_key_wf (r, oid)"
  shows "encode_oid_alias_key r oid = CATALOG_VERSION # repo_bytes r @
    [algorithm_tag (oid_algorithm oid), oid_len oid] @ oid_as_bytes oid"
  using assms by (simp add: encode_oid_alias_key_def alias_key_wf_def)

lemma alias_key_less:
  assumes "alias_key_wf (r, oid)" and "alias_key_wf (r', oid')"
    and "encode_oid_alias_key r oid < encode_oid_alias_key r' oid'"
  shows "(r, algorithm_tag (oid_algorithm oid), oid_as_bytes oid) <
    (r', algorithm_tag (oid_algorithm oid'), oid_as_bytes oid')"
proof -
  have len: "length (repo_bytes r) = length (repo_bytes r')"
    using assms(1,2) by (simp add: alias_key_wf_def id_wf_defs)
  have "oid_len oid = oid_len oid'" if "algorithm_tag (oid_algorithm oid) = algorithm_tag (oid_algorithm oid')"
    using assms(1,2) that
    by (cases "oid_algorithm oid"; cases "oid_algorithm oid'") (auto simp: alias_key_wf_def git_oid_wf_def)
  then show ?thesis
    using assms(3) by (auto simp: alias_key_eq [OF assms(1)] alias_key_eq [OF assms(2)]
        less_append_same_length [OF len] less_repo_id_def less_eq_repo_id_def repo_id.expand)
qed

lemma chunk_key_less:
  "encode_chunk_key g c < encode_chunk_key g' c' \<longleftrightarrow> (g, c) < (g', c')"
proof -
  have "length (u32_be g) = length (u32_be g')" by simp
  then show ?thesis
    by (auto simp: chunk_key_eq less_append_same_length u_be_less u_be_inject)
qed

lemma snapshot_key_less:
  assumes "snapshot_key_wf (r, s)" and "snapshot_key_wf (r', s')"
    and "encode_repository_snapshot_key r s < encode_repository_snapshot_key r' s'"
  shows "r < r' \<or> r = r' \<and> s < s'"
proof -
  have "length (repo_bytes r) = length (repo_bytes r')"
    using assms(1,2) by (simp add: id_wf_defs)
  then show ?thesis
    using assms by (auto simp: repository_snapshot_key_eq less_append_same_length less_repo_id_def
        less_snapshot_id_def repo_id.expand)
qed

section \<open>The scans\<close>

lemma ex_entry:
  "(\<exists>k v. x = \<lparr>ole_content_id = k, ole_location = v\<rparr> \<and> P k v) \<longleftrightarrow> P (ole_content_id x) (ole_location x)"
  "(\<exists>r oid v. a = \<lparr>oae_repository = r, oae_oid = oid, oae_content_id = v\<rparr> \<and> Q r oid v) \<longleftrightarrow>
     Q (oae_repository a) (oae_oid a) (oae_content_id a)"
  "(\<exists>g k v. c = \<lparr>ce_generation = g, ce_chunk_id = k, ce_metadata = v\<rparr> \<and> R g k v) \<longleftrightarrow>
     R (ce_generation c) (ce_chunk_id c) (ce_metadata c)"
  "(\<exists>r i v. s = \<lparr>rs_repository = r, rs_snapshot = i, rs_visibility = v\<rparr> \<and> S r i v) \<longleftrightarrow>
     S (rs_repository s) (rs_snapshot s) (rs_visibility s)"
  "(\<exists>i v. p = \<lparr>pin_id = i, pin_generation = v\<rparr> \<and> T i v) \<longleftrightarrow> T (pin_id p) (pin_generation p)"
  by (cases x, simp) (cases a, simp, cases c, simp, cases s, simp, cases p, simp)

lemma column_family [simp]:
  "CF_OBJECT_LOCATIONS \<in> set ROCKSDB_COLUMN_FAMILIES" "CF_OID_ALIASES \<in> set ROCKSDB_COLUMN_FAMILIES"
  "CF_REPOSITORIES \<in> set ROCKSDB_COLUMN_FAMILIES" "CF_REPO_SNAPSHOTS \<in> set ROCKSDB_COLUMN_FAMILIES"
  "CF_CHUNKS \<in> set ROCKSDB_COLUMN_FAMILIES" "CF_META \<in> set ROCKSDB_COLUMN_FAMILIES"
  "CF_WORKSPACES \<in> set ROCKSDB_COLUMN_FAMILIES" "CF_WORKSPACE_NAMES \<in> set ROCKSDB_COLUMN_FAMILIES"
  "CF_PINS \<in> set ROCKSDB_COLUMN_FAMILIES" "CF_JOBS \<in> set ROCKSDB_COLUMN_FAMILIES"
  by (simp_all add: ROCKSDB_COLUMN_FAMILIES_def)

lemma rocks_view_sel:
  "v_objects (rocks_view d) = objects_cf.family_view (d CF_OBJECT_LOCATIONS)"
  "v_aliases (rocks_view d) = aliases_cf.family_view (d CF_OID_ALIASES)"
  "v_repositories (rocks_view d) = repositories_cf.family_view (d CF_REPOSITORIES)"
  "v_snapshots (rocks_view d) = snapshots_cf.family_view (d CF_REPO_SNAPSHOTS)"
  "v_chunks (rocks_view d) = chunks_cf.family_view (d CF_CHUNKS)"
  "v_meta (rocks_view d) = (meta_cf.family_view (d CF_META))(OBJECT_LOCATION_REBUILD_META_KEY := None)"
  "v_workspaces (rocks_view d) = workspaces_cf.family_view (d CF_WORKSPACES)"
  "v_workspace_names (rocks_view d) = names_cf.family_view (d CF_WORKSPACE_NAMES)"
  "v_workspace_pins (rocks_view d) = workspace_pins_cf.family_view (d CF_PINS)"
  "v_gc_pins (rocks_view d) = gc_pins_cf.family_view (d CF_PINS)"
  "v_jobs (rocks_view d) = jobs_cf.family_view (d CF_JOBS)"
  by (simp_all add: rocks_view_def)

lemma rocks_scan_object_locations_result:
  assumes e: "rocks_ok e contents" "rocks_reads_ok e" and wf: "rocks_wf (contents d)"
    and idle: "\<not> v_rebuilding (rocks_view (contents d))"
  shows "\<exists>es. rocks_scan_object_locations e d = map Inr es \<and>
    enumerates (\<lambda>x. content_id_bytes (ole_content_id x))
      (\<lambda>x. v_objects (rocks_view (contents d)) (ole_content_id x) = Some (ole_location x)) es"
proof -
  from rocks_scan_reads [OF e column_family(1), of d, where 'x = object_location_entry] obtain es
    where es: "enumerates fst (\<lambda>(k, v). contents d CF_OBJECT_LOCATIONS k = Some v) es"
      and run: "\<forall>dec :: bytes \<Rightarrow> bytes \<Rightarrow> catalog_error + object_location_entry.
        rocks_scan e d CF_OBJECT_LOCATIONS dec = map (\<lambda>(k, v). dec k v) es" by blast
  have fam: "objects_cf.family_wf (contents d CF_OBJECT_LOCATIONS)" using wf by (simp add: rocks_wf_def)
  show ?thesis
    using objects_cf.scan_entries [OF fam es, where mk = "\<lambda>k v. \<lparr>ole_content_id = k, ole_location = v\<rparr>"
        and ord = "\<lambda>x. content_id_bytes (ole_content_id x)"]
    by (simp add: rocks_scan_object_locations_def rebuild_state_reads [OF e wf] idle run location_key_less
        ex_entry rocks_view_sel)
qed

lemma rocks_scan_oid_aliases_result:
  assumes e: "rocks_ok e contents" "rocks_reads_ok e" and wf: "rocks_wf (contents d)"
  shows "\<exists>es. rocks_scan_oid_aliases e d = map Inr es \<and>
    enumerates alias_order
      (\<lambda>x. v_aliases (rocks_view (contents d)) (oae_repository x, oae_oid x) = Some (oae_content_id x)) es"
proof -
  from rocks_scan_reads [OF e column_family(2), of d, where 'x = oid_alias_entry] obtain es
    where es: "enumerates fst (\<lambda>(k, v). contents d CF_OID_ALIASES k = Some v) es"
      and run: "\<forall>dec :: bytes \<Rightarrow> bytes \<Rightarrow> catalog_error + oid_alias_entry.
        rocks_scan e d CF_OID_ALIASES dec = map (\<lambda>(k, v). dec k v) es" by blast
  have fam: "aliases_cf.family_wf (contents d CF_OID_ALIASES)" using wf by (simp add: rocks_wf_def)
  have "alias_order (case k of (r, oid) \<Rightarrow> \<lparr>oae_repository = r, oae_oid = oid, oae_content_id = v\<rparr>) <
      alias_order (case k' of (r, oid) \<Rightarrow> \<lparr>oae_repository = r, oae_oid = oid, oae_content_id = v'\<rparr>)"
    if "alias_key_wf k" "alias_key_wf k'"
      "(case k of (repo, oid) \<Rightarrow> encode_oid_alias_key repo oid) < (case k' of (repo, oid) \<Rightarrow> encode_oid_alias_key repo oid)"
    for k k' v v'
    using that alias_key_less by (cases k; cases k') (simp add: alias_order_def)
  from aliases_cf.scan_entries [OF fam es, where ord = alias_order and mk =
      "\<lambda>k v. case k of (r, oid) \<Rightarrow> \<lparr>oae_repository = r, oae_oid = oid, oae_content_id = v\<rparr>", OF this]
  show ?thesis
    by (simp add: rocks_scan_oid_aliases_def run ex_entry rocks_view_sel case_prod_unfold)
qed

lemma rocks_scan_chunks_result:
  assumes e: "rocks_ok e contents" "rocks_reads_ok e" and wf: "rocks_wf (contents d)"
    and idle: "\<not> v_rebuilding (rocks_view (contents d))"
  shows "\<exists>es. rocks_scan_chunks e d = map Inr es \<and>
    enumerates (\<lambda>x. (ce_generation x, ce_chunk_id x))
      (\<lambda>x. v_chunks (rocks_view (contents d)) (ce_generation x, ce_chunk_id x) = Some (ce_metadata x)) es"
proof -
  from rocks_scan_reads [OF e column_family(5), of d, where 'x = chunk_entry] obtain es
    where es: "enumerates fst (\<lambda>(k, v). contents d CF_CHUNKS k = Some v) es"
      and run: "\<forall>dec :: bytes \<Rightarrow> bytes \<Rightarrow> catalog_error + chunk_entry.
        rocks_scan e d CF_CHUNKS dec = map (\<lambda>(k, v). dec k v) es" by blast
  have fam: "chunks_cf.family_wf (contents d CF_CHUNKS)" using wf by (simp add: rocks_wf_def)
  from chunks_cf.scan_entries [OF fam es, where ord = "\<lambda>x. (ce_generation x, ce_chunk_id x)" and mk =
      "\<lambda>k v. case k of (g, c) \<Rightarrow> \<lparr>ce_generation = g, ce_chunk_id = c, ce_metadata = v\<rparr>"]
  show ?thesis
    by (simp add: rocks_scan_chunks_def rebuild_state_reads [OF e wf] idle run ex_entry rocks_view_sel
        case_prod_unfold chunk_key_less)
qed

lemma rocks_list_repository_snapshots_result:
  assumes e: "rocks_ok e contents" "rocks_reads_ok e" and wf: "rocks_wf (contents d)"
  shows "\<exists>es. rocks_list_repository_snapshots e d = Inr es \<and>
    enumerates snapshot_order
      (\<lambda>x. v_snapshots (rocks_view (contents d)) (rs_repository x, rs_snapshot x) = Some (rs_visibility x)) es"
proof -
  let ?mk = "\<lambda>k v. case k of (r, s) \<Rightarrow> \<lparr>rs_repository = r, rs_snapshot = s, rs_visibility = v\<rparr>"
  from rocks_scan_reads [OF e column_family(4), of d, where 'x = repository_snapshot] obtain es
    where es: "enumerates fst (\<lambda>(k, v). contents d CF_REPO_SNAPSHOTS k = Some v) es"
      and run: "\<forall>dec :: bytes \<Rightarrow> bytes \<Rightarrow> catalog_error + repository_snapshot.
        rocks_scan e d CF_REPO_SNAPSHOTS dec = map (\<lambda>(k, v). dec k v) es" by blast
  have fam: "snapshots_cf.family_wf (contents d CF_REPO_SNAPSHOTS)" using wf by (simp add: rocks_wf_def)
  have "snapshot_order (?mk k v) < snapshot_order (?mk k' v')"
    if "snapshot_key_wf k" "snapshot_key_wf k'" "(case k of (r, s) \<Rightarrow> encode_repository_snapshot_key r s) <
      (case k' of (r, s) \<Rightarrow> encode_repository_snapshot_key r s)" for k k' v v'
    using that snapshot_key_less by (cases k; cases k') (auto simp: snapshot_order_def)
  from snapshots_cf.scan_entries [OF fam es, where ord = snapshot_order and mk = ?mk, OF this]
  obtain xs where "rocks_scan e d CF_REPO_SNAPSHOTS (\<lambda>key v.
       and_then (decode_repository_snapshot_key key) (\<lambda>(repository, snapshot).
       and_then (decode_snapshot_visibility_value v) (\<lambda>visibility.
       Inr \<lparr>rs_repository = repository, rs_snapshot = snapshot, rs_visibility = visibility\<rparr>))) = map Inr xs"
    "enumerates snapshot_order
      (\<lambda>x. v_snapshots (rocks_view (contents d)) (rs_repository x, rs_snapshot x) = Some (rs_visibility x)) xs"
    by (auto simp add: run ex_entry rocks_view_sel case_prod_unfold)
  then show ?thesis
    using enumerates_sorted by (auto simp: rocks_list_repository_snapshots_def)
qed

lemma pin_entry:
  assumes "pins_wf m" and "m k = Some b"
  shows "length k = 17 \<Longrightarrow> is_ok (decode_workspace_pin_key k) \<and> is_ok (decode_workspace_pin_value b)"
    and "length k = 18 \<Longrightarrow> is_ok (decode_gc_pin_key k) \<and> is_ok (decode_gc_pin_value b)"
  using assms by (auto simp: pins_wf_def validate_pin_def decodes_def is_ok_iff ok_iff split: if_splits)

lemma pin_lengths:
  assumes "pins_wf m"
  shows "\<forall>k \<in> dom m. length k \<noteq> 17 \<longrightarrow> length k = 18" and "\<forall>k \<in> dom m. length k \<noteq> 18 \<longrightarrow> length k = 17"
  using assms by (auto simp: pins_wf_def validate_pin_def is_ok_iff split: if_splits)

lemma rocks_list_workspace_pins_result:
  assumes e: "rocks_ok e contents" "rocks_reads_ok e" and wf: "rocks_wf (contents d)"
  shows "\<exists>es. rocks_list_workspace_pins e d = Inr es \<and>
    enumerates (\<lambda>x. x) (\<lambda>(w, g). v_workspace_pins (rocks_view (contents d)) w = Some g) es"
proof -
  from rocks_scan_reads [OF e column_family(9), of d, where 'x = "(workspace_id \<times> u32) list"] obtain es
    where es: "enumerates fst (\<lambda>(k, v). contents d CF_PINS k = Some v) es"
      and run: "\<forall>dec :: bytes \<Rightarrow> bytes \<Rightarrow> catalog_error + (workspace_id \<times> u32) list.
        rocks_scan e d CF_PINS dec = map (\<lambda>(k, v). dec k v) es" by blast
  have pins: "pins_wf (contents d CF_PINS)" using wf by (simp add: rocks_wf_def)
  have len: "length (encode_workspace_pin_key w) = 17" if "workspace_id_wf w" for w
    using that by (simp add: workspace_codecs_eq workspace_key_eq id_wf_defs catalog_consts)
  have "(w, g) < (w', g')" if "workspace_id_wf w" "workspace_id_wf w'"
    "encode_workspace_pin_key w < encode_workspace_pin_key w'" for w w' and g g' :: u32
    using that by (simp add: workspace_codecs_eq workspace_key_eq less_workspace_id_def)
  from workspace_pins_cf.scan_shared [OF es, where n = 17 and n' = 18 and mk = Pair and ord = "\<lambda>x. x"
      and err = InvalidEncoding, OF pin_entry(1) [OF pins] pin_lengths(1) [OF pins] len this]
  obtain ys where "collect_scan (rocks_scan e d CF_PINS (\<lambda>key v.
       if length key = 17 then
         and_then (decode_workspace_pin_key key) (\<lambda>workspace.
         and_then (decode_workspace_pin_value v) (\<lambda>generation.
         Inr [(workspace, generation)]))
       else if length key \<noteq> 18 then Inl InvalidEncoding else Inr [])) = Inr ys"
    "enumerates (\<lambda>x. x) (\<lambda>(w, g). v_workspace_pins (rocks_view (contents d)) w = Some g) (concat ys)"
    by (auto simp: run rocks_view_sel case_prod_unfold)
  then show ?thesis
    using enumerates_sorted by (auto simp: rocks_list_workspace_pins_def)
qed

lemma rocks_list_gc_pins_result:
  assumes e: "rocks_ok e contents" "rocks_reads_ok e" and wf: "rocks_wf (contents d)"
  shows "\<exists>es. rocks_list_gc_pins e d = Inr es \<and>
    enumerates pin_order (\<lambda>x. v_gc_pins (rocks_view (contents d)) (pin_id x) = Some (pin_generation x)) es"
proof -
  from rocks_scan_reads [OF e column_family(9), of d, where 'x = "gc_pin list"] obtain es
    where es: "enumerates fst (\<lambda>(k, v). contents d CF_PINS k = Some v) es"
      and run: "\<forall>dec :: bytes \<Rightarrow> bytes \<Rightarrow> catalog_error + gc_pin list.
        rocks_scan e d CF_PINS dec = map (\<lambda>(k, v). dec k v) es" by blast
  have pins: "pins_wf (contents d CF_PINS)" using wf by (simp add: rocks_wf_def)
  have len: "length (encode_gc_pin_key p) = 18" if "gc_pin_id_wf p" for p
    using that by (simp add: gc_pin_key_eq id_wf_defs catalog_consts)
  have "pin_order \<lparr>pin_id = p, pin_generation = g\<rparr> < pin_order \<lparr>pin_id = p', pin_generation = g'\<rparr>"
    if "gc_pin_id_wf p" "gc_pin_id_wf p'" "encode_gc_pin_key p < encode_gc_pin_key p'" for p p' g g'
    using that by (simp add: gc_pin_key_eq less_gc_pin_id_def pin_order_def)
  from gc_pins_cf.scan_shared [OF es, where n = 18 and n' = 17 and ord = pin_order and
      mk = "\<lambda>i g. \<lparr>pin_id = i, pin_generation = g\<rparr>" and err = InvalidEncoding,
      OF pin_entry(2) [OF pins] pin_lengths(2) [OF pins] len this]
  obtain ys where "collect_scan (rocks_scan e d CF_PINS (\<lambda>key v.
       if length key = 18 then
         and_then (decode_gc_pin_key key) (\<lambda>i.
         and_then (decode_gc_pin_value v) (\<lambda>generation.
         Inr [\<lparr>pin_id = i, pin_generation = generation\<rparr>]))
       else if length key \<noteq> 17 then Inl InvalidEncoding else Inr [])) = Inr ys"
    "enumerates pin_order (\<lambda>x. v_gc_pins (rocks_view (contents d)) (pin_id x) = Some (pin_generation x)) (concat ys)"
    by (auto simp: run rocks_view_sel case_prod_unfold ex_entry)
  then show ?thesis
    using enumerates_sorted by (auto simp: rocks_list_gc_pins_def)
qed

section \<open>The contract\<close>

lemma rocks_scans_rebuilding:
  assumes e: "rocks_ok e contents" "rocks_reads_ok e" and wf: "rocks_wf (contents d)"
    and busy: "v_rebuilding (rocks_view (contents d))"
  shows "rocks_scan_object_locations e d = [Inl ObjectLocationRebuildInProgress]"
    and "rocks_scan_chunks e d = [Inl ObjectLocationRebuildInProgress]"
  using rebuild_state_reads [OF e wf] busy
  by (simp_all add: rocks_scan_object_locations_def rocks_scan_chunks_def)

lemma rocks_catalog:
  assumes e: "rocks_ok e contents" "rocks_reads_ok e"
  shows "catalog (rocks_ops e) (rocks_invar contents) (rocks_abs contents)"
proof
  note lookup = rocks_lookup_reads [OF e column_family(1)] rocks_lookup_reads [OF e column_family(2)]
    rocks_lookup_reads [OF e column_family(3)] rocks_lookup_reads [OF e column_family(4)]
    rocks_lookup_reads [OF e column_family(5)] rocks_lookup_reads [OF e column_family(6)]
    rocks_lookup_reads [OF e column_family(7)] rocks_lookup_reads [OF e column_family(8)]
    rocks_lookup_reads [OF e column_family(9)] rocks_lookup_reads [OF e column_family(10)]
  fix d cid r oid s g k w key n i b es
  show "batch_wf b \<Longrightarrow> refines_step (rocks_invar contents) (rocks_abs contents) (cat_apply (rocks_ops e) b) (view_apply b)"
    using rocks_apply_refines [OF e(1)] by (simp add: rocks_ops_def)
  show "refines_step (rocks_invar contents) (rocks_abs contents) (cat_begin_rebuild (rocks_ops e)) view_begin"
    using rocks_begin_refines [OF e(1)] by (simp add: rocks_ops_def)
  show "refines_step (rocks_invar contents) (rocks_abs contents) (cat_restart_rebuild (rocks_ops e)) view_restart"
    using rocks_restart_refines [OF e(1)] by (simp add: rocks_ops_def)
  show "list_all (\<lambda>e. content_id_wf (ole_content_id e)) es \<Longrightarrow>
      refines_step (rocks_invar contents) (rocks_abs contents) (cat_append_rebuilt (rocks_ops e) es) (view_append es)"
    using rocks_append_refines [OF e(1)] by (simp add: rocks_ops_def)
  show "refines_step (rocks_invar contents) (rocks_abs contents) (cat_finish_rebuild (rocks_ops e)) view_finish"
    using rocks_finish_refines [OF e(1)] by (simp add: rocks_ops_def)
  assume wf: "rocks_wf (contents d)"
  note state = rebuild_state_reads [OF e wf]
  show "content_id_wf cid \<Longrightarrow> cat_object_location (rocks_ops e) d cid =
      (if v_rebuilding (rocks_view (contents d)) then None else v_objects (rocks_view (contents d)) cid)"
    by (simp add: rocks_ops_def rocks_object_location_def state lookup rocks_view_sel objects_cf.family_view_def)
  show "cat_rebuild_state (rocks_ops e) d = Inr (if v_rebuilding (rocks_view (contents d)) then InProgress else Idle)"
    by (simp add: rocks_ops_def state)
  show "repo_id_wf r \<Longrightarrow> git_oid_wf oid \<Longrightarrow>
      cat_oid_alias (rocks_ops e) d r oid = v_aliases (rocks_view (contents d)) (r, oid)"
    by (simp add: rocks_ops_def rocks_oid_alias_def lookup rocks_view_sel aliases_cf.family_view_def)
  show "repo_id_wf r \<Longrightarrow> cat_repository (rocks_ops e) d r = v_repositories (rocks_view (contents d)) r"
    by (simp add: rocks_ops_def rocks_repository_def lookup rocks_view_sel repositories_cf.family_view_def)
  show "repo_id_wf r \<Longrightarrow> snapshot_id_wf s \<Longrightarrow>
      cat_repository_snapshot (rocks_ops e) d r s = v_snapshots (rocks_view (contents d)) (r, s)"
    by (simp add: rocks_ops_def rocks_repository_snapshot_def lookup rocks_view_sel snapshots_cf.family_view_def)
  show "cat_chunk (rocks_ops e) d g k = v_chunks (rocks_view (contents d)) (g, k)"
    by (simp add: rocks_ops_def rocks_chunk_def lookup rocks_view_sel chunks_cf.family_view_def)
  show "cat_meta (rocks_ops e) d key = v_meta (rocks_view (contents d)) key"
    by (simp add: rocks_ops_def rocks_meta_def lookup rocks_view_sel meta_cf.family_view_def)
  show "workspace_id_wf w \<Longrightarrow> cat_workspace (rocks_ops e) d w = v_workspaces (rocks_view (contents d)) w"
    by (simp add: rocks_ops_def rocks_workspace_def lookup rocks_view_sel workspaces_cf.family_view_def)
  show "cat_workspace_name (rocks_ops e) d n = v_workspace_names (rocks_view (contents d)) n"
    by (simp add: rocks_ops_def rocks_workspace_name_def lookup rocks_view_sel names_cf.family_view_def)
  show "workspace_id_wf w \<Longrightarrow> cat_workspace_pin (rocks_ops e) d w = v_workspace_pins (rocks_view (contents d)) w"
    by (simp add: rocks_ops_def rocks_workspace_pin_def lookup rocks_view_sel workspace_pins_cf.family_view_def)
  show "cat_job (rocks_ops e) d i = v_jobs (rocks_view (contents d)) i"
    by (simp add: rocks_ops_def rocks_job_def lookup rocks_view_sel jobs_cf.family_view_def)
  show "\<exists>es. cat_scan_oid_aliases (rocks_ops e) d = map Inr es \<and> enumerates alias_order
      (\<lambda>e. v_aliases (rocks_view (contents d)) (oae_repository e, oae_oid e) = Some (oae_content_id e)) es"
    using rocks_scan_oid_aliases_result [OF e wf] by (simp add: rocks_ops_def)
  show "\<not> v_rebuilding (rocks_view (contents d)) \<Longrightarrow> \<exists>es. cat_scan_object_locations (rocks_ops e) d = map Inr es \<and>
      enumerates (\<lambda>e. content_id_bytes (ole_content_id e))
        (\<lambda>e. v_objects (rocks_view (contents d)) (ole_content_id e) = Some (ole_location e)) es"
    using rocks_scan_object_locations_result [OF e wf] by (simp add: rocks_ops_def)
  show "\<not> v_rebuilding (rocks_view (contents d)) \<Longrightarrow> \<exists>es. cat_scan_chunks (rocks_ops e) d = map Inr es \<and>
      enumerates (\<lambda>e. (ce_generation e, ce_chunk_id e))
        (\<lambda>e. v_chunks (rocks_view (contents d)) (ce_generation e, ce_chunk_id e) = Some (ce_metadata e)) es"
    using rocks_scan_chunks_result [OF e wf] by (simp add: rocks_ops_def)
  show "v_rebuilding (rocks_view (contents d)) \<Longrightarrow>
      cat_scan_object_locations (rocks_ops e) d = [Inl ObjectLocationRebuildInProgress] \<and>
      cat_scan_chunks (rocks_ops e) d = [Inl ObjectLocationRebuildInProgress]"
    using rocks_scans_rebuilding [OF e wf] by (simp add: rocks_ops_def)
  show "\<exists>es. cat_repository_snapshots (rocks_ops e) d = Inr es \<and> enumerates snapshot_order
      (\<lambda>e. v_snapshots (rocks_view (contents d)) (rs_repository e, rs_snapshot e) = Some (rs_visibility e)) es"
    using rocks_list_repository_snapshots_result [OF e wf] by (simp add: rocks_ops_def)
  show "\<exists>es. cat_workspace_pins (rocks_ops e) d = Inr es \<and>
      enumerates (\<lambda>e. e) (\<lambda>(w, g). v_workspace_pins (rocks_view (contents d)) w = Some g) es"
    using rocks_list_workspace_pins_result [OF e wf] by (simp add: rocks_ops_def)
  show "\<exists>es. cat_gc_pins (rocks_ops e) d = Inr es \<and>
      enumerates pin_order (\<lambda>e. v_gc_pins (rocks_view (contents d)) (pin_id e) = Some (pin_generation e)) es"
    using rocks_list_gc_pins_result [OF e wf] by (simp add: rocks_ops_def)
  show "(\<forall>cid \<in> dom (v_objects (rocks_view (contents d))). content_id_wf cid) \<and>
      (\<forall>(r, oid) \<in> dom (v_aliases (rocks_view (contents d))). repo_id_wf r \<and> git_oid_wf oid) \<and>
      (\<forall>cid \<in> ran (v_aliases (rocks_view (contents d))). content_id_wf cid) \<and>
      (\<forall>(r, s) \<in> dom (v_snapshots (rocks_view (contents d))). repo_id_wf r \<and> snapshot_id_wf s)"
    by (auto simp: rocks_view_sel ran_def objects_cf.view_Some_iff aliases_cf.view_Some_iff snapshots_cf.view_Some_iff)
qed

section \<open>Validation\<close>

lemma collect_scan_ok: "is_ok (collect_scan xs) \<longleftrightarrow> list_all is_ok xs"
  by (induction xs rule: collect_scan.induct) (auto simp: is_ok_iff ok_iff)

lemma validate_entries_iff:
  assumes e: "rocks_ok e contents" "rocks_reads_ok e" and cf: "cf \<in> set ROCKSDB_COLUMN_FAMILIES"
  shows "validate_entries e d cf v = Inr () \<longleftrightarrow> (\<forall>k b. contents d cf k = Some b \<longrightarrow> is_ok (v k b))"
proof -
  from rocks_scan_reads [OF e cf, of d, where 'x = unit] obtain es
    where es: "enumerates fst (\<lambda>(k, v). contents d cf k = Some v) es"
      and run: "\<forall>dec :: bytes \<Rightarrow> bytes \<Rightarrow> catalog_error + unit. rocks_scan e d cf dec = map (\<lambda>(k, v). dec k v) es"
    by blast
  have "validate_entries e d cf v = Inr () \<longleftrightarrow> is_ok (collect_scan (map (\<lambda>(k, b). v k b) es))"
    by (auto simp: validate_entries_def run is_ok_iff ok_iff)
  also have "\<dots> \<longleftrightarrow> (\<forall>k b. contents d cf k = Some b \<longrightarrow> is_ok (v k b))"
    using es by (fastforce simp: collect_scan_ok list_all_iff enumerates_def)
  finally show ?thesis .
qed

lemma decodes_ok: "is_ok (decodes kdec vdec k b) \<longleftrightarrow> is_ok (kdec k) \<and> is_ok (vdec b)"
  by (auto simp: decodes_def is_ok_iff ok_iff)

lemma generation_is_opaque: "is_ok (decode_current_generation_value b) \<Longrightarrow> is_ok (decode_opaque_value b)"
  by (cases b) (auto simp: is_ok_iff decode_current_generation_value_def opaque_defs ok_iff split: if_splits)

lemma marker_value_iff: "is_ok (decode_object_location_rebuild_marker b) \<longleftrightarrow> b = marker_value"
  by (auto simp: is_ok_iff decode_object_location_rebuild_marker_def marker_value_def ok_iff opaque_value.dec_iff
      split: if_splits)

definition published_generation_wf :: "(bytes \<rightharpoonup> bytes) \<Rightarrow> bool" where
  "published_generation_wf m \<longleftrightarrow> (\<forall>b. m (encode_meta_key CURRENT_GENERATION_META_KEY) = Some b \<longrightarrow>
     is_ok (decode_current_generation_value b))"

lemma meta_keys_distinct: "CURRENT_GENERATION_META_KEY \<noteq> OBJECT_LOCATION_REBUILD_META_KEY"
  by (simp add: CURRENT_GENERATION_META_KEY_def OBJECT_LOCATION_REBUILD_META_KEY_def ascii_def)

lemma validate_meta_iff:
  "(\<forall>k b. m k = Some b \<longrightarrow> is_ok (validate_meta k b)) \<longleftrightarrow> meta_wf m \<and> published_generation_wf m"
proof -
  have "is_ok (validate_meta k b) \<longleftrightarrow> is_ok (decode_meta_key k) \<and> is_ok (decode_opaque_value b) \<and>
      (k = marker_key \<longrightarrow> b = marker_value) \<and>
      (k = encode_meta_key CURRENT_GENERATION_META_KEY \<longrightarrow> is_ok (decode_current_generation_value b))" for k b
  proof (cases "decode_meta_key k")
    case (Inl err)
    then show ?thesis by (simp add: validate_meta_def is_ok_iff)
  next
    case (Inr x)
    have ok: "is_ok (and_then r (\<lambda>_. Inr ())) \<longleftrightarrow> is_ok r" for r :: "catalog_error + 'x"
      by (cases r) (simp_all add: is_ok_iff)
    have k: "k = marker_key \<longleftrightarrow> x = OBJECT_LOCATION_REBUILD_META_KEY"
      "k = encode_meta_key CURRENT_GENERATION_META_KEY \<longleftrightarrow> x = CURRENT_GENERATION_META_KEY"
      using Inr by (auto simp: meta_key.dec_iff marker_key_def meta_key.enc_eq_iff)
    have key: "is_ok (decode_meta_key k)" using Inr by (simp add: is_ok_iff)
    have "is_ok (decode_opaque_value marker_value)" by (simp add: marker_value_def opaque_value.dec_enc is_ok_iff)
    then show ?thesis
      using generation_is_opaque [of b] meta_keys_distinct key unfolding k
      by (auto simp: validate_meta_def Inr ok marker_value_iff)
  qed
  then show ?thesis
    by (auto simp: meta_wf_def meta_cf.family_wf_def published_generation_wf_def)
qed

definition opaque_wf :: "(bytes \<rightharpoonup> bytes) \<Rightarrow> bool" where
  "opaque_wf m \<longleftrightarrow> (\<forall>k b. m k = Some b \<longrightarrow> is_ok (decode_opaque_key k) \<and> is_ok (decode_opaque_value b))"

lemma rocks_validate_iff:
  assumes e: "rocks_ok e contents" "rocks_reads_ok e"
  shows "rocks_validate e d = Inr () \<longleftrightarrow> rocks_wf (contents d) \<and> published_generation_wf (contents d CF_META) \<and>
    opaque_wf (contents d CF_REFS) \<and> opaque_wf (contents d CF_CACHE_OBJECTS)"
proof -
  have cf: "CF_REFS \<in> set ROCKSDB_COLUMN_FAMILIES" "CF_CACHE_OBJECTS \<in> set ROCKSDB_COLUMN_FAMILIES"
    by (simp_all add: ROCKSDB_COLUMN_FAMILIES_def)
  have seq: "and_then r (\<lambda>_. q) = Inr () \<longleftrightarrow> r = Inr () \<and> q = Inr ()" for r q :: "catalog_error + unit"
    by (cases r) auto
  show ?thesis
    by (simp add: rocks_validate_def seq validate_entries_iff [OF e column_family(1)]
        validate_entries_iff [OF e column_family(2)] validate_entries_iff [OF e column_family(3)]
        validate_entries_iff [OF e column_family(4)] validate_entries_iff [OF e column_family(5)]
        validate_entries_iff [OF e column_family(6)] validate_entries_iff [OF e column_family(7)]
        validate_entries_iff [OF e column_family(8)] validate_entries_iff [OF e column_family(9)]
        validate_entries_iff [OF e column_family(10)] validate_entries_iff [OF e cf(1)]
        validate_entries_iff [OF e cf(2)] decodes_ok validate_meta_iff rocks_wf_def
        objects_cf.family_wf_def aliases_cf.family_wf_def repositories_cf.family_wf_def snapshots_cf.family_wf_def
        chunks_cf.family_wf_def workspaces_cf.family_wf_def names_cf.family_wf_def jobs_cf.family_wf_def
        pins_wf_def opaque_wf_def conj_ac)
qed

section \<open>An engine that keeps its promise\<close>

type_synonym table_db = "((string \<times> bytes) \<times> bytes) list"

definition table_contents :: "table_db \<Rightarrow> cf_contents" where
  "table_contents d cf k = map_of d (cf, k)"

fun table_write :: "write_op \<Rightarrow> table_db \<Rightarrow> table_db" where
  "table_write (PutCf cf k v) d = ((cf, k), v) # d"
| "table_write (DeleteCf cf k) d = filter (\<lambda>(p, _). p \<noteq> (cf, k)) d"
| "table_write (DeleteRangeCf cf lo hi) d = filter (\<lambda>((cf', k), _). \<not> (cf' = cf \<and> lo \<le> k \<and> k < hi)) d"

definition table_keys :: "table_db \<Rightarrow> string \<Rightarrow> bytes list" where
  "table_keys d cf = sort (remdups (map (snd \<circ> fst) (filter (\<lambda>((cf', _), _). cf' = cf) d)))"

definition table_engine :: "table_db rocks" where
  "table_engine = \<lparr>rk_cf_handle = (\<lambda>d cf. cf \<in> set ROCKSDB_COLUMN_FAMILIES),
     rk_get = (\<lambda>d cf k. Inr (map_of d (cf, k))),
     rk_iter = (\<lambda>d cf. map (\<lambda>k. Inr (k, the (map_of d (cf, k)))) (table_keys d cf)),
     rk_write = (\<lambda>ws d. (Inr (), fold table_write ws d))\<rparr>"

lemma table_write_contents: "table_contents (table_write w d) = perform_write w (table_contents d)"
proof (cases w)
  case (PutCf cf k v)
  then show ?thesis by (auto simp: table_contents_def fun_eq_iff)
next
  case (DeleteCf cf k)
  then show ?thesis by (induction d) (auto simp: table_contents_def fun_eq_iff split: if_splits)
next
  case (DeleteRangeCf cf lo hi)
  then show ?thesis by (induction d) (auto simp: table_contents_def fun_eq_iff split: if_splits)
qed

lemma table_keys_enumerate:
  "enumerates fst (\<lambda>(k, v). table_contents d cf k = Some v) (map (\<lambda>k. (k, the (map_of d (cf, k)))) (table_keys d cf))"
proof -
  have "k \<in> set (table_keys d cf) \<longleftrightarrow> map_of d (cf, k) \<noteq> None" for k
    by (force simp: table_keys_def map_of_eq_None_iff)
  moreover have "sorted_wrt (<) (table_keys d cf)"
    by (simp add: table_keys_def strict_sorted_iff)
  ultimately show ?thesis
    by (auto simp: enumerates_def table_contents_def o_def)
qed

lemma table_engine_ok: "rocks_ok table_engine table_contents" "rocks_reads_ok table_engine"
proof -
  have "table_contents (fold table_write ws d) = fold perform_write ws (table_contents d)" for ws d
    by (induction ws arbitrary: d) (simp_all add: table_write_contents)
  moreover have "\<exists>es. enumerates fst (\<lambda>(k, v). table_contents d cf k = Some v) es \<and>
      (map (\<lambda>k. Inr (k, the (map_of d (cf, k))) :: string + bytes \<times> bytes) (table_keys d cf) = map Inr es \<or>
       (\<exists>n (err :: string). map (\<lambda>k. Inr (k, the (map_of d (cf, k)))) (table_keys d cf) = map Inr (take n es) @ [Inl err]))" for d cf
    using table_keys_enumerate [of d cf] by (intro exI conjI disjI1) (auto simp: o_def)
  ultimately show "rocks_ok table_engine table_contents"
    by (simp add: rocks_ok_def table_engine_def table_contents_def)
  show "rocks_reads_ok table_engine"
    by (auto simp: rocks_reads_ok_def table_engine_def)
qed

interpretation table_catalog: catalog "rocks_ops table_engine" "\<lambda>d. rocks_wf (table_contents d)"
  "\<lambda>d. rocks_view (table_contents d)"
  by (rule rocks_catalog [OF table_engine_ok])

end
