(* ===== verification/Catalog_Props.thy ===== *)
theory Catalog_Props
  imports RocksContract Samples
begin

text \<open>
  The properties of the catalog: its encodings, the atomicity of batches, the agreement of the
  RocksDB and in-memory catalogs, the rebuild protocol of object locations, garbage-collection
  roots and validation, each with an instance on a concrete engine.
\<close>

section \<open>Sample values\<close>

definition sample_repo :: repo_id where "sample_repo = RepoId (replicate 16 1)"
definition sample_snapshot :: snapshot_id where "sample_snapshot = SnapshotId (replicate 16 2)"
definition sample_content :: content_id where "sample_content = ContentId (replicate 32 3)"

lemma sample_ids_wf [simp]: "repo_id_wf sample_repo" "snapshot_id_wf sample_snapshot" "content_id_wf sample_content"
  by (simp_all add: sample_repo_def sample_snapshot_def sample_content_def id_wf_defs catalog_consts)

definition sample_location :: object_location where
  "sample_location = \<lparr>loc_generation = 1, loc_chunk_id = 0, loc_offset = 48, loc_record_length = 160,
     loc_stored_length = 4, loc_raw_length = 3, loc_kind = Blob, loc_codec = Zstd, loc_flags = 0,
     loc_payload_crc32c = 5\<rparr>"

definition sample_batch :: catalog_batch where
  "sample_batch = \<lparr>operations = [OpObjectLocation sample_content sample_location,
     OpOidAlias sample_repo sample_oid sample_content, OpRepository sample_repo [9],
     OpRepositorySnapshot sample_repo sample_snapshot Ready]\<rparr>"

lemma sample_batch_wf [simp]: "batch_wf sample_batch"
  by (simp add: batch_wf_def sample_batch_def)

lemma empty_table_wf [simp]: "rocks_wf (table_contents [])"
proof -
  have "table_contents [] = (\<lambda>_. Map.empty)" by (simp add: table_contents_def fun_eq_iff)
  then show ?thesis
    by (simp add: rocks_wf_def meta_wf_def pins_wf_def objects_cf.family_wf_def aliases_cf.family_wf_def
        repositories_cf.family_wf_def snapshots_cf.family_wf_def chunks_cf.family_wf_def meta_cf.family_wf_def
        workspaces_cf.family_wf_def names_cf.family_wf_def jobs_cf.family_wf_def)
qed

lemma empty_table_view:
  "rocks_view (table_contents []) = \<lparr>v_objects = Map.empty, v_rebuilding = False, v_aliases = Map.empty,
     v_repositories = Map.empty, v_snapshots = Map.empty, v_chunks = Map.empty, v_meta = Map.empty,
     v_workspaces = Map.empty, v_workspace_names = Map.empty, v_workspace_pins = Map.empty,
     v_gc_pins = Map.empty, v_jobs = Map.empty\<rparr>"
  by (simp add: rocks_view_def table_contents_def fun_eq_iff objects_cf.family_view_def aliases_cf.family_view_def
        repositories_cf.family_view_def snapshots_cf.family_view_def chunks_cf.family_view_def meta_cf.family_view_def
        workspaces_cf.family_view_def names_cf.family_view_def jobs_cf.family_view_def
        workspace_pins_cf.family_view_def gc_pins_cf.family_view_def)

definition sample_table :: table_db where
  "sample_table = fold table_write (map write_of (operations sample_batch)) []"

lemma table_get [simp]: "rocks_get table_engine d cf k = Inr (table_contents d cf k)"
  by (rule rocks_get_reads [OF table_engine_ok])

lemma table_cf: "cf \<in> set ROCKSDB_COLUMN_FAMILIES \<Longrightarrow> rocks_cf table_engine d cf = Inr cf"
  by (rule rocks_cf_ok [OF table_engine_ok(1)])

lemma sample_table_apply: "rocks_apply table_engine sample_batch [] = (Inr (), sample_table)"
proof -
  have "read_object_location_rebuild_state table_engine [] = Inr Idle"
    using rebuild_state_reads [OF table_engine_ok empty_table_wf] by (simp add: empty_table_view)
  moreover have "table_contents [] = (\<lambda>_. Map.empty)" by (simp add: table_contents_def fun_eq_iff)
  ultimately show ?thesis
    by (simp add: rocks_apply_def reject_direct_rebuild_marker_mutation_def sample_batch_def
        apply_families_ok [OF table_engine_ok(1)] rocks_write_sync_def sample_table_def)
       (simp add: table_engine_def)
qed

lemma sample_table_view:
  "rocks_wf (table_contents sample_table)"
  "rocks_view (table_contents sample_table) = (rocks_view (table_contents []))\<lparr>
     v_objects := [sample_content \<mapsto> sample_location], v_aliases := [(sample_repo, sample_oid) \<mapsto> sample_content],
     v_repositories := [sample_repo \<mapsto> [9]], v_snapshots := [(sample_repo, sample_snapshot) \<mapsto> Ready]\<rparr>"
proof -
  note ref = refines_stepD [OF rocks_apply_refines [OF table_engine_ok(1) sample_batch_wf] empty_table_wf]
  show "rocks_wf (table_contents sample_table)" by (rule ref(1) [OF sample_table_apply])
  show "rocks_view (table_contents sample_table) = (rocks_view (table_contents []))\<lparr>
     v_objects := [sample_content \<mapsto> sample_location], v_aliases := [(sample_repo, sample_oid) \<mapsto> sample_content],
     v_repositories := [sample_repo \<mapsto> [9]], v_snapshots := [(sample_repo, sample_snapshot) \<mapsto> Ready]\<rparr>"
    using ref(2) [OF sample_table_apply]
    by (simp add: view_apply_def empty_table_view reject_direct_rebuild_marker_mutation_def sample_batch_def)
qed

lemma table_write_sync: "rocks_write_sync table_engine ws d = (Inr (), fold table_write ws d)"
  by (simp add: rocks_write_sync_def table_engine_def)

lemma table_begin:
  assumes "rocks_wf (table_contents d)" and "\<not> v_rebuilding (rocks_view (table_contents d))"
  shows "\<exists>d'. rocks_begin_rebuild table_engine d = (Inr (), d')"
  using rebuild_state_reads [OF table_engine_ok assms(1)] assms(2)
  by (simp add: rocks_begin_rebuild_def clear_object_locations_and_mark_rebuild_def table_write_sync table_cf)

lemma table_append:
  assumes "rocks_wf (table_contents d)" and "v_rebuilding (rocks_view (table_contents d))"
    and "list_all (\<lambda>x. content_id_wf (ole_content_id x)) es"
  shows "fst (rocks_append_rebuilt table_engine es d) =
    reject_duplicates (\<lambda>cid. v_objects (rocks_view (table_contents d)) cid \<noteq> None) [] es"
proof -
  have "rocks_reject_duplicates table_engine d CF_OBJECT_LOCATIONS seen es \<noteq> Inl (Backend s)" for seen s es
    by (induction es arbitrary: seen) auto
  then have "rocks_reject_duplicates table_engine d CF_OBJECT_LOCATIONS [] es =
      reject_duplicates (\<lambda>cid. v_objects (rocks_view (table_contents d)) cid \<noteq> None) [] es"
    using rocks_reject_duplicates_result [OF table_engine_ok(1) assms(1,3), of "[]"] by blast
  then show ?thesis
    using rebuild_state_reads [OF table_engine_ok assms(1)] assms(2)
    by (cases "reject_duplicates (\<lambda>cid. v_objects (rocks_view (table_contents d)) cid \<noteq> None) [] es")
       (simp_all add: rocks_append_rebuilt_def table_cf table_write_sync)
qed

lemma table_finish:
  assumes "rocks_wf (table_contents d)" and "v_rebuilding (rocks_view (table_contents d))"
  shows "\<exists>d'. rocks_finish_rebuild table_engine d = (Inr (), d')"
  using rebuild_state_reads [OF table_engine_ok assms(1)] assms(2)
  by (simp add: rocks_finish_rebuild_def table_write_sync table_cf)

definition sample_entry :: object_location_entry where
  "sample_entry = \<lparr>ole_content_id = sample_content, ole_location = sample_location\<rparr>"

lemma sample_entry_wf [simp]: "content_id_wf (ole_content_id sample_entry)"
  by (simp add: sample_entry_def)

lemma sample_table_begun:
  obtains d where "rocks_begin_rebuild table_engine sample_table = (Inr (), d)" and "rocks_wf (table_contents d)"
    and "v_rebuilding (rocks_view (table_contents d))" and "v_objects (rocks_view (table_contents d)) = Map.empty"
proof -
  obtain d where run: "rocks_begin_rebuild table_engine sample_table = (Inr (), d)"
    using table_begin [OF sample_table_view(1)] by (auto simp: sample_table_view(2) empty_table_view)
  note ref = refines_stepD [OF rocks_begin_refines [OF table_engine_ok(1)] sample_table_view(1)]
  from ref(2) [OF run] have "rocks_view (table_contents d) =
      (rocks_view (table_contents sample_table))\<lparr>v_objects := Map.empty, v_rebuilding := True\<rparr>"
    by (auto simp: view_begin_def split: if_splits)
  then show ?thesis using that [OF run ref(1) [OF run]] by simp
qed

lemma sample_rebuild: "\<exists>d'. run_rebuild (rocks_ops table_engine) [[sample_entry]] sample_table = (Inr (), d')"
proof -
  obtain d where d: "rocks_begin_rebuild table_engine sample_table = (Inr (), d)" "rocks_wf (table_contents d)"
    "v_rebuilding (rocks_view (table_contents d))" "v_objects (rocks_view (table_contents d)) = Map.empty"
    by (rule sample_table_begun)
  have es: "list_all (\<lambda>x. content_id_wf (ole_content_id x)) [sample_entry]" by simp
  have "fst (rocks_append_rebuilt table_engine [sample_entry] d) = Inr ()"
    using table_append [OF d(2,3) es] d(4) by simp
  then obtain d2 where run: "rocks_append_rebuilt table_engine [sample_entry] d = (Inr (), d2)"
    by (cases "rocks_append_rebuilt table_engine [sample_entry] d") simp
  note ref = refines_stepD [OF rocks_append_refines [OF table_engine_ok(1) es] d(2)]
  have "v_rebuilding (rocks_view (table_contents d2))"
    using view_append_Inr [OF ref(2) [OF run]] d(3) by simp
  then obtain d3 where "rocks_finish_rebuild table_engine d2 = (Inr (), d3)"
    using table_finish [OF ref(1) [OF run]] by blast
  then show ?thesis
    using d(1) run by (simp add: run_rebuild_def seq_eff_def ret_def rocks_ops_def)
qed

lemma sample_rebuild_duplicate:
  "\<exists>d'. run_rebuild (rocks_ops table_engine) [[sample_entry, sample_entry]] sample_table =
    (Inl (DuplicateRebuiltObjectLocation sample_content), d')"
proof -
  obtain d where d: "rocks_begin_rebuild table_engine sample_table = (Inr (), d)" "rocks_wf (table_contents d)"
    "v_rebuilding (rocks_view (table_contents d))" "v_objects (rocks_view (table_contents d)) = Map.empty"
    by (rule sample_table_begun)
  have "fst (rocks_append_rebuilt table_engine [sample_entry, sample_entry] d) =
      Inl (DuplicateRebuiltObjectLocation sample_content)"
    using table_append [OF d(2,3), of "[sample_entry, sample_entry]"] d(4) by (simp add: sample_entry_def)
  then show ?thesis
    using d(1) by (cases "rocks_append_rebuilt table_engine [sample_entry, sample_entry] d")
      (simp add: run_rebuild_def seq_eff_def rocks_ops_def)
qed

lemma sample_delete: "\<exists>d'. delete_repository (rocks_ops table_engine) sample_repo sample_table = (Inr (), d')"
proof -
  have no_alias: "check_alias_conflicts e d os p = Inr ()"
    if "\<And>r oid cid. OpOidAlias r oid cid \<notin> set os" for e :: "table_db rocks" and d os p
    using that
  proof (induction os)
    case (Cons op os)
    then show ?case by (cases op) auto
  qed simp
  obtain ss where ss: "cat_repository_snapshots (rocks_ops table_engine) sample_table = Inr ss"
    using table_catalog.repository_snapshots [OF sample_table_view(1)] by blast
  let ?b = "fold (\<lambda>snapshot batch. if rs_repository snapshot = sample_repo
      then delete_repository_snapshot sample_repo (rs_snapshot snapshot) batch else batch) ss
      (batch_delete_repository sample_repo batch_new)"
  have dels: "op \<in> set (operations ?b) \<Longrightarrow> (\<exists>r. op = OpDeleteRepository r) \<or> (\<exists>r s. op = OpDeleteRepositorySnapshot r s)" for op
    using delete_repository_batch [of sample_repo ss "batch_delete_repository sample_repo batch_new"]
    by (auto simp: batch_defs)
  then have "check_alias_conflicts table_engine sample_table (operations ?b) [] = Inr ()"
    by (intro no_alias) blast
  moreover have "reject_direct_rebuild_marker_mutation ?b = Inr ()"
    using dels by (force simp: reject_direct_rebuild_marker_mutation_def list_ex_iff)
  moreover have "read_object_location_rebuild_state table_engine sample_table = Inr Idle"
    using rebuild_state_reads [OF table_engine_ok sample_table_view(1)] by (simp add: sample_table_view(2) empty_table_view)
  ultimately have "\<exists>d'. rocks_apply table_engine ?b sample_table = (Inr (), d')"
    by (simp add: rocks_apply_def apply_families_ok [OF table_engine_ok(1)] table_write_sync)
  then show ?thesis using ss by (simp add: delete_repository_def rocks_ops_def)
qed

section \<open>Batches\<close>

text \<open>
  C3. A batch applied to the RocksDB catalog takes effect completely or not at all, even when the
  engine fails at any of its reads or at the write: an error leaves every family as it was, success
  means the catalog was not being rebuilt and holds the result of all operations in order, and the
  stored bytes stay well formed.
\<close>

theorem rocks_apply_atomic:
  assumes "rocks_ok e contents" and "rocks_wf (contents d)" and "batch_wf b" and "rocks_apply e b d = (r, d')"
  shows "rocks_wf (contents d') \<and>
    (case r of
       Inr _ \<Rightarrow> \<not> v_rebuilding (rocks_view (contents d)) \<and>
         fold_result view_stage (operations b) (rocks_view (contents d)) = Inr (rocks_view (contents d'))
     | Inl _ \<Rightarrow> rocks_view (contents d') = rocks_view (contents d))"
proof -
  note ref = refines_stepD [OF rocks_apply_refines [OF assms(1,3)] assms(2)]
  show ?thesis
    using ref(1) [OF assms(4)] ref(2,3) assms(4)
    by (cases r) (auto simp: view_apply_def ok_iff split: if_splits)
qed

theorem rocks_apply_atomic_witness:
  "rocks_wf (table_contents sample_table) \<and>
    (case Inr () :: catalog_error + unit of
       Inr _ \<Rightarrow> \<not> v_rebuilding (rocks_view (table_contents [])) \<and>
         fold_result view_stage (operations sample_batch) (rocks_view (table_contents []))
           = Inr (rocks_view (table_contents sample_table))
     | Inl _ \<Rightarrow> rocks_view (table_contents sample_table) = rocks_view (table_contents []))"
  by (rule rocks_apply_atomic [OF table_engine_ok(1) empty_table_wf sample_batch_wf sample_table_apply])

text \<open>
  C10. The two catalogs agree: on catalogs with the same contents, a batch the RocksDB engine does
  not itself fail on has the same result in memory, the same error included, and leaves the same
  contents.
\<close>

theorem backends_agree:
  assumes "rocks_ok e contents" and "rocks_wf (contents d)" and "im_wf c"
    and "im_view c = rocks_view (contents d)" and "batch_wf b"
    and "rocks_apply e b d = (r, d')" and "\<And>s. r \<noteq> Inl (Backend s)"
  shows "\<exists>c'. im_apply b c = (r, c') \<and> im_wf c' \<and> im_view c' = rocks_view (contents d')"
proof -
  note rocks = refines_stepD [OF rocks_apply_refines [OF assms(1,5)] assms(2)]
  note mem = refines_stepD [OF im_apply_refines [OF assms(5)] assms(3)]
  have "case r of Inr _ \<Rightarrow> view_apply b (im_view c) = Inr (rocks_view (contents d'))
      | Inl err \<Rightarrow> view_apply b (im_view c) = Inl err \<and> rocks_view (contents d') = im_view c"
    using rocks(2-4) assms(4,6,7) by (cases r) auto
  moreover obtain r' c' where run: "im_apply b c = (r', c')" by fastforce
  moreover have "r' = (case view_apply b (im_view c) of Inl err \<Rightarrow> Inl err | Inr _ \<Rightarrow> Inr ())"
    using im_apply_fst [of b c] run by simp
  ultimately show ?thesis
    using mem(1-3) [of _ c'] run by (cases r) auto
qed

theorem backends_agree_witness:
  "\<exists>c'. im_apply sample_batch im_default = (Inr (), c') \<and> im_wf c' \<and> im_view c' = rocks_view (table_contents sample_table)"
proof (rule backends_agree [OF table_engine_ok(1) empty_table_wf])
  show "im_wf im_default" by (simp add: im_wf_def im_default_def)
  show "im_view im_default = rocks_view (table_contents [])"
    by (simp add: im_view_def im_default_def empty_table_view fun_eq_iff)
qed (simp_all add: sample_table_apply)

text \<open>
  C11. Over an engine whose reads succeed the RocksDB catalog meets the contract of the \<open>Catalog\<close>
  trait: every mutating method performs its abstract counterpart or fails without effect, every
  getter returns what the view holds, and every scan and listing is complete, free of repetitions
  and in key order.
\<close>

theorem rocks_refines_catalog:
  assumes "rocks_ok e contents" and "rocks_reads_ok e"
  shows "catalog (rocks_ops e) (\<lambda>d. rocks_wf (contents d)) (\<lambda>d. rocks_view (contents d))"
  by (rule rocks_catalog [OF assms])

theorem rocks_refines_catalog_witness:
  "catalog (rocks_ops table_engine) (\<lambda>d. rocks_wf (table_contents d)) (\<lambda>d. rocks_view (table_contents d))"
  by (rule rocks_refines_catalog [OF table_engine_ok])

text \<open>
  C14. The alias of an object ID never changes: whatever sequence of batches and rebuild steps a
  catalog goes through, successful or failing, an alias that was readable stays readable with the
  same content ID.
\<close>

theorem alias_never_changes:
  assumes "rocks_ok e contents" and "rocks_reads_ok e" and "rocks_wf (contents d)"
    and "repo_id_wf repo" and "git_oid_wf oid"
    and "(catalog_step (rocks_ops e))\<^sup>*\<^sup>* d d'" and "rocks_oid_alias e d repo oid = Some cid"
  shows "rocks_wf (contents d') \<and> rocks_oid_alias e d' repo oid = Some cid"
proof -
  note cat = rocks_catalog [OF assms(1,2)]
  have read: "rocks_oid_alias e x repo oid = v_aliases (rocks_view (contents x)) (repo, oid)"
    if "rocks_wf (contents x)" for x
    using catalog.oid_alias [OF cat that assms(4,5)] by (simp add: rocks_ops_def)
  from catalog.alias_immutable [OF cat assms(6,3), of "(repo, oid)" cid]
  show ?thesis using read assms(3,7) by simp
qed

theorem alias_never_changes_witness:
  "rocks_wf (table_contents sample_table) \<and>
    rocks_oid_alias table_engine sample_table sample_repo sample_oid = Some sample_content"
proof (rule alias_never_changes [OF table_engine_ok sample_table_view(1), where d' = sample_table])
  show "rocks_oid_alias table_engine sample_table sample_repo sample_oid = Some sample_content"
    using table_catalog.oid_alias [OF sample_table_view(1), of sample_repo sample_oid] sample_table_view(2)
    by (simp add: rocks_ops_def)
qed simp_all

section \<open>Rebuilding object locations\<close>

text \<open>
  C12. A complete rebuild publishes exactly the appended entries: when begin, every batch and finish
  succeed, the entries were free of repetitions and every location lookup answers from them and
  from nothing else; everything but object locations is untouched.
\<close>

theorem rebuild_publishes_exactly:
  assumes "rocks_ok e contents" and "rocks_reads_ok e" and "rocks_wf (contents d)"
    and "list_all (list_all (\<lambda>x. content_id_wf (ole_content_id x))) ess"
    and "run_rebuild (rocks_ops e) ess d = (Inr u, d')" and "content_id_wf cid"
  shows "distinct (map ole_content_id (concat ess)) \<and>
    rocks_object_location e d' cid = entry_map (concat ess) cid \<and>
    rocks_view (contents d') = (rocks_view (contents d))\<lparr>v_objects := entry_map (concat ess), v_rebuilding := False\<rparr>"
proof -
  note cat = rocks_catalog [OF assms(1,2)]
  have res: "rocks_wf (contents d')" "distinct (map ole_content_id (concat ess))"
    "rocks_view (contents d') = (rocks_view (contents d))\<lparr>v_objects := entry_map (concat ess), v_rebuilding := False\<rparr>"
    using catalog.run_rebuild_result [OF cat assms(3-5)] by simp_all
  then show ?thesis
    using catalog.object_location [OF cat res(1) assms(6)] by (simp add: rocks_ops_def)
qed

theorem rebuild_publishes_exactly_witness:
  "\<exists>d'. distinct (map ole_content_id (concat [[sample_entry]])) \<and>
    rocks_object_location table_engine d' sample_content = entry_map (concat [[sample_entry]]) sample_content \<and>
    rocks_view (table_contents d') = (rocks_view (table_contents sample_table))
      \<lparr>v_objects := entry_map (concat [[sample_entry]]), v_rebuilding := False\<rparr>"
  using rebuild_publishes_exactly [OF table_engine_ok sample_table_view(1), of "[[sample_entry]]" "()" _ sample_content]
    sample_rebuild by auto

text \<open>
  C13. A rebuild that stops on an error hides object locations: unless nothing happened at all, the
  catalog is left in the rebuilding state, in which no location is readable, both scans fail and
  every batch is refused without effect.
\<close>

theorem rebuild_fails_closed:
  assumes "rocks_ok e contents" and "rocks_reads_ok e" and "rocks_wf (contents d)"
    and "list_all (list_all (\<lambda>x. content_id_wf (ole_content_id x))) ess"
    and "run_rebuild (rocks_ops e) ess d = (Inl err, d')" and "content_id_wf cid" and "batch_wf b"
  shows "rocks_view (contents d') = rocks_view (contents d) \<or>
    rocks_object_location e d' cid = None \<and>
    rocks_scan_object_locations e d' = [Inl ObjectLocationRebuildInProgress] \<and>
    rocks_scan_chunks e d' = [Inl ObjectLocationRebuildInProgress] \<and>
    (\<exists>err'. fst (rocks_apply e b d') = Inl err') \<and>
    rocks_view (contents (snd (rocks_apply e b d'))) = rocks_view (contents d')"
proof -
  note cat = rocks_catalog [OF assms(1,2)]
  have "rocks_wf (contents d')"
    and "rocks_view (contents d') = rocks_view (contents d) \<or> v_rebuilding (rocks_view (contents d'))"
    using catalog.run_rebuild_result [OF cat assms(3-5)] by simp_all
  then show ?thesis
    using catalog.rebuilding_closed [OF cat _ _ assms(7,6)] catalog.scans_rebuilding [OF cat]
    by (auto simp: rocks_ops_def)
qed

theorem rebuild_fails_closed_witness:
  "\<exists>d'. rocks_view (table_contents d') = rocks_view (table_contents sample_table) \<or>
    rocks_object_location table_engine d' sample_content = None \<and>
    rocks_scan_object_locations table_engine d' = [Inl ObjectLocationRebuildInProgress] \<and>
    rocks_scan_chunks table_engine d' = [Inl ObjectLocationRebuildInProgress] \<and>
    (\<exists>err'. fst (rocks_apply table_engine sample_batch d') = Inl err') \<and>
    rocks_view (table_contents (snd (rocks_apply table_engine sample_batch d'))) = rocks_view (table_contents d')"
proof -
  obtain d' where run: "run_rebuild (rocks_ops table_engine) [[sample_entry, sample_entry]] sample_table =
      (Inl (DuplicateRebuiltObjectLocation sample_content), d')"
    using sample_rebuild_duplicate by blast
  show ?thesis
    by (rule exI [of _ d'], rule rebuild_fails_closed [OF table_engine_ok sample_table_view(1) _ run]) simp_all
qed

section \<open>Garbage-collection roots and repositories\<close>

text \<open>
  C30. The garbage-collection roots are, in order, exactly the snapshots that are ready, the
  workspace pins and the explicit pins.
\<close>

theorem gc_roots_exact:
  assumes "rocks_ok e contents" and "rocks_reads_ok e" and "rocks_wf (contents d)"
  shows "\<exists>roots. gc_roots (rocks_ops e) d = Inr roots \<and> sorted (map root_order roots) \<and>
    set roots = {RootSnapshot r s | r s. v_snapshots (rocks_view (contents d)) (r, s) = Some Ready}
      \<union> {RootWorkspacePin w g | w g. v_workspace_pins (rocks_view (contents d)) w = Some g}
      \<union> {RootExplicitPin p | p. v_gc_pins (rocks_view (contents d)) (pin_id p) = Some (pin_generation p)}"
  by (rule catalog.gc_roots_result [OF rocks_catalog [OF assms(1,2)] assms(3)])

theorem gc_roots_exact_witness:
  "\<exists>roots. gc_roots (rocks_ops table_engine) sample_table = Inr roots \<and> sorted (map root_order roots) \<and>
    set roots = {RootSnapshot r s | r s. v_snapshots (rocks_view (table_contents sample_table)) (r, s) = Some Ready}
      \<union> {RootWorkspacePin w g | w g. v_workspace_pins (rocks_view (table_contents sample_table)) w = Some g}
      \<union> {RootExplicitPin p | p. v_gc_pins (rocks_view (table_contents sample_table)) (pin_id p) = Some (pin_generation p)}"
  by (rule gc_roots_exact [OF table_engine_ok sample_table_view(1)])

text \<open>
  C32. Deleting a repository removes its record and all its snapshots, and nothing else.
\<close>

theorem delete_repository_exact:
  assumes "rocks_ok e contents" and "rocks_reads_ok e" and "rocks_wf (contents d)" and "repo_id_wf repo"
    and "delete_repository (rocks_ops e) repo d = (Inr u, d')"
  shows "rocks_wf (contents d') \<and> rocks_view (contents d') = (rocks_view (contents d))
    \<lparr>v_repositories := (v_repositories (rocks_view (contents d)))(repo := None),
     v_snapshots := (\<lambda>k. if fst k = repo then None else v_snapshots (rocks_view (contents d)) k)\<rparr>"
  by (rule catalog.delete_repository_result [OF rocks_catalog [OF assms(1,2)] assms(3-5)])

theorem delete_repository_exact_witness:
  "\<exists>d'. rocks_wf (table_contents d') \<and> rocks_view (table_contents d') = (rocks_view (table_contents sample_table))
    \<lparr>v_repositories := (v_repositories (rocks_view (table_contents sample_table)))(sample_repo := None),
     v_snapshots := (\<lambda>k. if fst k = sample_repo then None
       else v_snapshots (rocks_view (table_contents sample_table)) k)\<rparr>"
proof -
  obtain d' where run: "delete_repository (rocks_ops table_engine) sample_repo sample_table = (Inr (), d')"
    using sample_delete by blast
  show ?thesis
    by (rule exI [of _ d'], rule delete_repository_exact [OF table_engine_ok sample_table_view(1) _ run]) simp
qed

section \<open>Stored bytes\<close>

text \<open>
  C31. Validation accepts a database exactly when every entry of every column family decodes: the
  invariant all other catalog properties start from, plus a well-formed published generation and
  opaque reference and cache tables.
\<close>

theorem validate_iff_well_formed:
  assumes "rocks_ok e contents" and "rocks_reads_ok e"
  shows "rocks_validate e d = Inr () \<longleftrightarrow> rocks_wf (contents d) \<and> published_generation_wf (contents d CF_META) \<and>
    opaque_wf (contents d CF_REFS) \<and> opaque_wf (contents d CF_CACHE_OBJECTS)"
  by (rule rocks_validate_iff [OF assms])

theorem validate_iff_well_formed_witness:
  "rocks_validate table_engine sample_table = Inr () \<longleftrightarrow> rocks_wf (table_contents sample_table) \<and>
    published_generation_wf (table_contents sample_table CF_META) \<and>
    opaque_wf (table_contents sample_table CF_REFS) \<and> opaque_wf (table_contents sample_table CF_CACHE_OBJECTS)"
  by (rule validate_iff_well_formed [OF table_engine_ok])


end
