(* ===== verification/Files.thy ===== *)
theory Files
  imports Streams
begin

text \<open>
  Paths, files and contracts.  The file system is the part of \<open>std::fs\<close> the crates use, over an
  explicit disk: names, inodes with their current bytes and the prefix of them that is known to be
  durable, and the names that are durable.  Every call consults a schedule of faults, so a theorem
  about all schedules covers an error, and a stop, at every call; a failing write may have written
  any prefix.  A handle is an inode number.  \<open>crash\<close> says what a reboot may find.
\<close>

section \<open>Contracts of effectful functions\<close>

text \<open>
  From a state that satisfies \<open>P\<close>, a successful run ends with \<open>Q\<close> and a failing one with \<open>E\<close>.
\<close>

definition contract :: "('s \<Rightarrow> bool) \<Rightarrow> ('s, 'e, 'a) eff \<Rightarrow> ('a \<Rightarrow> 's \<Rightarrow> bool) \<Rightarrow> ('e \<Rightarrow> 's \<Rightarrow> bool) \<Rightarrow> bool" where
  "contract P m Q E \<longleftrightarrow> (\<forall>s. P s \<longrightarrow> (case m s of (Inr x, t) \<Rightarrow> Q x t | (Inl e, t) \<Rightarrow> E e t))"

lemma contractI:
  assumes "\<And>s x t. P s \<Longrightarrow> m s = (Inr x, t) \<Longrightarrow> Q x t" and "\<And>s e t. P s \<Longrightarrow> m s = (Inl e, t) \<Longrightarrow> E e t"
  shows "contract P m Q E"
  unfolding contract_def
proof (intro allI impI)
  fix s
  assume "P s"
  then show "case m s of (Inr x, t) \<Rightarrow> Q x t | (Inl e, t) \<Rightarrow> E e t"
    using assms [of s] by (cases "m s"; cases "fst (m s)") auto
qed

lemma contractD:
  assumes "contract P m Q E" and "P s"
  shows "m s = (Inr x, t) \<Longrightarrow> Q x t" and "m s = (Inl e, t) \<Longrightarrow> E e t"
  using assms unfolding contract_def by force+

lemma contract_ret: "(\<And>s. P s \<Longrightarrow> Q x s) \<Longrightarrow> contract P (ret x) Q E"
  by (simp add: contract_def)

lemma contract_raise: "(\<And>s. P s \<Longrightarrow> E e s) \<Longrightarrow> contract P (raise e) Q E"
  by (simp add: contract_def)

lemma contract_lift_result:
  "(\<And>s x. P s \<Longrightarrow> r = Inr x \<Longrightarrow> Q x s) \<Longrightarrow> (\<And>s e. P s \<Longrightarrow> r = Inl e \<Longrightarrow> E e s) \<Longrightarrow> contract P (lift_result r) Q E"
  by (auto simp: contract_def split: sum.splits)

lemma contract_seq:
  assumes "contract P m R E" and "\<And>x. contract (R x) (f x) Q E"
  shows "contract P (seq_eff m f) Q E"
  using assms unfolding contract_def seq_eff_def by (fastforce split: prod.splits sum.splits)

lemma contract_seq_at:
  assumes "contract P m (\<lambda>x s. x = a \<and> R s) E" and "contract R (f a) Q E"
  shows "contract P (seq_eff m f) Q E"
  by (rule contract_seq [OF assms(1)]) (use assms(2) in \<open>auto simp: contract_def\<close>)

lemma contract_pre: "contract P' m Q E \<Longrightarrow> (\<And>s. P s \<Longrightarrow> P' s) \<Longrightarrow> contract P m Q E"
  by (auto simp: contract_def)

lemma contract_post:
  assumes "contract P m Q' E'" and "\<And>x s. Q' x s \<Longrightarrow> Q x s" and "\<And>e s. E' e s \<Longrightarrow> E e s"
  shows "contract P m Q E"
  using assms unfolding contract_def by (fastforce split: prod.splits sum.splits)

lemma contract_if:
  assumes "b \<Longrightarrow> contract P m Q E" and "\<not> b \<Longrightarrow> contract P n Q E"
  shows "contract P (if b then m else n) Q E"
  using assms by simp

lemma contract_at: "contract (\<lambda>s. s = s0) m Q E \<longleftrightarrow> (case m s0 of (Inr x, t) \<Rightarrow> Q x t | (Inl e, t) \<Rightarrow> E e t)"
  by (simp add: contract_def)

lemma seq_okE:
  assumes "seq_eff m f s = (Inr y, u)"
  obtains x t where "m s = (Inr x, t)" and "f x t = (Inr y, u)"
  using assms by (auto simp: ok_iff)

section \<open>Paths\<close>

text \<open>A path is the list of its components; \<open>[]\<close> is the root.\<close>

type_synonym path = "string list"

definition path_parent :: "path \<Rightarrow> path option" where
  "path_parent p = (if p = [] then None else Some (butlast p))"

definition path_join :: "path \<Rightarrow> string \<Rightarrow> path" where
  "path_join p name = p @ [name]"

text \<open>The split of a file name at its last dot, as \<open>Path::file_stem\<close> and \<open>Path::extension\<close> make it.\<close>

definition rsplit_file_at_dot :: "string \<Rightarrow> string option \<times> string option" where
  "rsplit_file_at_dot file =
     (if file = ''..'' then (Some file, None) else
      let after = rev (takeWhile (\<lambda>c. c \<noteq> CHR ''.'') (rev file)) in
      if length after = length file then (None, Some file) else
      let before = take (length file - length after - 1) file in
      if before = [] then (Some file, None) else (Some before, Some after))"

definition path_extension :: "path \<Rightarrow> string option" where
  "path_extension p =
     (if p = [] then None
      else case rsplit_file_at_dot (last p) of (None, _) \<Rightarrow> None | (Some _, after) \<Rightarrow> after)"

definition path_file_stem :: "path \<Rightarrow> string option" where
  "path_file_stem p =
     (if p = [] then None
      else case rsplit_file_at_dot (last p) of (None, after) \<Rightarrow> after | (Some before, _) \<Rightarrow> Some before)"

definition with_extension :: "path \<Rightarrow> string \<Rightarrow> path" where
  "with_extension p extension =
     (case path_file_stem p of
        None \<Rightarrow> p
      | Some stem \<Rightarrow> butlast p @ [stem @ ''.'' @ extension])"

lemma takeWhile_rev_split:
  assumes "after = rev (takeWhile (\<lambda>c. c \<noteq> d) (rev file))" and "length after \<noteq> length file"
  shows "file = take (length file - length after - 1) file @ [d] @ after" and "d \<notin> set after"
proof -
  let ?t = "takeWhile (\<lambda>c. c \<noteq> d) (rev file)" and ?d = "dropWhile (\<lambda>c. c \<noteq> d) (rev file)"
  have rf: "rev file = ?t @ ?d" by simp
  have "?d \<noteq> []" using assms by (metis append_Nil2 length_rev rf)
  then have hd: "hd ?d = d" using hd_dropWhile [of "\<lambda>c. c \<noteq> d" "rev file"] by simp
  then obtain x where d: "?d = d # x" using \<open>?d \<noteq> []\<close> by (cases ?d) auto
  then have "file = rev x @ [d] @ after" using arg_cong [OF rf, of rev] assms(1) by simp
  moreover from this have "take (length file - length after - 1) file = rev x"
    by (metis append_eq_conv_conj diff_diff_left length_append length_append_singleton add_diff_cancel_right'
        append.assoc One_nat_def length_Cons list.size(3))
  ultimately show "file = take (length file - length after - 1) file @ [d] @ after" by simp
  show "d \<notin> set after" using assms(1) by (auto dest: set_takeWhileD)
qed

lemma path_extension_split:
  assumes "path_extension p = Some e"
  obtains stem where "p = butlast p @ [stem @ ''.'' @ e]" and "stem \<noteq> []" and "CHR ''.'' \<notin> set e"
    and "path_file_stem p = Some stem"
proof -
  let ?f = "last p"
  let ?a = "rev (takeWhile (\<lambda>c. c \<noteq> CHR ''.'') (rev ?f))"
  let ?b = "take (length ?f - length ?a - 1) ?f"
  have p: "p \<noteq> []" using assms by (auto simp: path_extension_def)
  have facts: "length ?a \<noteq> length ?f" "?b \<noteq> []" "e = ?a" "path_file_stem p = Some ?b"
    using assms by (auto simp: path_extension_def path_file_stem_def rsplit_file_at_dot_def Let_def split: if_splits)
  note sp = takeWhile_rev_split [OF refl facts(1)]
  have "p = butlast p @ [?f]" using p by simp
  then have "p = butlast p @ [?b @ ''.'' @ e]" using sp(1) facts(3) by simp
  then show ?thesis using that facts(2,4) sp(2) facts(3) by blast
qed

lemma rsplit_join:
  assumes "stem \<noteq> []" and "CHR ''.'' \<notin> set e" and "e \<noteq> []"
  shows "rsplit_file_at_dot (stem @ ''.'' @ e) = (Some stem, Some e)"
proof -
  have "takeWhile (\<lambda>c. c \<noteq> CHR ''.'') (rev e @ CHR ''.'' # rev stem) = rev e"
    using assms(2) by (subst takeWhile_append2) auto
  moreover have "stem @ ''.'' @ e \<noteq> ''..''"
    using assms by (cases stem; cases e) (auto simp: append_eq_Cons_conv)
  ultimately show ?thesis using assms(1) by (simp add: rsplit_file_at_dot_def Let_def)
qed

lemma with_extension:
  assumes "path_extension p = Some e" and "CHR ''.'' \<notin> set e'" and "e' \<noteq> []"
  shows "path_extension (with_extension p e') = Some e'" and "path_parent (with_extension p e') = path_parent p"
    and "with_extension (with_extension p e') e = p" and "e \<noteq> e' \<Longrightarrow> with_extension p e' \<noteq> p"
proof -
  from path_extension_split [OF assms(1)] obtain stem
    where p: "p = butlast p @ [stem @ ''.'' @ e]" "stem \<noteq> []" "path_file_stem p = Some stem" by blast
  have w: "with_extension p e' = butlast p @ [stem @ ''.'' @ e']" using p(3) by (simp add: with_extension_def)
  have sp: "rsplit_file_at_dot (stem @ ''.'' @ e') = (Some stem, Some e')"
    using rsplit_join [OF p(2) assms(2,3)] by simp
  show "path_extension (with_extension p e') = Some e'" using sp by (simp add: path_extension_def w)
  show "path_parent (with_extension p e') = path_parent p" using p(1) by (metis butlast_snoc path_parent_def snoc_eq_iff_butlast w)
  have "path_file_stem (with_extension p e') = Some stem" using sp by (simp add: path_file_stem_def w)
  then have "with_extension (with_extension p e') e = butlast (with_extension p e') @ [stem @ ''.'' @ e]"
    by (simp add: with_extension_def [of "with_extension p e'"])
  also have "\<dots> = p" unfolding w using p(1) by simp
  finally show "with_extension (with_extension p e') e = p" .
  have "last p = stem @ ''.'' @ e" by (subst p(1)) simp
  moreover have "last (with_extension p e') = stem @ ''.'' @ e'" by (simp add: w)
  ultimately show "e \<noteq> e' \<Longrightarrow> with_extension p e' \<noteq> p" by auto
qed

section \<open>The disk\<close>

record inode =
  ino_data :: bytes
  ino_stable :: bytes

record disk =
  dk_inodes :: "inode list"
  dk_names :: "path \<rightharpoonup> nat"
  dk_durable :: "path \<rightharpoonup> nat"

datatype fault = Proceed | Fault nat io_error

record fs =
  fs_disk :: disk
  fs_faults :: "fault list"

abbreviation data_of :: "disk \<Rightarrow> nat \<Rightarrow> bytes" where
  "data_of d i \<equiv> ino_data (dk_inodes d ! i)"

abbreviation stable_of :: "disk \<Rightarrow> nat \<Rightarrow> bytes" where
  "stable_of d i \<equiv> ino_stable (dk_inodes d ! i)"

abbreviation healthy :: "disk \<Rightarrow> fs" where
  "healthy d \<equiv> \<lparr>fs_disk = d, fs_faults = []\<rparr>"

text \<open>The largest size a file may have.\<close>

abbreviation file_size_limit :: nat where
  "file_size_limit \<equiv> 9223372036854775808"

definition next_fault :: "fs \<Rightarrow> (nat \<times> io_error) option \<times> fs" where
  "next_fault s =
     (case fs_faults s of
        [] \<Rightarrow> (None, s)
      | Proceed # rest \<Rightarrow> (None, s\<lparr>fs_faults := rest\<rparr>)
      | Fault n e # rest \<Rightarrow> (Some (n, e), s\<lparr>fs_faults := rest\<rparr>))"

text \<open>A call that fails without effect when the schedule says so.\<close>

definition fallible :: "(disk \<Rightarrow> (io_error + 'a) \<times> disk) \<Rightarrow> (fs, io_error, 'a) eff" where
  "fallible m = (\<lambda>s.
     case next_fault s of
       (Some (_, e), s') \<Rightarrow> (Inl e, s')
     | (None, s') \<Rightarrow> (case m (fs_disk s') of (r, d) \<Rightarrow> (r, s'\<lparr>fs_disk := d\<rparr>)))"

text \<open>\<open>write\<close> at an offset, where the file grows with zeros up to the offset if it is shorter.\<close>

definition overwrite :: "bytes \<Rightarrow> nat \<Rightarrow> bytes \<Rightarrow> bytes" where
  "overwrite old off bs = take off (old @ replicate (off - length old) 0) @ bs @ drop (off + length bs) old"

definition update_inode :: "nat \<Rightarrow> (inode \<Rightarrow> inode) \<Rightarrow> disk \<Rightarrow> disk" where
  "update_inode i f d = d\<lparr>dk_inodes := (dk_inodes d)[i := f (dk_inodes d ! i)]\<rparr>"

definition write_inode :: "nat \<Rightarrow> nat \<Rightarrow> bytes \<Rightarrow> disk \<Rightarrow> disk" where
  "write_inode i off bs =
     update_inode i (\<lambda>n. \<lparr>ino_data = overwrite (ino_data n) off bs, ino_stable = take off (ino_stable n)\<rparr>)"

section \<open>File operations\<close>

definition open_file :: "path \<Rightarrow> (fs, io_error, nat) eff" where
  "open_file p = fallible (\<lambda>d.
     (case dk_names d p of None \<Rightarrow> Inl (IoError NotFound ''no such file'') | Some i \<Rightarrow> Inr i, d))"

definition create_new :: "path \<Rightarrow> (fs, io_error, nat) eff" where
  "create_new p = fallible (\<lambda>d.
     case dk_names d p of
       Some _ \<Rightarrow> (Inl (IoError AlreadyExists ''file exists''), d)
     | None \<Rightarrow> (Inr (length (dk_inodes d)),
         d\<lparr>dk_inodes := dk_inodes d @ [\<lparr>ino_data = [], ino_stable = []\<rparr>],
           dk_names := (dk_names d)(p \<mapsto> length (dk_inodes d))\<rparr>))"

definition file_len :: "nat \<Rightarrow> (fs, io_error, u64) eff" where
  "file_len i = fallible (\<lambda>d. (Inr (word_of_nat (length (data_of d i))), d))"

definition read_exact_at :: "nat \<Rightarrow> u64 \<Rightarrow> nat \<Rightarrow> (fs, io_error, bytes) eff" where
  "read_exact_at i off n = fallible (\<lambda>d.
     (if unat off + n \<le> length (data_of d i) then Inr (slice (unat off) n (data_of d i))
      else Inl (IoError UnexpectedEof ''failed to fill whole buffer''), d))"

text \<open>\<open>seek\<close> and \<open>write_all\<close>; a failing write may have transferred a prefix.\<close>

definition write_all_at :: "nat \<Rightarrow> u64 \<Rightarrow> bytes \<Rightarrow> (fs, io_error, unit) eff" where
  "write_all_at i off bs = (\<lambda>s.
     case next_fault s of
       (fault, s') \<Rightarrow>
         if file_size_limit \<le> unat off + length bs then (Inl (IoError OtherIo ''file too large''), s') else
         (case fault of
            Some (n, e) \<Rightarrow> (Inl e, s'\<lparr>fs_disk := write_inode i (unat off) (take n bs) (fs_disk s')\<rparr>)
          | None \<Rightarrow> (Inr (), s'\<lparr>fs_disk := write_inode i (unat off) bs (fs_disk s')\<rparr>)))"

definition set_len :: "nat \<Rightarrow> u64 \<Rightarrow> (fs, io_error, unit) eff" where
  "set_len i n = fallible (\<lambda>d.
     if file_size_limit \<le> unat n then (Inl (IoError InvalidInput ''file too large''), d) else
     (Inr (), update_inode i (\<lambda>x. \<lparr>ino_data = take (unat n) (ino_data x @ replicate (unat n - length (ino_data x)) 0),
        ino_stable = take (unat n) (ino_stable x)\<rparr>) d))"

definition sync_data :: "nat \<Rightarrow> (fs, io_error, unit) eff" where
  "sync_data i = fallible (\<lambda>d. (Inr (), update_inode i (\<lambda>x. x\<lparr>ino_stable := ino_data x\<rparr>) d))"

definition rename_file :: "path \<Rightarrow> path \<Rightarrow> (fs, io_error, unit) eff" where
  "rename_file a b = fallible (\<lambda>d.
     case dk_names d a of
       None \<Rightarrow> (Inl (IoError NotFound ''no such file''), d)
     | Some i \<Rightarrow> (Inr (), d\<lparr>dk_names := (dk_names d)(a := None, b \<mapsto> i)\<rparr>))"

text \<open>\<open>File::open(dir)?.sync_all()?\<close>: the names in the directory become durable.\<close>

definition sync_dir :: "path \<Rightarrow> (fs, io_error, unit) eff" where
  "sync_dir dir = fallible (\<lambda>d.
     (Inr (), d\<lparr>dk_durable := (\<lambda>p. if path_parent p = Some dir then dk_names d p else dk_durable d p)\<rparr>))"

definition remove_file :: "path \<Rightarrow> (fs, io_error, unit) eff" where
  "remove_file p = fallible (\<lambda>d.
     case dk_names d p of
       None \<Rightarrow> (Inl (IoError NotFound ''no such file''), d)
     | Some _ \<Rightarrow> (Inr (), d\<lparr>dk_names := (dk_names d)(p := None)\<rparr>))"

text \<open>\<open>read_to_end\<close> of a file that has just been opened.\<close>

definition read_to_end :: "nat \<Rightarrow> (fs, io_error, bytes) eff" where
  "read_to_end i = fallible (\<lambda>d. (Inr (data_of d i), d))"

text \<open>Directories are not represented; \<open>create_dir_all\<close> can only fail.\<close>

definition create_dir_all :: "path \<Rightarrow> (fs, io_error, unit) eff" where
  "create_dir_all dir = fallible (\<lambda>d. (Inr (), d))"

text \<open>\<open>Path::exists\<close> answers \<open>false\<close> when it cannot tell.\<close>

definition path_exists :: "path \<Rightarrow> (fs, 'e, bool) eff" where
  "path_exists p = (\<lambda>s.
     case next_fault s of
       (Some _, s') \<Rightarrow> (Inr False, s')
     | (None, s') \<Rightarrow> (Inr (dk_names (fs_disk s') p \<noteq> None), s'))"

section \<open>Well-formed disks and crashes\<close>

definition inode_wf :: "inode \<Rightarrow> bool" where
  "inode_wf n \<longleftrightarrow> prefix (ino_stable n) (ino_data n) \<and> length (ino_data n) < file_size_limit"

definition disk_wf :: "disk \<Rightarrow> bool" where
  "disk_wf d \<longleftrightarrow> list_all inode_wf (dk_inodes d) \<and>
     (\<forall>p i. dk_names d p = Some i \<longrightarrow> i < length (dk_inodes d)) \<and>
     (\<forall>p i. dk_durable d p = Some i \<longrightarrow> i < length (dk_inodes d))"

text \<open>
  After a crash each file holds its durable prefix followed by anything, or exactly its bytes if all of
  them were durable; the names are the current ones or the durable ones.
\<close>

definition crash :: "disk \<Rightarrow> disk \<Rightarrow> bool" where
  "crash d d' \<longleftrightarrow> length (dk_inodes d') = length (dk_inodes d) \<and>
     (\<forall>i < length (dk_inodes d). prefix (stable_of d i) (data_of d' i) \<and> stable_of d' i = data_of d' i \<and>
        (stable_of d i = data_of d i \<longrightarrow> data_of d' i = data_of d i) \<and>
        length (data_of d' i) < file_size_limit) \<and>
     (dk_names d' = dk_names d \<or> dk_names d' = dk_durable d) \<and> dk_durable d' = dk_names d'"

lemma crash_wf: "disk_wf d \<Longrightarrow> crash d d' \<Longrightarrow> disk_wf d'"
  by (auto simp: disk_wf_def crash_def inode_wf_def list_all_length)

lemma inode_wf_at: "disk_wf d \<Longrightarrow> i < length (dk_inodes d) \<Longrightarrow> inode_wf (dk_inodes d ! i)"
  by (simp add: disk_wf_def list_all_length)

lemma disk_wf_names: "disk_wf d \<Longrightarrow> dk_names d p = Some i \<Longrightarrow> i < length (dk_inodes d)"
  by (simp add: disk_wf_def)

section \<open>Functions that only read\<close>

text \<open>
  \<open>read_only m\<close>: the disk is left alone, and the result is the one on a healthy disk or an I/O
  error; \<open>outcome m d\<close> is that result.  \<open>io\<close> injects I/O errors into the error type.
\<close>

definition outcome :: "(fs, 'e, 'a) eff \<Rightarrow> disk \<Rightarrow> 'e + 'a" where
  "outcome m d = fst (m (healthy d))"

definition read_only :: "(io_error \<Rightarrow> 'e) \<Rightarrow> (fs, 'e, 'a) eff \<Rightarrow> bool" where
  "read_only io m \<longleftrightarrow> (\<forall>s. fs_disk (snd (m s)) = fs_disk s \<and>
     (fst (m s) = outcome m (fs_disk s) \<or> (\<exists>e. fst (m s) = Inl (io e))) \<and>
     (fs_faults s = [] \<longrightarrow> fs_faults (snd (m s)) = []))"

lemma read_onlyD:
  assumes "read_only io m" and "m s = (r, t)"
  shows "fs_disk t = fs_disk s" and "r = outcome m (fs_disk s) \<or> (\<exists>e. r = Inl (io e))"
    and "r = Inr x \<Longrightarrow> outcome m (fs_disk s) = Inr x"
  using assms(1) [unfolded read_only_def, rule_format, of s] assms(2) by auto

lemma read_only_healthy:
  assumes "read_only io m"
  shows "m (healthy d) = (outcome m d, healthy d)"
proof -
  have "fs_disk (snd (m (healthy d))) = d" "fs_faults (snd (m (healthy d))) = []"
    using assms [unfolded read_only_def, rule_format, of "healthy d"] by auto
  then have "snd (m (healthy d)) = healthy d" by simp
  then show ?thesis by (simp add: outcome_def prod_eq_iff)
qed

lemma read_only_ret [intro, simp]: "read_only io (ret x)" and outcome_ret [simp]: "outcome (ret x) d = Inr x"
  by (simp_all add: read_only_def outcome_def)

lemma read_only_raise [intro, simp]: "read_only io (raise e)" and outcome_raise [simp]: "outcome (raise e) d = Inl e"
  by (simp_all add: read_only_def outcome_def)

lemma read_only_lift_result [intro, simp]: "read_only io (lift_result r)"
  and outcome_lift_result [simp]: "outcome (lift_result r) d = r"
  by (simp_all add: read_only_def outcome_def)

lemma outcome_seq:
  assumes "read_only io m"
  shows "outcome (seq_eff m f) d = and_then (outcome m d) (\<lambda>x. outcome (f x) d)"
  using read_only_healthy [OF assms, of d]
  by (cases "outcome m d") (simp_all add: outcome_def seq_eff_def)

lemma read_only_seq [intro]:
  assumes m: "read_only io m" and f: "\<And>x. read_only io (f x)"
  shows "read_only io (seq_eff m f)"
  unfolding read_only_def
proof (intro allI)
  fix s
  obtain r t where mt: "m s = (r, t)" by fastforce
  note D = read_onlyD [OF m mt]
  have quiet: "fs_faults s = [] \<longrightarrow> fs_faults t = []" using m mt unfolding read_only_def by (metis snd_conv)
  show "fs_disk (snd (seq_eff m f s)) = fs_disk s \<and>
      (fst (seq_eff m f s) = outcome (seq_eff m f) (fs_disk s) \<or> (\<exists>e. fst (seq_eff m f s) = Inl (io e))) \<and>
      (fs_faults s = [] \<longrightarrow> fs_faults (snd (seq_eff m f s)) = [])"
  proof (cases r)
    case (Inl e)
    then have "seq_eff m f s = (Inl e, t)" using mt by simp
    moreover have "outcome m (fs_disk s) = Inl e \<or> (\<exists>e'. e = io e')" using D(2) Inl by auto
    ultimately show ?thesis using D(1) quiet by (auto simp: outcome_seq [OF m])
  next
    case (Inr x)
    obtain q u where fu: "f x t = (q, u)" by fastforce
    note fr = f [of x]
    note F = read_onlyD [OF fr fu]
    have "fs_faults t = [] \<longrightarrow> fs_faults u = []" using fr fu unfolding read_only_def by (metis snd_conv)
    moreover have "seq_eff m f s = (q, u)" using mt Inr fu by simp
    ultimately show ?thesis
      using Inr D(1) D(3) [OF Inr] F(1,2) quiet by (auto simp: outcome_seq [OF m])
  qed
qed

lemma read_only_if [intro]: "(b \<Longrightarrow> read_only io m) \<Longrightarrow> (\<not> b \<Longrightarrow> read_only io n) \<Longrightarrow> read_only io (if b then m else n)"
  by simp

lemma read_only_fallible: "(\<And>d. snd (f d) = d) \<Longrightarrow> read_only (\<lambda>e. e) (fallible f)"
  and outcome_fallible: "outcome (fallible f) d = fst (f d)"
  by (auto simp: read_only_def outcome_def fallible_def next_fault_def split: prod.splits list.splits fault.splits)
     (metis snd_conv)+

lemma read_only_file_ops [intro, simp]:
  "read_only (\<lambda>e. e) (open_file p)" "read_only (\<lambda>e. e) (file_len i)" "read_only (\<lambda>e. e) (read_exact_at i off n)"
  by (simp_all add: open_file_def file_len_def read_exact_at_def read_only_fallible)

lemma outcome_file_ops [simp]:
  "outcome (open_file p) d = (case dk_names d p of None \<Rightarrow> Inl (IoError NotFound ''no such file'') | Some i \<Rightarrow> Inr i)"
  "outcome (file_len i) d = Inr (word_of_nat (length (data_of d i)))"
  "outcome (read_exact_at i off n) d =
     (if unat off + n \<le> length (data_of d i) then Inr (slice (unat off) n (data_of d i))
      else Inl (IoError UnexpectedEof ''failed to fill whole buffer''))"
  by (simp_all add: open_file_def file_len_def read_exact_at_def outcome_fallible)

section \<open>Contracts of the file operations\<close>

text \<open>
  The conditions speak of the disk alone, so they hold for every schedule of faults.
\<close>

lemma contract_fallible:
  assumes "\<And>d x d'. P d \<Longrightarrow> m d = (Inr x, d') \<Longrightarrow> Q x d'" and "\<And>d e d'. P d \<Longrightarrow> m d = (Inl e, d') \<Longrightarrow> E e d'"
    and "\<And>d e. P d \<Longrightarrow> E e d"
  shows "contract (\<lambda>s. P (fs_disk s)) (fallible m) (\<lambda>x s. Q x (fs_disk s)) (\<lambda>e s. E e (fs_disk s))"
  unfolding contract_def
proof (intro allI impI)
  fix s :: fs
  assume p: "P (fs_disk s)"
  obtain r d' where m: "m (fs_disk s) = (r, d')" by fastforce
  show "case fallible m s of (Inr x, t) \<Rightarrow> Q x (fs_disk t) | (Inl e, t) \<Rightarrow> E e (fs_disk t)"
    using assms(1,2) [OF p] assms(3) [OF p] m
    by (cases r) (auto simp: fallible_def next_fault_def split: list.splits fault.splits)
qed

lemma contract_read_only:
  assumes "read_only i m" and "\<And>d x. P d \<Longrightarrow> outcome m d = Inr x \<Longrightarrow> Q x d" and "\<And>d e. P d \<Longrightarrow> outcome m d = Inl e \<Longrightarrow> E e d"
    and "\<And>d e. P d \<Longrightarrow> E (i e) d"
  shows "contract (\<lambda>s. P (fs_disk s)) m (\<lambda>x s. Q x (fs_disk s)) (\<lambda>e s. E e (fs_disk s))"
proof (rule contractI)
  fix s t :: fs and x
  assume "P (fs_disk s)" "m s = (Inr x, t)"
  then show "Q x (fs_disk t)" using read_onlyD(1,3) [OF assms(1)] assms(2) by metis
next
  fix s t :: fs and e
  assume p: "P (fs_disk s)" and "m s = (Inl e, t)"
  then show "E e (fs_disk t)" using read_onlyD(1,2) [OF assms(1)] assms(3,4) [OF p]
    by (metis sum.inject(1))
qed

abbreviation truncate_inode :: "nat \<Rightarrow> nat \<Rightarrow> disk \<Rightarrow> disk" where
  "truncate_inode i n \<equiv> update_inode i (\<lambda>x. \<lparr>ino_data = take n (ino_data x @ replicate (n - length (ino_data x)) 0),
     ino_stable = take n (ino_stable x)\<rparr>)"

abbreviation sync_inode :: "nat \<Rightarrow> disk \<Rightarrow> disk" where
  "sync_inode i \<equiv> update_inode i (\<lambda>x. x\<lparr>ino_stable := ino_data x\<rparr>)"

lemma contract_set_len:
  assumes "unat n < file_size_limit"
  shows "contract (\<lambda>s. P (fs_disk s)) (set_len i n)
    (\<lambda>_ s. \<exists>d. P d \<and> fs_disk s = truncate_inode i (unat n) d) (\<lambda>_ s. P (fs_disk s))"
  unfolding set_len_def
  by (rule contract_fallible [where P = P and Q = "\<lambda>_ d'. \<exists>d. P d \<and> d' = truncate_inode i (unat n) d" and E = "\<lambda>_. P"])
     (use assms in auto)

lemma contract_sync_data:
  "contract (\<lambda>s. P (fs_disk s)) (sync_data i) (\<lambda>_ s. \<exists>d. P d \<and> fs_disk s = sync_inode i d) (\<lambda>_ s. P (fs_disk s))"
  unfolding sync_data_def
  by (rule contract_fallible [where P = P and Q = "\<lambda>_ d'. \<exists>d. P d \<and> d' = sync_inode i d" and E = "\<lambda>_. P"]) auto

lemma update_inode_simps [simp]:
  "length (dk_inodes (update_inode i f d)) = length (dk_inodes d)"
  "dk_names (update_inode i f d) = dk_names d"
  "dk_durable (update_inode i f d) = dk_durable d"
  "j \<noteq> i \<Longrightarrow> dk_inodes (update_inode i f d) ! j = dk_inodes d ! j"
  "i < length (dk_inodes d) \<Longrightarrow> dk_inodes (update_inode i f d) ! i = f (dk_inodes d ! i)"
  by (simp_all add: update_inode_def)

lemma update_inode_wf:
  assumes "disk_wf d" and "i < length (dk_inodes d) \<Longrightarrow> inode_wf (f (dk_inodes d ! i))"
  shows "disk_wf (update_inode i f d)"
proof -
  have "inode_wf (dk_inodes (update_inode i f d) ! j)" if "j < length (dk_inodes d)" for j
    using that assms inode_wf_at [OF assms(1) that] by (cases "j = i") simp_all
  then show ?thesis using assms(1) by (simp add: disk_wf_def list_all_length)
qed

lemma truncate_inode_wf: "disk_wf d \<Longrightarrow> n < file_size_limit \<Longrightarrow> disk_wf (truncate_inode i n d)"
proof (rule update_inode_wf)
  assume d: "disk_wf d" and n: "n < file_size_limit" and "i < length (dk_inodes d)"
  then have "inode_wf (dk_inodes d ! i)" by (simp add: inode_wf_at)
  then show "inode_wf \<lparr>ino_data = take n (data_of d i @ replicate (n - length (data_of d i)) 0), ino_stable = take n (stable_of d i)\<rparr>"
    using n by (auto simp: inode_wf_def prefix_def)
qed

lemma sync_inode_wf: "disk_wf d \<Longrightarrow> disk_wf (sync_inode i d)"
  by (rule update_inode_wf) (auto simp: inode_wf_def dest: inode_wf_at)

end
