(* ===== verification/Chunks.thy ===== *)
theory Chunks
  imports Files Payload CatalogKeys
begin

text \<open>
  Chunk files (\<open>crates/reflink-forest-store/src/lib.rs\<close>): path names, scanning, verification and
  tail recovery of a chunk, and the functions that read or stream one record.  Everything here
  works on the file system alone.
\<close>

section \<open>Constants and errors\<close>

definition MAX_RECOVERY_RECORD_BYTES :: nat where "MAX_RECOVERY_RECORD_BYTES = 64 * 1024 * 1024"
definition STREAM_COPY_BUFFER_BYTES :: nat where "STREAM_COPY_BUFFER_BYTES = 64 * 1024"

datatype store_error =
    Io io_error
  | Format format_error
  | Codec codec_error
  | NotAnOpenChunk
  | NotASealedChunk
  | ConflictingChunkPaths path
  | SealedFooterMissing
  | SealedFooterMismatch string
  | OpenChunkContainsSealedFooter
  | CatalogChunkStateConflict u32 u64 chunk_state
  | RotationTargetTooSmall
  | InvalidLocationRebuildBatchSize
  | DuplicateRebuildChunkIdentity u32 u64
  | PreservedAliasMissingContent repo_id git_oid content_id
  | PreservedAliasContentMismatch repo_id git_oid content_id
  | WriterGatePoisoned
  | OffsetOverflow
  | LocationMismatch string
  | Catalog catalog_error

text \<open>\<open>?\<close> on an I/O result; \<open>require\<close> is a guard with an early return.\<close>

definition io :: "(fs, io_error, 'a) eff \<Rightarrow> (fs, store_error, 'a) eff" where
  "io m = (\<lambda>s. case m s of (r, t) \<Rightarrow> (map_err Io r, t))"

definition require :: "bool \<Rightarrow> 'e \<Rightarrow> 'e + unit" where
  "require b e = (if b then Inr () else Inl e)"

section \<open>Paths\<close>

definition is_open_path :: "path \<Rightarrow> bool" where
  "is_open_path p \<longleftrightarrow> path_extension p = Some ''open''"

definition is_sealed_path :: "path \<Rightarrow> bool" where
  "is_sealed_path p \<longleftrightarrow> path_extension p = Some ''sealed''"

definition sealed_path_for :: "path \<Rightarrow> store_error + path" where
  "sealed_path_for open_path =
     (if \<not> is_open_path open_path then Inl NotAnOpenChunk else Inr (with_extension open_path ''sealed''))"

definition chunk_path_pair :: "path \<Rightarrow> store_error + path \<times> path" where
  "chunk_path_pair p =
     (if is_open_path p then Inr (p, with_extension p ''sealed'')
      else if is_sealed_path p then Inr (with_extension p ''open'', p)
      else Inl NotAnOpenChunk)"

section \<open>Data\<close>

record record_location =
  rl_offset :: u64
  rl_record_length :: u64

record record_scan =
  scn_records :: u64
  scn_end :: u64
  scn_checksum :: crc32c_state

record recovery =
  rec_header :: chunk_header
  rec_valid_records :: u64
  rec_retained_bytes :: u64
  rec_truncated_bytes :: u64
  rec_records_crc32c :: crc32c_state

record verified_sealed_chunk =
  vs_header :: chunk_header
  vs_footer :: sealed_chunk_footer

record sealed_chunk =
  sc_path :: path
  sc_header :: chunk_header
  sc_footer :: sealed_chunk_footer

section \<open>Scanning\<close>

definition read_chunk_header :: "nat \<Rightarrow> (fs, store_error, chunk_header) eff" where
  "read_chunk_header file =
     seq_eff (io (read_exact_at file 0 CHUNK_HEADER_LEN)) (\<lambda>bs.
     lift_result (map_err Format (chunk_header_decode bs)))"

text \<open>
  One iteration of the scan: the record at \<open>offset\<close> with its encoding, or \<open>None\<close> where the
  recovery scan breaks off; the strict scan fails there instead.
\<close>

definition scan_one ::
  "'h crypto \<Rightarrow> zstd \<Rightarrow> nat \<Rightarrow> u64 \<Rightarrow> bool \<Rightarrow> u64
    \<Rightarrow> (fs, store_error, (u64 \<times> object_record \<times> bytes) option) eff" where
  "scan_one c z file end_offset strict offset =
     seq_eff (lift_result (ok_or (checked_sub end_offset offset) OffsetOverflow)) (\<lambda>remaining.
     if remaining < word_of_nat RECORD_HEADER_LEN
     then (if strict then raise (Format Truncated) else ret None) else
     seq_eff (io (read_exact_at file offset RECORD_HEADER_LEN)) (\<lambda>record_header.
     case encoded_record_len_from_header record_header of
       Inl error \<Rightarrow> if strict then raise (Format error) else ret None
     | Inr encoded_len \<Rightarrow>
         if MAX_RECOVERY_RECORD_BYTES < encoded_len
         then (if strict then raise OffsetOverflow else ret None) else
         seq_eff (lift_result (ok_or (try_u64 encoded_len) OffsetOverflow)) (\<lambda>encoded_len_u64.
         if remaining < encoded_len_u64
         then (if strict then raise (Format Truncated) else ret None) else
         seq_eff (io (read_exact_at file offset encoded_len)) (\<lambda>encoded.
         case decode_record encoded of
           Inl error \<Rightarrow> if strict then raise (Format error) else ret None
         | Inr (record, consumed) \<Rightarrow>
             if consumed = encoded_len then
               seq_eff (if strict then lift_result (map_err Codec (verify_object_record c z record)) else ret ()) (\<lambda>_.
               ret (Some (encoded_len_u64, record, encoded)))
             else if strict then raise (SealedFooterMismatch ''record length'') else ret None))))"

text \<open>A visitor gets the offset, the record and the length of its encoding, and its own state.\<close>

type_synonym 'v record_visitor = "u64 \<Rightarrow> object_record \<Rightarrow> u64 \<Rightarrow> 'v \<Rightarrow> store_error + 'v"

lemma encoded_record_len_positive:
  assumes "encoded_record_len_from_header bs = Inr n"
  shows "0 < n"
proof -
  obtain m where "decode_record_metadata bs = Inr m"
    using assms by (auto simp: encoded_record_len_from_header_def ok_iff)
  then show ?thesis
    using assms padded_length_bounds(1) [of "unat (md_stored_length m)"]
    by (simp add: encoded_record_len_from_header_eq split: if_splits)
qed

lemma scan_one_progress:
  assumes "scan_one c z file end_offset strict offset s = (Inr (Some (n, r, encoded)), t)"
  shows "0 < n"
proof -
  from assms obtain m where "encoded_record_len_from_header (m :: bytes) = Inr (unat n)"
    by (auto simp: scan_one_def ok_iff unat_u64_of_nat simp del: seq_eff_ok_iff elim!: seq_okE split: if_split_asm sum.split_asm prod.split_asm)
  then show ?thesis using encoded_record_len_positive by (simp add: word_less_nat_alt)
qed

function scan_loop ::
  "'h crypto \<Rightarrow> zstd \<Rightarrow> nat \<Rightarrow> u64 \<Rightarrow> bool \<Rightarrow> 'v record_visitor \<Rightarrow> u64 \<Rightarrow> u64 \<Rightarrow> crc32c_state \<Rightarrow> 'v
    \<Rightarrow> (fs, store_error, record_scan \<times> 'v) eff" where
  "scan_loop c z file end_offset strict visitor offset records checksum v s =
     (if \<not> offset < end_offset
      then (Inr (\<lparr>scn_records = records, scn_end = offset, scn_checksum = checksum\<rparr>, v), s)
      else case scan_one c z file end_offset strict offset s of
        (Inl error, s') \<Rightarrow> (Inl error, s')
      | (Inr None, s') \<Rightarrow>
          (Inr (\<lparr>scn_records = records, scn_end = offset, scn_checksum = checksum\<rparr>, v), s')
      | (Inr (Some (encoded_len, record, encoded)), s') \<Rightarrow>
          (case visitor offset record encoded_len v of
             Inl error \<Rightarrow> (Inl error, s')
           | Inr v' \<Rightarrow>
             (case checked_add offset encoded_len of
                None \<Rightarrow> (Inl OffsetOverflow, s')
              | Some offset' \<Rightarrow>
                (case checked_add records 1 of
                   None \<Rightarrow> (Inl OffsetOverflow, s')
                 | Some records' \<Rightarrow>
                     scan_loop c z file end_offset strict visitor offset' records'
                       (crc32c_update checksum encoded) v' s'))))"
  by pat_completeness auto
termination
proof (relation "measure (\<lambda>(c, z, file, end_offset, strict, visitor, offset, _). unat end_offset - unat offset)", goal_cases)
  case (2 c z fl end_offset strict visitor offset records checksum v s p r s' q encoded_len q' rcd encoded v' offset' records')
  then have "0 < encoded_len" using scan_one_progress by metis
  then have "unat offset < unat offset'" using 2 by (simp add: checked_add_unat word_less_nat_alt)
  then show ?case using 2 by (simp add: word_less_nat_alt)
qed simp

declare scan_loop.simps [simp del]

definition scan_records_with_visitor ::
  "'h crypto \<Rightarrow> zstd \<Rightarrow> nat \<Rightarrow> u64 \<Rightarrow> bool \<Rightarrow> 'v record_visitor \<Rightarrow> 'v \<Rightarrow> (fs, store_error, record_scan \<times> 'v) eff" where
  "scan_records_with_visitor c z file end_offset strict visitor v =
     (if end_offset < word_of_nat CHUNK_HEADER_LEN then raise (Format Truncated)
      else scan_loop c z file end_offset strict visitor (word_of_nat CHUNK_HEADER_LEN) 0 crc32c_new v)"

definition scan_records ::
  "'h crypto \<Rightarrow> zstd \<Rightarrow> nat \<Rightarrow> u64 \<Rightarrow> bool \<Rightarrow> (fs, store_error, record_scan) eff" where
  "scan_records c z file end_offset strict =
     seq_eff (scan_records_with_visitor c z file end_offset strict (\<lambda>_ _ _ v. Inr v) ()) (\<lambda>(scan, _). ret scan)"

section \<open>Verification and recovery\<close>

definition verify_sealed_file_with_visitor ::
  "'h crypto \<Rightarrow> zstd \<Rightarrow> nat \<Rightarrow> 'v record_visitor \<Rightarrow> 'v \<Rightarrow> (fs, store_error, verified_sealed_chunk \<times> 'v) eff" where
  "verify_sealed_file_with_visitor c z file visitor v =
     seq_eff (read_chunk_header file) (\<lambda>header.
     seq_eff (io (file_len file)) (\<lambda>len.
     seq_eff (lift_result (ok_or (checked_add (word_of_nat CHUNK_HEADER_LEN) (word_of_nat SEALED_CHUNK_FOOTER_LEN))
       OffsetOverflow)) (\<lambda>minimum_length.
     if len < minimum_length then raise SealedFooterMissing else
     seq_eff (lift_result (ok_or (checked_sub len (word_of_nat SEALED_CHUNK_FOOTER_LEN)) OffsetOverflow)) (\<lambda>footer_offset.
     seq_eff (io (read_exact_at file footer_offset SEALED_CHUNK_FOOTER_LEN)) (\<lambda>footer_bytes.
     seq_eff (lift_result (map_err Format (sealed_footer_decode footer_bytes))) (\<lambda>footer.
     if sf_final_length footer \<noteq> len then raise (SealedFooterMismatch ''final length'') else
     seq_eff (scan_records_with_visitor c z file footer_offset True visitor v) (\<lambda>(scan, v').
     if scn_end scan \<noteq> footer_offset then raise (SealedFooterMismatch ''record boundary'') else
     if scn_records scan \<noteq> sf_record_count footer then raise (SealedFooterMismatch ''record count'') else
     if crc32c_finalize (scn_checksum scan) \<noteq> sf_records_crc32c footer
     then raise (SealedFooterMismatch ''rolling record checksum'') else
     ret (\<lparr>vs_header = header, vs_footer = footer\<rparr>, v'))))))))"

definition verify_sealed_file :: "'h crypto \<Rightarrow> zstd \<Rightarrow> nat \<Rightarrow> (fs, store_error, verified_sealed_chunk) eff" where
  "verify_sealed_file c z file =
     seq_eff (verify_sealed_file_with_visitor c z file (\<lambda>_ _ _ v. Inr v) ()) (\<lambda>(verified, _). ret verified)"

text \<open>\<open>if let Ok(..)\<close> and \<open>is_ok()\<close> keep going with the result of a failed call.\<close>

definition attempt :: "('s, 'e, 'a) eff \<Rightarrow> ('s, 'f, 'e + 'a) eff" where
  "attempt m = (\<lambda>s. case m s of (r, t) \<Rightarrow> (Inr r, t))"

definition recover_file :: "'h crypto \<Rightarrow> zstd \<Rightarrow> nat \<Rightarrow> (fs, store_error, recovery) eff" where
  "recover_file c z file =
     seq_eff (read_chunk_header file) (\<lambda>header.
     seq_eff (io (file_len file)) (\<lambda>original_len.
     seq_eff (scan_records c z file original_len False) (\<lambda>scan.
     seq_eff (if scn_end scan \<noteq> original_len
              then seq_eff (io (set_len file (scn_end scan))) (\<lambda>_. io (sync_data file)) else ret ()) (\<lambda>_.
     ret \<lparr>rec_header = header, rec_valid_records = scn_records scan, rec_retained_bytes = scn_end scan,
          rec_truncated_bytes = original_len - scn_end scan, rec_records_crc32c = scn_checksum scan\<rparr>))))"

definition recover_open_chunk :: "'h crypto \<Rightarrow> zstd \<Rightarrow> path \<Rightarrow> (fs, store_error, recovery) eff" where
  "recover_open_chunk c z p =
     seq_eff (io (open_file p)) (\<lambda>file.
     seq_eff (attempt (verify_sealed_file c z file)) (\<lambda>sealed.
     if is_ok sealed then raise OpenChunkContainsSealedFooter else recover_file c z file))"

definition verify_sealed_chunk :: "'h crypto \<Rightarrow> zstd \<Rightarrow> path \<Rightarrow> (fs, store_error, sealed_chunk) eff" where
  "verify_sealed_chunk c z p =
     (if \<not> is_sealed_path p then raise NotASealedChunk else
      seq_eff (io (open_file p)) (\<lambda>file.
      seq_eff (verify_sealed_file c z file) (\<lambda>verified.
      ret \<lparr>sc_path = p, sc_header = vs_header verified, sc_footer = vs_footer verified\<rparr>)))"

definition verify_chunk :: "'h crypto \<Rightarrow> zstd \<Rightarrow> path \<Rightarrow> (fs, store_error, u64) eff" where
  "verify_chunk c z p =
     (if is_sealed_path p then
        seq_eff (verify_sealed_chunk c z p) (\<lambda>sealed. ret (sf_record_count (sc_footer sealed)))
      else if \<not> is_open_path p then raise NotAnOpenChunk else
        seq_eff (io (open_file p)) (\<lambda>file.
        seq_eff (io (file_len file)) (\<lambda>len.
        seq_eff (read_chunk_header file) (\<lambda>_.
        seq_eff (attempt (verify_sealed_file c z file)) (\<lambda>sealed.
        case sealed of
          Inr verified \<Rightarrow> ret (sf_record_count (vs_footer verified))
        | Inl _ \<Rightarrow> seq_eff (scan_records c z file len True) (\<lambda>scan. ret (scn_records scan)))))))"

section \<open>Reading one record\<close>

text \<open>The checks on the byte range and the chunk header that the three readers share.\<close>

definition check_location_range :: "object_location \<Rightarrow> u64 \<Rightarrow> store_error + unit" where
  "check_location_range location file_length =
     and_then (require (\<not> loc_offset location < word_of_nat CHUNK_HEADER_LEN) (LocationMismatch ''offset'')) (\<lambda>_.
     and_then (ok_or (checked_add (loc_offset location) (loc_record_length location)) OffsetOverflow) (\<lambda>record_end.
     require (\<not> file_length < record_end) (LocationMismatch ''record_length'')))"

definition check_location_header :: "object_location \<Rightarrow> chunk_header \<Rightarrow> store_error + unit" where
  "check_location_header location header =
     and_then (require (ch_generation header = loc_generation location) (LocationMismatch ''generation'')) (\<lambda>_.
     require (ch_chunk_id header = loc_chunk_id location) (LocationMismatch ''chunk_id''))"

definition open_location :: "path \<Rightarrow> object_location \<Rightarrow> (fs, store_error, nat) eff" where
  "open_location p location =
     seq_eff (io (open_file p)) (\<lambda>file.
     seq_eff (io (file_len file)) (\<lambda>file_length.
     seq_eff (lift_result (check_location_range location file_length)) (\<lambda>_.
     seq_eff (read_chunk_header file) (\<lambda>header.
     seq_eff (lift_result (check_location_header location header)) (\<lambda>_.
     ret file)))))"

text \<open>The fields of a location that repeat those of the record.\<close>

definition check_location_record :: "object_location \<Rightarrow> object_record \<Rightarrow> store_error + unit" where
  "check_location_record location record =
     and_then (ok_or (try_u64 (length (obj_payload record))) OffsetOverflow) (\<lambda>stored.
     and_then (require (stored = loc_stored_length location) (LocationMismatch ''stored_length'')) (\<lambda>_.
     and_then (require (obj_raw_length record = loc_raw_length location) (LocationMismatch ''raw_length'')) (\<lambda>_.
     and_then (require (obj_kind record = loc_kind location) (LocationMismatch ''kind'')) (\<lambda>_.
     and_then (require (obj_codec record = loc_codec location) (LocationMismatch ''codec'')) (\<lambda>_.
     and_then (require (obj_flags record = loc_flags location) (LocationMismatch ''flags'')) (\<lambda>_.
     require (crc32c (obj_payload record) = loc_payload_crc32c location) (LocationMismatch ''payload_crc32c'')))))))"

definition read_record_at ::
  "'h crypto \<Rightarrow> zstd \<Rightarrow> path \<Rightarrow> object_location \<Rightarrow> (fs, store_error, object_record) eff" where
  "read_record_at c z p location =
     seq_eff (open_location p location) (\<lambda>file.
     seq_eff (io (read_exact_at file (loc_offset location) RECORD_HEADER_LEN)) (\<lambda>record_header.
     seq_eff (lift_result (map_err Format (encoded_record_len_from_header record_header))) (\<lambda>encoded_length.
     if MAX_RECOVERY_RECORD_BYTES < encoded_length then raise OffsetOverflow else
     if encoded_length \<noteq> unat (loc_record_length location) then raise (LocationMismatch ''record_length'') else
     seq_eff (io (read_exact_at file (loc_offset location) encoded_length)) (\<lambda>encoded.
     seq_eff (lift_result (map_err Format (decode_record encoded))) (\<lambda>(record, consumed).
     if consumed \<noteq> encoded_length then raise (LocationMismatch ''record_length'') else
     seq_eff (lift_result (check_location_record location record)) (\<lambda>_.
     seq_eff (lift_result (map_err Codec (verify_object_record c z record))) (\<lambda>_.
     ret record)))))))"

definition validate_stream_location :: "record_metadata \<Rightarrow> object_location \<Rightarrow> store_error + unit" where
  "validate_stream_location metadata location =
     and_then (require (md_stored_length metadata = loc_stored_length location) (LocationMismatch ''stored_length'')) (\<lambda>_.
     and_then (require (md_raw_length metadata = loc_raw_length location) (LocationMismatch ''raw_length'')) (\<lambda>_.
     and_then (require (md_kind metadata = loc_kind location) (LocationMismatch ''kind'')) (\<lambda>_.
     and_then (require (md_codec metadata = loc_codec location) (LocationMismatch ''codec'')) (\<lambda>_.
     require (md_flags metadata = loc_flags location) (LocationMismatch ''flags'')))))"

section \<open>Streaming one record\<close>

text \<open>What both streaming functions do before the first byte of payload.\<close>

definition open_stream :: "path \<Rightarrow> object_location \<Rightarrow> (fs, store_error, nat \<times> record_metadata \<times> u64) eff" where
  "open_stream p location =
     seq_eff (open_location p location) (\<lambda>file.
     seq_eff (io (read_exact_at file (loc_offset location) RECORD_HEADER_LEN)) (\<lambda>record_header.
     seq_eff (lift_result (map_err Format (decode_record_metadata record_header))) (\<lambda>metadata.
     seq_eff (lift_result (validate_stream_location metadata location)) (\<lambda>_.
     seq_eff (lift_result (map_err Format (encoded_record_len_from_metadata metadata))) (\<lambda>expected_record_length.
     if expected_record_length \<noteq> loc_record_length location then raise (LocationMismatch ''record_length'') else
     ret (file, metadata, expected_record_length))))))"

text \<open>What both do after the payload: footer, checksum of the location, padding.\<close>

definition finish_stream ::
  "nat \<Rightarrow> object_location \<Rightarrow> record_metadata \<Rightarrow> u64 \<Rightarrow> u32 \<Rightarrow> (fs, store_error, record_metadata) eff" where
  "finish_stream file location metadata expected_record_length payload_crc =
     (let footer_offset = loc_offset location + word_of_nat RECORD_HEADER_LEN + md_stored_length metadata in
     seq_eff (io (read_exact_at file footer_offset RECORD_FOOTER_LEN)) (\<lambda>footer.
     seq_eff (lift_result (ok_or (unpadded_length_u64 (md_stored_length metadata)) OffsetOverflow)) (\<lambda>unpadded_length.
     seq_eff (lift_result (map_err Format (validate_record_footer footer payload_crc unpadded_length))) (\<lambda>_.
     seq_eff (lift_result (require (payload_crc = loc_payload_crc32c location) (LocationMismatch ''payload_crc32c''))) (\<lambda>_.
     seq_eff (lift_result (ok_or (checked_sub expected_record_length unpadded_length) OffsetOverflow)) (\<lambda>padding_length.
     seq_eff (io (read_exact_at file (loc_offset location + unpadded_length) (unat padding_length))) (\<lambda>padding.
     if any_nonzero padding then raise (Format NonZeroPadding) else ret metadata)))))))"

text \<open>The copy loop of \<open>stream_record_at\<close>: \<open>remaining\<close> payload bytes at \<open>offset\<close>, one buffer at a time.\<close>

function stream_copy ::
  "'w writer \<Rightarrow> nat \<Rightarrow> u64 \<Rightarrow> u64 \<Rightarrow> crc32c_state \<Rightarrow> (fs \<times> 'w, store_error, crc32c_state) eff" where
  "stream_copy wr file offset remaining payload_crc sw =
     (case sw of (s, w) \<Rightarrow>
      if remaining = 0 then (Inr payload_crc, (s, w)) else
      let chunk_length = min remaining (word_of_nat STREAM_COPY_BUFFER_BYTES) in
      case io (read_exact_at file offset (unat chunk_length)) s of
        (Inl error, s') \<Rightarrow> (Inl error, (s', w))
      | (Inr buffer, s') \<Rightarrow>
          (case write_all wr buffer w of
             (Inl error, w') \<Rightarrow> (Inl (Io error), (s', w'))
           | (Inr _, w') \<Rightarrow>
               stream_copy wr file (offset + chunk_length) (remaining - chunk_length)
                 (crc32c_update payload_crc buffer) (s', w')))"
  by pat_completeness auto
termination
proof (relation "measure (\<lambda>(wr, file, offset, remaining, crc, sw). unat remaining)", goal_cases)
  case (2 wr fl offset remaining crc sw s w chunk_length)
  have "chunk_length \<le> remaining" by (simp add: 2(3))
  moreover have "0 < chunk_length"
    using 2(2,3) by (simp add: STREAM_COPY_BUFFER_BYTES_def min_def word_gt_0)
  ultimately have "unat (remaining - chunk_length) < unat remaining"
    by (simp add: unat_sub word_less_nat_alt word_le_nat_alt)
  then show ?case by simp
qed simp

declare stream_copy.simps [simp del]

definition stream_record_at ::
  "'w writer \<Rightarrow> path \<Rightarrow> object_location \<Rightarrow> (fs \<times> 'w, store_error, record_metadata) eff" where
  "stream_record_at wr p location = (\<lambda>(s, w).
     case open_stream p location s of
       (Inl error, s') \<Rightarrow> (Inl error, (s', w))
     | (Inr (file, metadata, expected_record_length), s') \<Rightarrow>
         (case stream_copy wr file (loc_offset location + word_of_nat RECORD_HEADER_LEN)
                 (md_stored_length metadata) crc32c_new (s', w) of
            (Inl error, sw) \<Rightarrow> (Inl error, sw)
          | (Inr crc, (s'', w')) \<Rightarrow>
              (case finish_stream file location metadata expected_record_length (crc32c_finalize crc) s'' of
                 (r, s3) \<Rightarrow> (r, (s3, w')))))"

text \<open>
  The payload reader delivers the stored payload and nothing beyond it.  A decoder that succeeds
  has consumed it all: the raw copy reads to the end, the frame decoder reports what it left.
\<close>

definition stream_decoded_record_at ::
  "'h crypto \<Rightarrow> zstd \<Rightarrow> 'w writer \<Rightarrow> path \<Rightarrow> object_location \<Rightarrow> (fs \<times> 'w, store_error, record_metadata) eff" where
  "stream_decoded_record_at c z wr p location = (\<lambda>(s, w).
     case seq_eff (open_stream p location) (\<lambda>(file, metadata, expected_record_length).
          seq_eff (io (read_exact_at file (loc_offset location + word_of_nat RECORD_HEADER_LEN)
            (unat (md_stored_length metadata)))) (\<lambda>payload.
          ret (file, metadata, expected_record_length, payload))) s of
       (Inl error, s') \<Rightarrow> (Inl error, (s', w))
     | (Inr (file, metadata, expected_record_length, payload), s') \<Rightarrow>
         (case decode_object_payload_to_writer c z wr (md_kind metadata) (md_codec metadata)
                 (md_raw_length metadata) (md_content_id metadata) payload w of
            (Inl error, w') \<Rightarrow> (Inl (Codec error), (s', w'))
          | (Inr _, w') \<Rightarrow>
              (case finish_stream file location metadata expected_record_length (crc32c payload) s' of
                 (r, s'') \<Rightarrow> (r, (s'', w')))))"

end
