(* ===== verification/ChunkLaws.thy ===== *)
theory ChunkLaws
  imports Chunks
begin

text \<open>
  What the functions on chunk files compute.  \<open>split_records\<close> is the reference: the records at the
  front of a byte string and the tail after the last of them.  The recovery scan computes exactly
  that split, the strict scan accepts exactly the byte strings with an empty tail whose records
  verify, and none of the functions that only read touches the disk.
\<close>

section \<open>Reading effects\<close>

lemma io_app: "m s = (r, t) \<Longrightarrow> io m s = (map_err Io r, t)"
  by (simp add: io_def)

lemma read_only_io [intro, simp]: "read_only (\<lambda>e. e) m \<Longrightarrow> read_only Io (io m)"
  and outcome_io [simp]: "outcome (io m) d = map_err Io (outcome m d)"
proof -
  show o: "outcome (io m) d = map_err Io (outcome m d)" for d
    by (simp add: outcome_def io_def split: prod.splits)
  assume m: "read_only (\<lambda>e. e) m"
  show "read_only Io (io m)"
    unfolding read_only_def
  proof (intro allI)
    fix s
    obtain r t where mt: "m s = (r, t)" by fastforce
    have "r = outcome m (fs_disk s) \<or> (\<exists>e. r = Inl e)" and "fs_disk t = fs_disk s"
      using read_onlyD [OF m mt] by simp_all
    moreover have "fs_faults s = [] \<longrightarrow> fs_faults t = []" using m mt unfolding read_only_def by (metis snd_conv)
    ultimately show "fs_disk (snd (io m s)) = fs_disk s \<and>
        (fst (io m s) = outcome (io m) (fs_disk s) \<or> (\<exists>e. fst (io m s) = Inl (Io e))) \<and>
        (fs_faults s = [] \<longrightarrow> fs_faults (snd (io m s)) = [])"
      using mt by (cases r) (auto simp: o io_app)
  qed
qed

lemma read_only_case_sum [intro]:
  "(\<And>e. r = Inl e \<Longrightarrow> read_only i (f e)) \<Longrightarrow> (\<And>x. r = Inr x \<Longrightarrow> read_only i (g x)) \<Longrightarrow>
    read_only i (case r of Inl e \<Rightarrow> f e | Inr x \<Rightarrow> g x)"
  by (cases r) auto

lemma read_only_case_prod [intro]:
  "(\<And>x y. p = (x, y) \<Longrightarrow> read_only i (f x y)) \<Longrightarrow> read_only i (case p of (x, y) \<Rightarrow> f x y)"
  by (cases p) auto

lemmas outcome_seqs = outcome_seq [where io = Io]

lemma read_only_read_chunk_header [intro, simp]: "read_only Io (read_chunk_header i)"
  by (auto simp: read_chunk_header_def)

lemma read_only_scan_one [intro, simp]: "read_only Io (scan_one c z i e strict off)"
  unfolding scan_one_def by (intro read_only_seq read_only_if read_only_case_sum read_only_case_prod) auto

lemma read_chunk_header_outcome:
  "outcome (read_chunk_header i) d = Inr h \<longleftrightarrow> prefix (chunk_header_encode h) (data_of d i)"
proof
  assume "outcome (read_chunk_header i) d = Inr h"
  then have "64 \<le> length (data_of d i)" "chunk_header_decode (take 64 (data_of d i)) = Inr h"
    by (auto simp: read_chunk_header_def outcome_seqs ok_iff slice_def split: if_splits)
  then show "prefix (chunk_header_encode h) (data_of d i)"
    using chunk_header_decode_sound [of "take 64 (data_of d i)" h] by (simp add: take_is_prefix flip: min.absorb1)
       (metis take_is_prefix)
next
  assume "prefix (chunk_header_encode h) (data_of d i)"
  then obtain x where "data_of d i = chunk_header_encode h @ x" by (auto simp: prefix_def)
  then show "outcome (read_chunk_header i) d = Inr h"
    using chunk_header_decode_encode [of h "[]"]
    by (simp add: read_chunk_header_def outcome_seqs slice_def)
qed

section \<open>The records at the front of a byte string\<close>

definition fits :: "object_record \<Rightarrow> bool" where
  "fits r \<longleftrightarrow> object_record_wf r \<and> length (record_bytes r) \<le> MAX_RECOVERY_RECORD_BYTES"

definition whole_record :: "bytes \<Rightarrow> (object_record \<times> nat) option" where
  "whole_record bs =
     (case decode_record bs of
        Inl _ \<Rightarrow> None
      | Inr (r, n) \<Rightarrow> if n \<le> MAX_RECOVERY_RECORD_BYTES then Some (r, n) else None)"

lemma fits_payload: "fits r \<Longrightarrow> length (obj_payload r) + 155 < u64_limit"
  using padded_length_bounds(1) [of "length (obj_payload r)"] by (auto simp: fits_def MAX_RECOVERY_RECORD_BYTES_def)

lemma record_bytes_length: "object_record_wf r \<Longrightarrow> 148 \<le> length (record_bytes r)"
  using padded_length_bounds(1) [of "length (obj_payload r)"] by simp

lemma whole_record_iff:
  "whole_record bs = Some (r, n) \<longleftrightarrow> fits r \<and> n = length (record_bytes r) \<and> prefix (record_bytes r) bs"
proof
  assume "whole_record bs = Some (r, n)"
  then have dec: "decode_record bs = Inr (r, n)" and n: "n \<le> MAX_RECOVERY_RECORD_BYTES"
    by (auto simp: whole_record_def split: sum.splits if_splits)
  note s = decode_record_sound [OF dec]
  have "n = length (record_bytes r)" using s by simp
  then show "fits r \<and> n = length (record_bytes r) \<and> prefix (record_bytes r) bs"
    using s n take_is_prefix [of n bs] by (simp add: fits_def)
next
  assume a: "fits r \<and> n = length (record_bytes r) \<and> prefix (record_bytes r) bs"
  then obtain x where "bs = record_bytes r @ x" by (auto simp: prefix_def)
  moreover have "object_record_wf r" using a by (simp add: fits_def)
  ultimately show "whole_record bs = Some (r, n)"
    using a fits_payload [of r] by (simp add: whole_record_def decode_record_bytes fits_def)
qed

function split_records :: "bytes \<Rightarrow> object_record list \<times> bytes" where
  "split_records bs =
     (case whole_record bs of
        None \<Rightarrow> ([], bs)
      | Some (r, n) \<Rightarrow> (case split_records (drop n bs) of (rs, t) \<Rightarrow> (r # rs, t)))"
  by pat_completeness auto
termination
proof (relation "measure length", goal_cases)
  case (2 bs p r n)
  then have "fits r" "n = length (record_bytes r)" "prefix (record_bytes r) bs"
    using whole_record_iff [of bs r n] by simp_all
  moreover have "148 \<le> length (record_bytes r)" using \<open>fits r\<close> record_bytes_length by (simp add: fits_def)
  ultimately show ?case using prefix_length_le [of "record_bytes r" bs] by simp
qed simp

declare split_records.simps [simp del]

abbreviation encodings :: "object_record list \<Rightarrow> bytes" where
  "encodings rs \<equiv> concat (map record_bytes rs)"

lemma split_records_append:
  assumes "list_all fits rs"
  shows "split_records (encodings rs @ t) = (case split_records t of (rs', t') \<Rightarrow> (rs @ rs', t'))"
  using assms
proof (induction rs)
  case (Cons r rs)
  have "whole_record (encodings (r # rs) @ t) = Some (r, length (record_bytes r))"
    using Cons.prems by (simp add: whole_record_iff)
  then show ?case using Cons by (simp add: split_records.simps [of "record_bytes r @ encodings rs @ t"] split: prod.splits)
qed (simp split: prod.splits)

lemma split_records_sound:
  assumes "split_records bs = (rs, t)"
  shows "bs = encodings rs @ t" and "list_all fits rs" and "whole_record t = None"
proof -
  have "bs = encodings rs @ t \<and> list_all fits rs \<and> whole_record t = None"
    using assms
  proof (induction bs arbitrary: rs rule: split_records.induct)
    case (1 bs)
    show ?case
    proof (cases "whole_record bs")
      case None
      then show ?thesis using 1(2) by (auto simp: split_records.simps [of bs])
    next
      case (Some p)
      obtain r n where p: "p = (r, n)" by fastforce
      obtain rs' t' where sp: "split_records (drop n bs) = (rs', t')" by fastforce
      then have rs: "rs = r # rs'" "t' = t" using 1(2) Some p by (simp_all add: split_records.simps [of bs])
      have w: "fits r" "n = length (record_bytes r)" "prefix (record_bytes r) bs"
        using Some p whole_record_iff [of bs r n] by simp_all
      have "drop n bs = encodings rs' @ t \<and> list_all fits rs' \<and> whole_record t = None"
        using 1(1) [OF Some p [symmetric]] sp rs(2) by simp
      then show ?thesis using w rs(1) by (auto simp: prefix_def)
    qed
  qed
  then show "bs = encodings rs @ t" and "list_all fits rs" and "whole_record t = None" by simp_all
qed

lemma split_records_unique:
  assumes "list_all fits rs" and "whole_record t = None"
  shows "split_records (encodings rs @ t) = (rs, t)"
  using split_records_append [OF assms(1), of t] assms(2) by (simp add: split_records.simps [of t])

lemma whole_record_Nil [simp]: "whole_record [] = None"
  by (simp add: whole_record_def decode_record_def decode_record_metadata_def)

section \<open>The scans\<close>

lemma whole_record_by_parts:
  assumes "whole_record bs = Some (r, n)"
  shows "128 \<le> length bs" and "encoded_record_len_from_header (take 128 bs) = Inr n" and "n \<le> length bs"
    and "n \<le> MAX_RECOVERY_RECORD_BYTES" and "decode_record (take n bs) = Inr (r, n)"
proof -
  have w: "fits r" "n = length (record_bytes r)" "prefix (record_bytes r) bs"
    using assms whole_record_iff by blast+
  then obtain x where bs: "bs = record_bytes r @ x" by (auto simp: prefix_def)
  have rw: "object_record_wf r" using w(1) by (simp add: fits_def)
  note len = record_bytes_length [OF rw]
  show "128 \<le> length bs" "n \<le> length bs" using bs w(2) len by simp_all
  show "n \<le> MAX_RECOVERY_RECORD_BYTES" using w(1,2) by (auto simp: fits_def)
  have "decode_record (record_bytes r @ []) = Inr (r, padded_length (length (obj_payload r)))"
    by (rule decode_record_bytes [OF rw fits_payload [OF w(1)]])
  then show "decode_record (take n bs) = Inr (r, n)" using bs w(2) rw by simp
  have "take 128 bs = record_header r"
    using rw by (simp add: bs record_bytes_def)
  moreover have "decode_record_metadata (record_header r @ []) = Inr (record_meta r)"
    unfolding record_header_def by (rule decode_record_metadata_header) (simp add: rw)
  moreover have "unat (md_stored_length (record_meta r)) = length (obj_payload r)"
    using fits_payload [OF w(1)] by (simp add: record_meta_def unat_u64_of_nat)
  ultimately show "encoded_record_len_from_header (take 128 bs) = Inr n"
    using encoded_record_len_from_header_eq [of "record_header r" "record_meta r"] fits_payload [OF w(1)] w(2) rw
    by simp
qed

lemma whole_record_from_parts:
  assumes "n \<le> MAX_RECOVERY_RECORD_BYTES" and "decode_record (take n bs) = Inr (r, n)"
  shows "whole_record bs = Some (r, n)"
proof -
  note s = decode_record_sound [OF assms(2)]
  have "n = length (record_bytes r)" using s by simp
  moreover have "prefix (record_bytes r) bs"
    using s(2,3) take_is_prefix [of n bs] by (simp add: min_def split: if_splits)
  ultimately show ?thesis using s(1) assms(1) by (simp add: whole_record_iff fits_def)
qed

lemma scan_one_outcome:
  assumes "off \<le> e" and "unat e \<le> length (data_of d i)"
  defines "rest \<equiv> drop (unat off) (take (unat e) (data_of d i))"
  shows "whole_record rest = None \<Longrightarrow> \<not> strict \<Longrightarrow> outcome (scan_one c z i e strict off) d = Inr None"
    and "whole_record rest = None \<Longrightarrow> strict \<Longrightarrow> \<exists>err. outcome (scan_one c z i e strict off) d = Inl err"
    and "whole_record rest = Some (r, n) \<Longrightarrow> outcome (scan_one c z i e strict off) d =
      and_then (if strict then map_err Codec (verify_object_record c z r) else Inr ())
        (\<lambda>_. Inr (Some (word_of_nat n, r, record_bytes r)))"
proof -
  have le: "unat off \<le> unat e" using assms(1) by (simp add: word_le_nat_alt)
  have rem: "checked_sub e off = Some (e - off)" "unat (e - off) = length rest"
    using assms(1,2) le by (simp_all add: checked_sub_def unat_sub rest_def)
  have short: "e - off < 128 \<longleftrightarrow> length rest < 128" by (simp add: word_less_nat_alt rem(2))
  have rd: "slice (unat off) k (data_of d i) = take k rest" if "k \<le> length rest" for k
  proof -
    have "k + unat off \<le> unat e" using that le assms(2) by (simp add: rest_def)
    then show ?thesis by (simp add: rest_def slice_def take_drop add.commute)
  qed
  have fit: "unat off + k \<le> length (data_of d i)" if "k \<le> length rest" for k
    using that le assms(2) by (simp add: rest_def)
  have limit: "k \<le> MAX_RECOVERY_RECORD_BYTES \<Longrightarrow> k < u64_limit" for k by (simp add: MAX_RECOVERY_RECORD_BYTES_def)
  have over: "e - off < word_of_nat k \<longleftrightarrow> length rest < k" if "k \<le> MAX_RECOVERY_RECORD_BYTES" for k
    using limit [OF that] by (simp add: word_less_nat_alt rem(2) unat_u64_of_nat)
  note simps = scan_one_def outcome_seqs rem(1) short rd fit over limit try_u64_def
  have none: "outcome (scan_one c z i e strict off) d \<in> (if strict then range Inl else {Inr None})"
    if w: "whole_record rest = None" for strict
  proof (cases "length rest < 128")
    case True
    then show ?thesis by (simp add: simps)
  next
    case long: False
    show ?thesis
    proof (cases "encoded_record_len_from_header (take 128 rest)")
      case (Inl err)
      then show ?thesis using long by (simp add: simps)
    next
      case (Inr k)
      show ?thesis
      proof (cases "MAX_RECOVERY_RECORD_BYTES < k \<or> length rest < k")
        case True
        then show ?thesis using long Inr by (auto simp: simps)
      next
        case k: False
        have "decode_record (take k rest) \<noteq> Inr (r', k)" for r'
          using w k whole_record_from_parts [of k rest r'] by auto
        then show ?thesis using long Inr k
          by (cases "decode_record (take k rest)") (auto simp: simps not_less)
      qed
    qed
  qed
  show "whole_record rest = None \<Longrightarrow> \<not> strict \<Longrightarrow> outcome (scan_one c z i e strict off) d = Inr None"
    using none [of False] by simp
  show "whole_record rest = None \<Longrightarrow> strict \<Longrightarrow> \<exists>err. outcome (scan_one c z i e strict off) d = Inl err"
    using none [of True] by auto
  assume w: "whole_record rest = Some (r, n)"
  note parts = whole_record_by_parts [OF w]
  have "take n rest = record_bytes r"
    using w decode_record_sound(2) [OF parts(5)] by simp
  then show "outcome (scan_one c z i e strict off) d =
      and_then (if strict then map_err Codec (verify_object_record c z r) else Inr ())
        (\<lambda>_. Inr (Some (word_of_nat n, r, record_bytes r)))"
    using parts by (auto simp: simps not_less)
qed

text \<open>What a visitor makes of consecutive records.\<close>

fun visit_records :: "'v record_visitor \<Rightarrow> u64 \<Rightarrow> object_record list \<Rightarrow> 'v \<Rightarrow> store_error + 'v" where
  "visit_records visitor off [] v = Inr v"
| "visit_records visitor off (r # rs) v =
     and_then (visitor off r (word_of_nat (length (record_bytes r))) v)
       (visit_records visitor (off + word_of_nat (length (record_bytes r))) rs)"

lemma visit_records_trivial [simp]: "visit_records (\<lambda>_ _ _ v. Inr v) off rs v = Inr v"
  by (induction rs arbitrary: off) simp_all

text \<open>What the loop does with a record it found.\<close>

definition advance :: "'v record_visitor \<Rightarrow> u64 \<Rightarrow> u64 \<Rightarrow> 'v \<Rightarrow> u64 \<Rightarrow> object_record \<Rightarrow> store_error + u64 \<times> u64 \<times> 'v" where
  "advance visitor off n v k r =
     and_then (visitor off r k v) (\<lambda>v'.
     and_then (ok_or (checked_add off k) OffsetOverflow) (\<lambda>off'.
     and_then (ok_or (checked_add n 1) OffsetOverflow) (\<lambda>n'. Inr (off', n', v'))))"

lemma scan_loop_cases:
  "\<not> off < e \<Longrightarrow> scan_loop c z i e strict visitor off n crc v s =
     (Inr (\<lparr>scn_records = n, scn_end = off, scn_checksum = crc\<rparr>, v), s)"
  "off < e \<Longrightarrow> scan_one c z i e strict off s = (Inl err, t) \<Longrightarrow>
     scan_loop c z i e strict visitor off n crc v s = (Inl err, t)"
  "off < e \<Longrightarrow> scan_one c z i e strict off s = (Inr None, t) \<Longrightarrow>
     scan_loop c z i e strict visitor off n crc v s =
       (Inr (\<lparr>scn_records = n, scn_end = off, scn_checksum = crc\<rparr>, v), t)"
  "off < e \<Longrightarrow> scan_one c z i e strict off s = (Inr (Some (k, r, enc)), t) \<Longrightarrow>
     scan_loop c z i e strict visitor off n crc v s =
       (case advance visitor off n v k r of
          Inl err \<Rightarrow> (Inl err, t)
        | Inr (off', n', v') \<Rightarrow> scan_loop c z i e strict visitor off' n' (crc32c_update crc enc) v' t)"
  by (simp_all add: scan_loop.simps [of c z i e strict visitor off n crc v s] advance_def split: sum.splits option.splits)

lemma scan_loop_quiet:
  "fs_disk (snd (scan_loop c z i e strict visitor off n crc v s)) = fs_disk s \<and>
    (fst (scan_loop c z i e strict visitor off n crc v s)
        = fst (scan_loop c z i e strict visitor off n crc v (healthy (fs_disk s)))
      \<or> (\<exists>err. fst (scan_loop c z i e strict visitor off n crc v s) = Inl (Io err))) \<and>
    (fs_faults s = [] \<longrightarrow> fs_faults (snd (scan_loop c z i e strict visitor off n crc v s)) = [])"
proof (induction c z i e strict visitor off n crc v s rule: scan_loop.induct)
  case (1 c z fl e strict visitor off n crc v s)
  let ?one = "scan_one c z fl e strict off"
  obtain r t where st: "?one s = (r, t)" by fastforce
  note D = read_onlyD [OF read_only_scan_one st]
  have quiet: "fs_faults s = [] \<Longrightarrow> fs_faults t = []"
    using read_only_scan_one [of c z fl e strict off] st unfolding read_only_def by (metis snd_conv)
  note H = read_only_healthy [OF read_only_scan_one, of c z fl e strict off "fs_disk s"]
  show ?case
  proof (cases "off < e")
    case False
    then show ?thesis by (simp add: scan_loop_cases)
  next
    case True
    consider (err) err where "r = Inl err" | (none) "r = Inr None" | (some) k rc enc where "r = Inr (Some (k, rc, enc))"
      by (metis old.sum.exhaust option.exhaust prod.exhaust)
    then show ?thesis
    proof cases
      case err
      then have "outcome ?one (fs_disk s) = Inl err \<or> (\<exists>err'. err = Io err')" using D(2) by auto
      moreover have "scan_loop c z fl e strict visitor off n crc v s = (Inl err, t)"
        using scan_loop_cases(2) [OF True, of c z fl strict s err t visitor n crc v] st err by simp
      moreover have "scan_loop c z fl e strict visitor off n crc v (healthy (fs_disk s)) = (Inl err, healthy (fs_disk s))"
        if "outcome ?one (fs_disk s) = Inl err"
        using scan_loop_cases(2) [OF True, of c z fl strict "healthy (fs_disk s)" err "healthy (fs_disk s)" visitor n crc v] H that by simp
      ultimately show ?thesis using D(1) quiet by auto
    next
      case none
      then have H': "?one (healthy (fs_disk s)) = (Inr None, healthy (fs_disk s))" using H D(3) by simp
      have S: "?one s = (Inr None, t)" using st none by simp
      show ?thesis
        using scan_loop_cases(3) [OF True H', of visitor n crc v] scan_loop_cases(3) [OF True S, of visitor n crc v] D(1) quiet by simp
    next
      case some
      then have H': "?one (healthy (fs_disk s)) = (Inr (Some (k, rc, enc)), healthy (fs_disk s))"
        using H D(3) by simp
      have S: "?one s = (Inr (Some (k, rc, enc)), t)" using st some by simp
      show ?thesis
      proof (cases "advance visitor off n v k rc")
        case (Inl err)
        then show ?thesis using scan_loop_cases(4) [OF True S, of visitor n crc v] scan_loop_cases(4) [OF True H', of visitor n crc v] D(1) quiet by simp
      next
        case (Inr q)
        obtain off' n' v' where q: "q = (off', n', v')" by (cases q) auto
        then have "visitor off rc k v = Inr v'" "checked_add off k = Some off'" "checked_add n 1 = Some n'"
          using Inr by (auto simp: advance_def ok_iff)
        note IH = 1(1) [OF _ st [symmetric] some refl refl refl this]
        show ?thesis
          using scan_loop_cases(4) [OF True S, of visitor n crc v] scan_loop_cases(4) [OF True H', of visitor n crc v] D(1) quiet IH Inr q True by simp
      qed
    qed
  qed
qed

lemma scan_loop_read_only [intro, simp]: "read_only Io (scan_loop c z i e strict visitor off n crc v)"
  using scan_loop_quiet [of c z i e strict visitor off n crc v] by (simp add: read_only_def outcome_def)

text \<open>The loop over a run of records.\<close>

lemma checked_add_of_nat:
  "unat a + k < u64_limit \<Longrightarrow> checked_add a (word_of_nat k) = Some (a + word_of_nat k)"
  "unat a + k < u64_limit \<Longrightarrow> unat (a + word_of_nat k) = unat a + k"
  by (simp_all add: checked_add_def unat_u64_of_nat unat_word_ariths)

lemma scan_loop_records:
  assumes "list_all fits rs" and "strict \<Longrightarrow> list_all (\<lambda>r. verify_object_record c z r = Inr ()) rs"
    and "off \<le> e" and "unat e \<le> length (data_of d i)"
    and "drop (unat off) (take (unat e) (data_of d i)) = encodings rs @ t"
    and "visit_records visitor off rs v = Inr v'" and "unat n + length rs < u64_limit"
  shows "scan_loop c z i e strict visitor off n crc v (healthy d) =
    scan_loop c z i e strict visitor (off + word_of_nat (length (encodings rs))) (n + word_of_nat (length rs))
      (crc32c_update crc (encodings rs)) v' (healthy d)"
  using assms
proof (induction rs arbitrary: off n crc v)
  case (Cons r rs)
  let ?rest = "drop (unat off) (take (unat e) (data_of d i))" and ?k = "length (record_bytes r)"
  have r: "fits r" "object_record_wf r" using Cons.prems(1) by (auto simp: fits_def)
  have w: "whole_record ?rest = Some (r, ?k)" using r(1) Cons.prems(5) by (simp add: whole_record_iff)
  have k: "148 \<le> ?k" using record_bytes_length [OF r(2)] .
  have off_k: "unat off + ?k \<le> unat e"
  proof -
    have "length ?rest = unat e - unat off" using Cons.prems(4) by simp
    moreover have "?k \<le> length ?rest" using Cons.prems(5) by simp
    moreover have "unat off \<le> unat e" using Cons.prems(3) by (simp add: word_le_nat_alt)
    ultimately show ?thesis by linarith
  qed
  then have lim: "unat off + ?k < u64_limit" using unat_less_u64_limit [of e] by linarith
  have lt: "off < e" using off_k k by (simp add: word_less_nat_alt)
  have ver: "strict \<Longrightarrow> verify_object_record c z r = Inr ()" using Cons.prems(2) by simp
  have one: "scan_one c z i e strict off (healthy d) = (Inr (Some (word_of_nat ?k, r, record_bytes r)), healthy d)"
    using read_only_healthy [OF read_only_scan_one, of c z i e strict off d] scan_one_outcome(3) [OF Cons.prems(3,4) w, of c z strict] ver
    by simp
  obtain v1 where v1: "visitor off r (word_of_nat ?k) v = Inr v1"
      "visit_records visitor (off + word_of_nat ?k) rs v1 = Inr v'"
    using Cons.prems(6) by (auto simp: ok_iff)
  have n1: "unat n + 1 < u64_limit" using Cons.prems(7) by simp
  have adv: "advance visitor off n v (word_of_nat ?k) r = Inr (off + word_of_nat ?k, n + 1, v1)"
    using v1(1) checked_add_of_nat(1) [OF lim] checked_add_of_nat(1) [OF n1] by (simp add: advance_def)
  have "scan_loop c z i e strict visitor off n crc v (healthy d) =
      scan_loop c z i e strict visitor (off + word_of_nat ?k) (n + 1) (crc32c_update crc (record_bytes r)) v1 (healthy d)"
    using scan_loop_cases(4) [OF lt one, of visitor n crc v] adv by simp
  also have "\<dots> = scan_loop c z i e strict visitor (off + word_of_nat ?k + word_of_nat (length (encodings rs)))
      (n + 1 + word_of_nat (length rs)) (crc32c_update (crc32c_update crc (record_bytes r)) (encodings rs)) v' (healthy d)"
  proof (rule Cons.IH)
    show "list_all fits rs" "strict \<Longrightarrow> list_all (\<lambda>r. verify_object_record c z r = Inr ()) rs"
      using Cons.prems(1,2) by simp_all
    show "off + word_of_nat ?k \<le> e" using off_k checked_add_of_nat(2) [OF lim] by (simp add: word_le_nat_alt)
    have "drop (unat (off + word_of_nat ?k)) (take (unat e) (data_of d i)) = drop ?k ?rest"
      using checked_add_of_nat(2) [OF lim] by (simp add: add.commute)
    then show "drop (unat (off + word_of_nat ?k)) (take (unat e) (data_of d i)) = encodings rs @ t"
      using Cons.prems(5) by simp
    show "unat (n + 1) + length rs < u64_limit"
      using Cons.prems(7) checked_add_of_nat(2) [OF n1] by simp
  qed (use Cons.prems(4) v1(2) in simp_all)
  finally show ?case by (simp add: algebra_simps)
qed simp

lemma scan_loop_end:
  "scan_loop c z i e strict visitor e n crc v s = (Inr (\<lparr>scn_records = n, scn_end = e, scn_checksum = crc\<rparr>, v), s)"
  by (simp add: scan_loop_cases)

lemma scan_loop_stops:
  assumes "off \<le> e" and "unat e \<le> length (data_of d i)"
    and "whole_record (drop (unat off) (take (unat e) (data_of d i))) = None"
  shows "scan_loop c z i e False visitor off n crc v (healthy d) =
    (Inr (\<lparr>scn_records = n, scn_end = off, scn_checksum = crc\<rparr>, v), healthy d)"
proof (cases "off < e")
  case True
  have "scan_one c z i e False off (healthy d) = (Inr None, healthy d)"
    using read_only_healthy [OF read_only_scan_one, of c z i e False off d] scan_one_outcome(1) [OF assms(1,2,3), of False]
    by simp
  then show ?thesis by (rule scan_loop_cases(3) [OF True])
qed (simp add: scan_loop_cases)

lemma scan_loop_strict_sound:
  assumes "scan_loop c z i e True visitor off n crc v (healthy d) = (Inr (scan, v'), s')"
    and "off \<le> e" and "unat e \<le> length (data_of d i)"
  shows "\<exists>rs. drop (unat off) (take (unat e) (data_of d i)) = encodings rs \<and> list_all fits rs \<and>
    list_all (\<lambda>r. verify_object_record c z r = Inr ()) rs \<and> visit_records visitor off rs v = Inr v' \<and>
    scan = \<lparr>scn_records = n + word_of_nat (length rs), scn_end = e, scn_checksum = crc32c_update crc (encodings rs)\<rparr>"
  using assms
proof (induction "unat e - unat off" arbitrary: off n crc v rule: less_induct)
  case less
  let ?rest = "drop (unat off) (take (unat e) (data_of d i))"
  note H = read_only_healthy [OF read_only_scan_one, of c z i e True off d]
  show ?case
  proof (cases "off < e")
    case False
    have "scan = \<lparr>scn_records = n, scn_end = off, scn_checksum = crc\<rparr> \<and> v' = v"
      using less.prems(1) unfolding scan_loop_cases(1) [OF False] by simp
    moreover have "off = e" using False less.prems(2) by (metis order.not_eq_order_implies_strict)
    ultimately show ?thesis by (intro exI [of _ "[]"]) simp
  next
    case True
    show ?thesis
    proof (cases "whole_record ?rest")
      case None
      obtain err where "outcome (scan_one c z i e True off) d = Inl err"
        using scan_one_outcome(2) [OF less.prems(2,3) None TrueI] by (rule exE)
      then have "scan_one c z i e True off (healthy d) = (Inl err, healthy d)" using H by simp
      from less.prems(1) [unfolded scan_loop_cases(2) [OF True this]] show ?thesis by simp
    next
      case (Some p)
      obtain r k where p: "p = (r, k)" by fastforce
      have w: "fits r" "k = length (record_bytes r)" "prefix (record_bytes r) ?rest"
        using Some p whole_record_iff [of ?rest r k] by simp_all
      have out: "outcome (scan_one c z i e True off) d =
          and_then (map_err Codec (verify_object_record c z r)) (\<lambda>_. Inr (Some (word_of_nat k, r, record_bytes r)))"
        using scan_one_outcome(3) [OF less.prems(2,3), of r k c z True] Some p by simp
      show ?thesis
      proof (cases "verify_object_record c z r")
        case (Inl err)
        then have "scan_one c z i e True off (healthy d) = (Inl (Codec err), healthy d)" using H out by simp
        from less.prems(1) [unfolded scan_loop_cases(2) [OF True this]] show ?thesis by simp
      next
        case (Inr u)
        then have one: "scan_one c z i e True off (healthy d) = (Inr (Some (word_of_nat k, r, record_bytes r)), healthy d)"
          using H out by simp
        have k: "148 \<le> k" using w(1,2) record_bytes_length by (auto simp: fits_def)
        have "k \<le> length ?rest" using w(2,3) prefix_length_le by blast
        then have lek: "unat off + k \<le> unat e" using less.prems(3) k by simp
        then have lim: "unat off + k < u64_limit" using unat_less_u64_limit [of e] by linarith
        obtain off' n' v1 where adv: "advance visitor off n v (word_of_nat k) r = Inr (off', n', v1)"
          using less.prems(1) unfolding scan_loop_cases(4) [OF True one] by (auto split: sum.splits)
        then have a: "visitor off r (word_of_nat k) v = Inr v1" "off' = off + word_of_nat k" "n' = n + 1"
          by (auto simp: advance_def ok_iff)
        have off': "unat off' = unat off + k" using checked_add_of_nat(2) [OF lim] a(2) by simp
        have run: "scan_loop c z i e True visitor off' n' (crc32c_update crc (record_bytes r)) v1 (healthy d) = (Inr (scan, v'), s')"
          using less.prems(1) unfolding scan_loop_cases(4) [OF True one] adv by simp
        have "unat e - unat off' < unat e - unat off" using off' k lek by simp
        moreover have "off' \<le> e" using off' lek by (simp add: word_le_nat_alt)
        ultimately obtain rs where rs: "drop (unat off') (take (unat e) (data_of d i)) = encodings rs" "list_all fits rs"
          "list_all (\<lambda>r. verify_object_record c z r = Inr ()) rs" "visit_records visitor off' rs v1 = Inr v'"
          "scan = \<lparr>scn_records = n' + word_of_nat (length rs), scn_end = e,
            scn_checksum = crc32c_update (crc32c_update crc (record_bytes r)) (encodings rs)\<rparr>"
          using less.hyps [OF _ run _ less.prems(3)] by blast
        have "drop (unat off') (take (unat e) (data_of d i)) = drop k ?rest"
          using off' by (simp add: add.commute)
        moreover obtain zs where zs: "?rest = record_bytes r @ zs" using w(3) by (rule prefixE)
        moreover have "drop k ?rest = zs" unfolding zs using w(2) by simp
        ultimately have "?rest = record_bytes r @ encodings rs" using rs(1) by argo
        then show ?thesis
          using rs w(1,2) Inr a by (intro exI [of _ "r # rs"]) (simp add: algebra_simps)
      qed
    qed
  qed
qed

lemma records_short: "list_all fits rs \<Longrightarrow> length rs \<le> length (encodings rs)"
proof (induction rs)
  case (Cons r rs)
  then show ?case using record_bytes_length [of r] by (auto simp: fits_def)
qed simp

lemma scan_records_read_only [intro, simp]:
  "read_only Io (scan_records_with_visitor c z i e strict visitor v)" "read_only Io (scan_records c z i e strict)"
  by (auto simp: scan_records_with_visitor_def scan_records_def split: prod.splits)

lemma scan_records_recovery:
  assumes "64 \<le> length (data_of d i)" and "length (data_of d i) < file_size_limit"
    and "split_records (drop 64 (data_of d i)) = (rs, t)"
  shows "outcome (scan_records c z i (word_of_nat (length (data_of d i))) False) d =
    Inr \<lparr>scn_records = word_of_nat (length rs), scn_end = word_of_nat (64 + length (encodings rs)),
      scn_checksum = crc32c_update crc32c_new (encodings rs)\<rparr>"
proof -
  let ?n = "length (data_of d i)" and ?visit = "\<lambda>(_::u64) (_::object_record) (_::u64) (v::unit). Inr v :: store_error + unit"
  let ?e = "word_of_nat ?n :: u64" and ?off = "word_of_nat (64 + length (encodings rs)) :: u64"
  note sp = split_records_sound [OF assms(3)]
  have e: "unat ?e = ?n" using assms(2) by (simp add: unat_u64_of_nat)
  have body: "?n = 64 + length (encodings rs) + length t"
    using arg_cong [OF sp(1), of length] assms(1) by simp
  have start: "(64 :: u64) \<le> ?e" using assms(1) e by (simp add: word_le_nat_alt)
  have off: "unat ?off = 64 + length (encodings rs)"
    by (rule unat_u64_of_nat) (use body assms(2) in simp)
  have off_eq: "64 + word_of_nat (length (encodings rs)) = ?off" by simp
  have "scan_loop c z i ?e False ?visit 64 0 crc32c_new () (healthy d) =
      scan_loop c z i ?e False ?visit (64 + word_of_nat (length (encodings rs))) (0 + word_of_nat (length rs))
        (crc32c_update crc32c_new (encodings rs)) () (healthy d)"
  proof (rule scan_loop_records)
    show "drop (unat (64 :: u64)) (take (unat ?e) (data_of d i)) = encodings rs @ t" using sp(1) e by simp
    show "unat (0 :: u64) + length rs < u64_limit" using records_short [OF sp(2)] body assms(2) by simp
  qed (use sp(2) start e in simp_all)
  also have "\<dots> = (Inr (\<lparr>scn_records = 0 + word_of_nat (length rs), scn_end = ?off,
      scn_checksum = crc32c_update crc32c_new (encodings rs)\<rparr>, ()), healthy d)"
    unfolding off_eq
  proof (rule scan_loop_stops)
    show "?off \<le> ?e" using off e body by (simp add: word_le_nat_alt)
    have "drop (length (encodings rs)) (drop 64 (data_of d i)) = t" by (subst sp(1)) simp
    then have "drop (unat ?off) (take (unat ?e) (data_of d i)) = t" unfolding off e by (simp add: add.commute)
    then show "whole_record (drop (unat ?off) (take (unat ?e) (data_of d i))) = None" using sp(3) by simp
  qed (use e in simp)
  finally have "outcome (scan_records_with_visitor c z i ?e False ?visit ()) d =
      Inr (\<lparr>scn_records = word_of_nat (length rs), scn_end = ?off,
        scn_checksum = crc32c_update crc32c_new (encodings rs)\<rparr>, ())"
    using leD [OF start] unfolding outcome_def scan_records_with_visitor_def by simp
  then show ?thesis by (simp add: scan_records_def outcome_seqs)
qed

lemma scan_records_strict:
  assumes "64 \<le> unat e" and "unat e \<le> length (data_of d i)"
  shows "outcome (scan_records_with_visitor c z i e True visitor v) d = Inr (scan, v') \<longleftrightarrow>
    (\<exists>rs. drop 64 (take (unat e) (data_of d i)) = encodings rs \<and> list_all fits rs \<and>
      list_all (\<lambda>r. verify_object_record c z r = Inr ()) rs \<and> visit_records visitor 64 rs v = Inr v' \<and>
      scan = \<lparr>scn_records = word_of_nat (length rs), scn_end = e, scn_checksum = crc32c_update crc32c_new (encodings rs)\<rparr>)"
    (is "?l \<longleftrightarrow> (\<exists>rs. ?r rs)")
proof -
  have start: "(64 :: u64) \<le> e" using assms(1) by (simp add: word_le_nat_alt)
  have run: "outcome (scan_records_with_visitor c z i e True visitor v) d =
      fst (scan_loop c z i e True visitor 64 0 crc32c_new v (healthy d))"
    using leD [OF start] by (simp add: outcome_def scan_records_with_visitor_def)
  show ?thesis
  proof
    assume ?l
    then have "scan_loop c z i e True visitor 64 0 crc32c_new v (healthy d) =
        (Inr (scan, v'), snd (scan_loop c z i e True visitor 64 0 crc32c_new v (healthy d)))"
      using run by (simp add: prod_eq_iff)
    from scan_loop_strict_sound [OF this start assms(2)] show "\<exists>rs. ?r rs" by simp
  next
    assume "\<exists>rs. ?r rs"
    then obtain rs where rs: "?r rs" ..
    have len: "64 + length (encodings rs) = unat e"
    proof -
      have "length (drop 64 (take (unat e) (data_of d i))) = length (encodings rs)" using rs by simp
      then show ?thesis using assms by simp
    qed
    then have e: "64 + word_of_nat (length (encodings rs)) = e"
      using checked_add_of_nat(2) [of 64 "length (encodings rs)"] unat_less_u64_limit [of e] by (simp add: word_unat_eq_iff)
    have "scan_loop c z i e True visitor 64 0 crc32c_new v (healthy d) =
        scan_loop c z i e True visitor (64 + word_of_nat (length (encodings rs))) (0 + word_of_nat (length rs))
          (crc32c_update crc32c_new (encodings rs)) v' (healthy d)"
    proof (rule scan_loop_records)
      show "drop (unat (64 :: u64)) (take (unat e) (data_of d i)) = encodings rs @ []" using rs by simp
      have "length rs \<le> length (encodings rs)" using rs records_short by blast
      then have "length rs < u64_limit" using len unat_less_u64_limit [of e] by linarith
      then show "unat (0 :: u64) + length rs < u64_limit" by simp
    qed (use rs start assms(2) in simp_all)
    then show ?l unfolding run e scan_loop_end using rs by simp
  qed
qed

section \<open>Sealed files\<close>

definition sealed_footer_for :: "object_record list \<Rightarrow> sealed_chunk_footer" where
  "sealed_footer_for rs = \<lparr>sf_record_count = word_of_nat (length rs),
     sf_final_length = word_of_nat (128 + length (encodings rs)), sf_records_crc32c = crc32c (encodings rs)\<rparr>"

definition sealed_image :: "chunk_header \<Rightarrow> object_record list \<Rightarrow> bytes" where
  "sealed_image h rs = chunk_header_encode h @ encodings rs @ sealed_footer_encode (sealed_footer_for rs)"

lemma length_sealed_image [simp]: "length (sealed_image h rs) = 128 + length (encodings rs)"
  by (simp add: sealed_image_def)

lemma verify_sealed_read_only [intro, simp]:
  "read_only Io (verify_sealed_file_with_visitor c z i visitor v)" "read_only Io (verify_sealed_file c z i)"
  unfolding verify_sealed_file_def verify_sealed_file_with_visitor_def
  by (intro read_only_seq read_only_if read_only_case_prod; simp)+

lemma footer_split:
  assumes "prefix h data" and "length h = 64" and "128 \<le> length data"
    and "drop 64 (take (length data - 64) data) = body" and "drop (length data - 64) data = f"
  shows "data = h @ body @ f"
proof -
  have h: "take 64 data = h" using assms(1,2) by (auto simp: prefix_def)
  have "data = take (length data - 64) data @ f" using assms(5) by (metis append_take_drop_id)
  moreover have "take (length data - 64) data = take 64 (take (length data - 64) data) @ body"
    using assms(4) by (metis append_take_drop_id)
  moreover have "take 64 (take (length data - 64) data) = h"
  proof -
    have "min 64 (length data - 64) = 64" using assms(3) by simp
    then show ?thesis using h by simp
  qed
  ultimately show ?thesis by (metis append.assoc)
qed

lemma verify_sealed_file_iff:
  assumes "length (data_of d i) < file_size_limit"
  shows "outcome (verify_sealed_file_with_visitor c z i visitor v) d = Inr (vs, v') \<longleftrightarrow>
    (\<exists>rs. data_of d i = sealed_image (vs_header vs) rs \<and> vs_footer vs = sealed_footer_for rs \<and> list_all fits rs \<and>
      list_all (\<lambda>r. verify_object_record c z r = Inr ()) rs \<and> visit_records visitor 64 rs v = Inr v')"
    (is "?l \<longleftrightarrow> (\<exists>rs. ?r rs)")
proof -
  let ?data = "data_of d i"
  let ?len = "word_of_nat (length ?data) :: u64"
  have len: "unat ?len = length ?data" using assms by (simp add: unat_u64_of_nat)
  have short: "?len < 128 \<longleftrightarrow> length ?data < 128" by (simp add: word_less_nat_alt len)
  have fo: "unat (?len - 64) = length ?data - 64" "checked_sub ?len 64 = Some (?len - 64)" if "128 \<le> length ?data"
    using that len by (simp_all add: checked_sub_def unat_sub word_le_nat_alt)
  note simps = verify_sealed_file_with_visitor_def outcome_seqs checked_add_def short
  show ?thesis
  proof
    assume l: ?l
    have long: "128 \<le> length ?data"
    proof (rule ccontr)
      assume "\<not> 128 \<le> length ?data"
      then show False using l by (simp add: simps ok_iff)
    qed
    note fo = fo [OF long]
    have sl: "slice (length ?data - 64) 64 ?data = drop (length ?data - 64) ?data"
      using long by (simp add: slice_def)
    from l obtain h f scan where p: "outcome (read_chunk_header i) d = Inr h"
        "sealed_footer_decode (drop (length ?data - 64) ?data) = Inr f" "sf_final_length f = ?len"
        "outcome (scan_records_with_visitor c z i (?len - 64) True visitor v) d = Inr (scan, v')"
        "scn_records scan = sf_record_count f" "crc32c_finalize (scn_checksum scan) = sf_records_crc32c f"
        "vs = \<lparr>vs_header = h, vs_footer = f\<rparr>"
      using long by (auto simp: simps ok_iff fo sl split: if_splits)
    have e: "64 \<le> unat (?len - 64)" "unat (?len - 64) \<le> length ?data" using fo long by simp_all
    from p(4) obtain rs where rs: "drop 64 (take (length ?data - 64) ?data) = encodings rs" "list_all fits rs"
        "list_all (\<lambda>r. verify_object_record c z r = Inr ()) rs" "visit_records visitor 64 rs v = Inr v'"
        "scan = \<lparr>scn_records = word_of_nat (length rs), scn_end = ?len - 64,
          scn_checksum = crc32c_update crc32c_new (encodings rs)\<rparr>"
      unfolding scan_records_strict [OF e] fo(1) by blast
    have "drop (length ?data - 64) ?data = sealed_footer_encode f"
      using sealed_footer_decode_sound(1) [OF p(2)] long by simp
    then have img: "?data = chunk_header_encode h @ encodings rs @ sealed_footer_encode f"
      using footer_split [of "chunk_header_encode h" ?data] p(1) rs(1) long by (simp add: read_chunk_header_outcome)
    then have "length ?data = length (chunk_header_encode h @ encodings rs @ sealed_footer_encode f)" by (rule arg_cong)
    then have "length ?data = 128 + length (encodings rs)" by simp
    then have "f = sealed_footer_for rs"
      using p(3,5,6) rs(5) by (cases f) (simp add: sealed_footer_for_def crc32c_def)
    then show "\<exists>rs. ?r rs" using img rs p(7) by (intro exI [of _ rs]) (simp add: sealed_image_def)
  next
    assume "\<exists>rs. ?r rs"
    then obtain rs where r: "?r rs" ..
    have n: "length ?data = 128 + length (encodings rs)" using r by simp
    then have long: "128 \<le> length ?data" by simp
    note fo = fo [OF long]
    have e: "64 \<le> unat (?len - 64)" "unat (?len - 64) \<le> length ?data" using fo long by simp_all
    have h: "outcome (read_chunk_header i) d = Inr (vs_header vs)"
      using r by (simp add: read_chunk_header_outcome sealed_image_def)
    have f: "slice (length ?data - 64) 64 ?data = sealed_footer_encode (vs_footer vs)"
      using r n by (simp add: slice_def sealed_image_def)
    have "sealed_footer_decode (sealed_footer_encode (vs_footer vs) @ []) = Inr (vs_footer vs)"
      by (rule sealed_footer_decode_encode)
    moreover have "drop 64 (take (length ?data - 64) ?data) = encodings rs"
      using r n by (simp add: sealed_image_def)
    then have "outcome (scan_records_with_visitor c z i (?len - 64) True visitor v) d =
        Inr (\<lparr>scn_records = word_of_nat (length rs), scn_end = ?len - 64,
          scn_checksum = crc32c_update crc32c_new (encodings rs)\<rparr>, v')"
      unfolding scan_records_strict [OF e] fo(1) using r by blast
    moreover have "sf_final_length (vs_footer vs) = ?len" "word_of_nat (length rs) = sf_record_count (vs_footer vs)"
        "crc32c_finalize (crc32c_update crc32c_new (encodings rs)) = sf_records_crc32c (vs_footer vs)"
      using r n by (simp_all add: sealed_footer_for_def crc32c_def)
    ultimately show ?l using h f long by (simp add: simps fo)
  qed
qed

lemma sealed_image_file:
  assumes "length (data_of d i) < file_size_limit"
  shows "outcome (verify_sealed_file c z i) d = Inr vs \<longleftrightarrow>
    (\<exists>rs. data_of d i = sealed_image (vs_header vs) rs \<and> vs_footer vs = sealed_footer_for rs \<and> list_all fits rs \<and>
      list_all (\<lambda>r. verify_object_record c z r = Inr ()) rs)"
proof -
  have "outcome (verify_sealed_file c z i) d = Inr vs \<longleftrightarrow>
      outcome (verify_sealed_file_with_visitor c z i (\<lambda>_ _ _ v. Inr v) ()) d = Inr (vs, ())"
    by (auto simp: verify_sealed_file_def outcome_seqs ok_iff)
  then show ?thesis by (simp add: verify_sealed_file_iff [OF assms])
qed

section \<open>Recovery\<close>

lemma contract_io: "contract P m Q (\<lambda>e. E (Io e)) \<Longrightarrow> contract P (io m) Q E"
  unfolding contract_def io_def by (fastforce split: prod.splits sum.splits)

definition recovery_of :: "chunk_header \<Rightarrow> object_record list \<Rightarrow> bytes \<Rightarrow> recovery" where
  "recovery_of h rs t = \<lparr>rec_header = h, rec_valid_records = word_of_nat (length rs),
     rec_retained_bytes = word_of_nat (64 + length (encodings rs)), rec_truncated_bytes = word_of_nat (length t),
     rec_records_crc32c = crc32c_update crc32c_new (encodings rs)\<rparr>"

definition truncated :: "nat \<Rightarrow> object_record list \<Rightarrow> disk \<Rightarrow> disk" where
  "truncated i rs d = truncate_inode i (64 + length (encodings rs)) d"

lemma recover_file_contract:
  assumes data: "data_of d i = chunk_header_encode h @ body" and size: "length (data_of d i) < file_size_limit"
    and split: "split_records body = (rs, t)"
  shows "contract (\<lambda>s. fs_disk s = d) (recover_file c z i)
    (\<lambda>r s. r = recovery_of h rs t \<and> fs_disk s = (if t = [] then d else sync_inode i (truncated i rs d)))
    (\<lambda>e s. (\<exists>io_err. e = Io io_err) \<and> fs_disk s \<in> {d, truncated i rs d})"
proof -
  let ?n = "length (data_of d i)" and ?E = "\<lambda>e s. (\<exists>io_err. e = Io io_err) \<and> fs_disk s \<in> {d, truncated i rs d}"
  let ?scan = "\<lparr>scn_records = word_of_nat (length rs), scn_end = word_of_nat (64 + length (encodings rs)),
      scn_checksum = crc32c_update crc32c_new (encodings rs)\<rparr>"
  note sp = split_records_sound [OF split]
  have n: "?n = 64 + length (encodings rs) + length t" using data sp(1) by simp
  have hdr: "outcome (read_chunk_header i) d = Inr h" using data by (simp add: read_chunk_header_outcome)
  have scan: "outcome (scan_records c z i (word_of_nat ?n) False) d = Inr ?scan"
    by (rule scan_records_recovery) (use data size split in simp_all)
  have kept: "unat (word_of_nat (64 + length (encodings rs)) :: u64) = 64 + length (encodings rs)"
    using n size by (intro unat_u64_of_nat) simp
  have eq: "word_of_nat (64 + length (encodings rs)) = (word_of_nat ?n :: u64) \<longleftrightarrow> t = []"
    using n size kept unat_u64_of_nat [of ?n] by (auto simp: word_unat_eq_iff)
  have lost: "(word_of_nat ?n :: u64) - word_of_nat (64 + length (encodings rs)) = word_of_nat (length t)"
    by (simp add: n)
  have 1: "contract (\<lambda>s. fs_disk s = d) (read_chunk_header i) (\<lambda>x s. x = h \<and> fs_disk s = d) ?E"
    by (rule contract_read_only [where P = "\<lambda>x. x = d" and Q = "\<lambda>x y. x = h \<and> y = d"
        and E = "\<lambda>e y. (\<exists>io_err. e = Io io_err) \<and> y \<in> {d, truncated i rs d}", OF read_only_read_chunk_header])
       (use hdr in auto)
  have 2: "contract (\<lambda>s. fs_disk s = d) (io (file_len i)) (\<lambda>x s. x = word_of_nat ?n \<and> fs_disk s = d) ?E"
    by (rule contract_read_only [where P = "\<lambda>x. x = d" and Q = "\<lambda>x y. x = word_of_nat ?n \<and> y = d"
        and E = "\<lambda>e y. (\<exists>io_err. e = Io io_err) \<and> y \<in> {d, truncated i rs d}", OF read_only_io]) auto
  have 3: "contract (\<lambda>s. fs_disk s = d) (scan_records c z i (word_of_nat ?n) False) (\<lambda>x s. x = ?scan \<and> fs_disk s = d) ?E"
    by (rule contract_read_only [where P = "\<lambda>x. x = d" and Q = "\<lambda>x y. x = ?scan \<and> y = d"
        and E = "\<lambda>e y. (\<exists>io_err. e = Io io_err) \<and> y \<in> {d, truncated i rs d}", OF scan_records_read_only(2)])
       (use scan in auto)
  have 4: "contract (\<lambda>s. fs_disk s = d) (io (set_len i (word_of_nat (64 + length (encodings rs)))))
      (\<lambda>_ s. fs_disk s = truncated i rs d) ?E"
    by (rule contract_io, rule contract_post [OF contract_set_len [where P = "\<lambda>x. x = d"]])
       (use kept n size in \<open>simp_all add: truncated_def\<close>)
  have 5: "contract (\<lambda>s. fs_disk s = truncated i rs d) (io (sync_data i)) (\<lambda>_ s. fs_disk s = sync_inode i (truncated i rs d)) ?E"
    by (rule contract_io, rule contract_post [OF contract_sync_data [where P = "\<lambda>x. x = truncated i rs d"]]) auto
  have 6: "contract (\<lambda>s. fs_disk s = d) (if scn_end ?scan \<noteq> word_of_nat ?n
        then seq_eff (io (set_len i (scn_end ?scan))) (\<lambda>_. io (sync_data i)) else ret ())
      (\<lambda>x s. x = () \<and> fs_disk s = (if t = [] then d else sync_inode i (truncated i rs d))) ?E"
  proof (rule contract_if)
    assume "scn_end ?scan \<noteq> word_of_nat ?n"
    then have t: "t \<noteq> []" using eq by simp
    show "contract (\<lambda>s. fs_disk s = d) (seq_eff (io (set_len i (scn_end ?scan))) (\<lambda>_. io (sync_data i)))
        (\<lambda>x s. x = () \<and> fs_disk s = (if t = [] then d else sync_inode i (truncated i rs d))) ?E"
      unfolding record_scan.simps by (rule contract_seq [OF 4], rule contract_post [OF 5]) (use t in simp_all)
  qed (use eq in \<open>auto intro: contract_ret\<close>)
  show ?thesis
    unfolding recover_file_def
    by (rule contract_seq_at [OF 1], rule contract_seq_at [OF 2], rule contract_seq_at [OF 3], rule contract_seq_at [OF 6],
        rule contract_ret) (use lost in \<open>simp add: recovery_of_def\<close>)
qed

lemma healthy_runs:
  "sync_data i (healthy d) = (Inr (), healthy (sync_inode i d))"
  "unat n < file_size_limit \<Longrightarrow> set_len i n (healthy d) = (Inr (), healthy (truncate_inode i (unat n) d))"
  by (simp_all add: sync_data_def set_len_def fallible_def next_fault_def)

lemma recover_file_healthy:
  assumes data: "data_of d i = chunk_header_encode h @ body" and size: "length (data_of d i) < file_size_limit"
    and split: "split_records body = (rs, t)"
  shows "recover_file c z i (healthy d) =
    (Inr (recovery_of h rs t), healthy (if t = [] then d else sync_inode i (truncated i rs d)))"
proof -
  let ?n = "length (data_of d i)"
  let ?scan = "\<lparr>scn_records = word_of_nat (length rs), scn_end = word_of_nat (64 + length (encodings rs)),
      scn_checksum = crc32c_update crc32c_new (encodings rs)\<rparr>"
  note sp = split_records_sound [OF split]
  have n: "?n = 64 + length (encodings rs) + length t" using data sp(1) by simp
  have kept: "unat (word_of_nat (64 + length (encodings rs)) :: u64) = 64 + length (encodings rs)"
    using n size by (intro unat_u64_of_nat) simp
  have eq: "word_of_nat (64 + length (encodings rs)) = (word_of_nat ?n :: u64) \<longleftrightarrow> t = []"
    using n size kept unat_u64_of_nat [of ?n] by (auto simp: word_unat_eq_iff)
  have lost: "(word_of_nat ?n :: u64) - word_of_nat (64 + length (encodings rs)) = word_of_nat (length t)"
    by (simp add: n)
  have "read_chunk_header i (healthy d) = (Inr h, healthy d)"
    using data read_only_healthy [OF read_only_read_chunk_header] by (metis prefixI read_chunk_header_outcome)
  moreover have "io (file_len i) (healthy d) = (Inr (word_of_nat ?n), healthy d)"
    using read_only_healthy [OF read_only_io [OF read_only_file_ops(2)]] by simp
  moreover have "scan_records c z i (word_of_nat ?n) False (healthy d) = (Inr ?scan, healthy d)"
    by (subst read_only_healthy [OF scan_records_read_only(2)], subst scan_records_recovery [where rs = rs and t = t])
       (use data size split in simp_all)
  moreover have "io (set_len i (word_of_nat (64 + length (encodings rs)))) (healthy d) = (Inr (), healthy (truncated i rs d))"
    using healthy_runs(2) [of "word_of_nat (64 + length (encodings rs))" i d] kept n size by (simp add: io_def truncated_def)
  moreover have "io (sync_data i) (healthy (truncated i rs d)) = (Inr (), healthy (sync_inode i (truncated i rs d)))"
    by (simp add: io_def healthy_runs)
  ultimately show ?thesis
    using eq lost by (auto simp: recover_file_def recovery_of_def seq_eff_def ret_def simp del: of_nat_add)
qed

lemma truncated_data:
  assumes "data_of d i = chunk_header_encode h @ body" and "split_records body = (rs, t)" and "i < length (dk_inodes d)"
  shows "data_of (truncated i rs d) i = chunk_header_encode h @ encodings rs"
    and "stable_of (truncated i rs d) i = take (64 + length (encodings rs)) (stable_of d i)"
  using assms split_records_sound(1) [OF assms(2)] by (simp_all add: truncated_def)

end
