(* ===== verification/ChunkWriter.thy ===== *)
theory ChunkWriter
  imports Chunks Catalog
begin

text \<open>
  The chunk writer and the reconciliation of a chunk after a crash
  (\<open>crates/reflink-forest-store/src/lib.rs\<close>).  A function works on the file system and the catalog,
  a pair; a method that takes \<open>&mut self\<close> works on the writer and the file system as well, and keeps
  what it did to either when it fails.
\<close>

section \<open>Effects on a part of the state\<close>

definition on_fst :: "('s, 'e, 'a) eff \<Rightarrow> ('s \<times> 't, 'e, 'a) eff" where
  "on_fst m = (\<lambda>(s, t). case m s of (r, s') \<Rightarrow> (r, (s', t)))"

definition on_snd :: "('t, 'e, 'a) eff \<Rightarrow> ('s \<times> 't, 'e, 'a) eff" where
  "on_snd m = (\<lambda>(s, t). case m t of (r, t') \<Rightarrow> (r, (s, t')))"

definition ask :: "('s \<Rightarrow> 'a) \<Rightarrow> ('s, 'e, 'a) eff" where
  "ask f = (\<lambda>s. (Inr (f s), s))"

text \<open>\<open>?\<close> on a catalog result.\<close>

definition cat_io :: "('c, catalog_error, 'a) eff \<Rightarrow> ('c, store_error, 'a) eff" where
  "cat_io m = (\<lambda>c. case m c of (r, c') \<Rightarrow> (map_err Catalog r, c'))"

text \<open>A panic ends a call like an error, but not as a value of the error type.\<close>

datatype 'e failure = Fails 'e | Panics string

definition fails :: "('s, 'e, 'a) eff \<Rightarrow> ('s, 'e failure, 'a) eff" where
  "fails m = (\<lambda>s. case m s of (r, t) \<Rightarrow> (map_err Fails r, t))"

section \<open>The writer\<close>

record chunk_writer =
  cw_path :: path
  cw_file :: nat
  cw_header :: chunk_header
  cw_next_offset :: u64
  cw_record_count :: u64
  cw_records_crc32c :: crc32c_state

text \<open>The parent of a chunk; a path without one is an I/O error.\<close>

definition chunk_parent :: "path \<Rightarrow> store_error + path" where
  "chunk_parent p = ok_or (path_parent p) (Io (IoError InvalidInput ''chunk has no parent''))"

definition cw_create :: "path \<Rightarrow> chunk_header \<Rightarrow> (fs, store_error, chunk_writer) eff" where
  "cw_create p header =
     (if \<not> is_open_path p then raise NotAnOpenChunk else
      seq_eff (lift_result (chunk_parent p)) (\<lambda>parent.
      seq_eff (io (create_new p)) (\<lambda>file.
      seq_eff (io (write_all_at file 0 (chunk_header_encode header))) (\<lambda>_.
      seq_eff (io (sync_data file)) (\<lambda>_.
      seq_eff (io (sync_dir parent)) (\<lambda>_.
      ret \<lparr>cw_path = p, cw_file = file, cw_header = header, cw_next_offset = word_of_nat CHUNK_HEADER_LEN,
           cw_record_count = 0, cw_records_crc32c = crc32c_new\<rparr>))))))"

definition cw_open_recovered :: "'h crypto \<Rightarrow> zstd \<Rightarrow> path \<Rightarrow> (fs, store_error, chunk_writer \<times> recovery) eff" where
  "cw_open_recovered c z p =
     (if \<not> is_open_path p then raise NotAnOpenChunk else
      seq_eff (io (open_file p)) (\<lambda>file.
      seq_eff (attempt (verify_sealed_file c z file)) (\<lambda>sealed.
      if is_ok sealed then raise OpenChunkContainsSealedFooter else
      seq_eff (recover_file c z file) (\<lambda>recovery.
      seq_eff (io (file_len file)) (\<lambda>next_offset.
      ret (\<lparr>cw_path = p, cw_file = file, cw_header = rec_header recovery, cw_next_offset = next_offset,
            cw_record_count = rec_valid_records recovery, cw_records_crc32c = rec_records_crc32c recovery\<rparr>,
           recovery))))))"

definition ensure_catalog_writable :: "'c catalog_ops \<Rightarrow> 'c \<Rightarrow> chunk_header \<Rightarrow> store_error + unit" where
  "ensure_catalog_writable ops catalog header =
     (case cat_chunk ops catalog (ch_generation header) (ch_chunk_id header) of
        Some metadata \<Rightarrow>
          if cm_state metadata \<noteq> Open
          then Inl (CatalogChunkStateConflict (ch_generation header) (ch_chunk_id header) (cm_state metadata))
          else Inr ()
      | None \<Rightarrow> Inr ())"

definition cw_publish_open :: "'c catalog_ops \<Rightarrow> chunk_writer \<Rightarrow> ('c, store_error, unit) eff" where
  "cw_publish_open ops w =
     seq_eff (ask (\<lambda>catalog. ensure_catalog_writable ops catalog (cw_header w))) (\<lambda>writable.
     seq_eff (lift_result writable) (\<lambda>_.
     cat_io (cat_apply ops (put_chunk (ch_generation (cw_header w)) (ch_chunk_id (cw_header w))
       \<lparr>cm_state = Open, cm_size = cw_next_offset w, cm_record_count = cw_record_count w\<rparr> batch_new))))"

definition cw_create_and_publish ::
  "'c catalog_ops \<Rightarrow> path \<Rightarrow> chunk_header \<Rightarrow> (fs \<times> 'c, store_error, chunk_writer) eff" where
  "cw_create_and_publish ops p header =
     seq_eff (on_fst (cw_create p header)) (\<lambda>writer.
     seq_eff (on_snd (cw_publish_open ops writer)) (\<lambda>_.
     ret writer))"

definition cw_append :: "'h crypto \<Rightarrow> zstd \<Rightarrow> object_record \<Rightarrow> (chunk_writer \<times> fs, store_error, record_location) eff" where
  "cw_append c z record =
     seq_eff (lift_result (map_err Codec (verify_object_record c z record))) (\<lambda>_.
     seq_eff (lift_result (map_err Format (encode_record record))) (\<lambda>encoded.
     seq_eff (ask fst) (\<lambda>w.
     seq_eff (on_snd (io (write_all_at (cw_file w) (cw_next_offset w) encoded))) (\<lambda>_.
     seq_eff (lift_result (ok_or (try_u64 (length encoded)) OffsetOverflow)) (\<lambda>record_length.
     seq_eff (lift_result (ok_or (checked_add (cw_next_offset w) record_length) OffsetOverflow)) (\<lambda>next_offset.
     seq_eff (on_fst (\<lambda>w. (Inr (), w\<lparr>cw_next_offset := next_offset\<rparr>))) (\<lambda>_.
     seq_eff (lift_result (ok_or (checked_add (cw_record_count w) 1) OffsetOverflow)) (\<lambda>record_count.
     seq_eff (on_fst (\<lambda>w. (Inr (), w\<lparr>cw_record_count := record_count,
       cw_records_crc32c := crc32c_update (cw_records_crc32c w) encoded\<rparr>))) (\<lambda>_.
     ret \<lparr>rl_offset = cw_next_offset w, rl_record_length = record_length\<rparr>)))))))))"

definition cw_sync_data :: "(chunk_writer \<times> fs, store_error, unit) eff" where
  "cw_sync_data = seq_eff (ask fst) (\<lambda>w. on_snd (io (sync_data (cw_file w))))"

text \<open>The location under which a record is published.\<close>

definition location_of :: "u32 \<Rightarrow> u64 \<Rightarrow> record_location \<Rightarrow> u64 \<Rightarrow> object_record \<Rightarrow> object_location" where
  "location_of generation chunk_id location stored_length record =
     \<lparr>loc_generation = generation, loc_chunk_id = chunk_id, loc_offset = rl_offset location,
      loc_record_length = rl_record_length location, loc_stored_length = stored_length,
      loc_raw_length = obj_raw_length record, loc_kind = obj_kind record, loc_codec = obj_codec record,
      loc_flags = obj_flags record, loc_payload_crc32c = crc32c (obj_payload record)\<rparr>"

definition cw_append_and_index ::
  "'h crypto \<Rightarrow> zstd \<Rightarrow> 'c catalog_ops \<Rightarrow> repo_id \<Rightarrow> u32 \<Rightarrow> u64 \<Rightarrow> object_record
    \<Rightarrow> ((chunk_writer \<times> fs) \<times> 'c, store_error, record_location option) eff" where
  "cw_append_and_index c z ops repo generation chunk_id record =
     seq_eff (ask (\<lambda>s. cw_header (fst (fst s)))) (\<lambda>header.
     if ch_generation header \<noteq> generation then raise (LocationMismatch ''generation'') else
     if ch_chunk_id header \<noteq> chunk_id then raise (LocationMismatch ''chunk_id'') else
     seq_eff (ask snd) (\<lambda>catalog.
     seq_eff (lift_result (ensure_catalog_writable ops catalog header)) (\<lambda>_.
     if cat_object_location ops catalog (obj_content_id record) = None then
       seq_eff (on_fst (cw_append c z record)) (\<lambda>location.
       seq_eff (on_fst cw_sync_data) (\<lambda>_.
       seq_eff (lift_result (ok_or (try_u64 (length (obj_payload record))) OffsetOverflow)) (\<lambda>stored_length.
       seq_eff (ask (\<lambda>s. fst (fst s))) (\<lambda>w.
       seq_eff (on_snd (cat_io (cat_apply ops
         (put_chunk generation chunk_id
           \<lparr>cm_state = Open, cm_size = cw_next_offset w, cm_record_count = cw_record_count w\<rparr>
         (put_oid_alias repo (obj_primary_oid record) (obj_content_id record)
         (put_object_location (obj_content_id record) (location_of generation chunk_id location stored_length record)
         batch_new)))))) (\<lambda>_.
       ret (Some location))))))
     else
       seq_eff (on_snd (cat_io (cat_apply ops
         (put_oid_alias repo (obj_primary_oid record) (obj_content_id record) batch_new)))) (\<lambda>_.
       ret None))))"

section \<open>Sealing\<close>

definition publish_sealed_metadata ::
  "'c catalog_ops \<Rightarrow> chunk_header \<Rightarrow> sealed_chunk_footer \<Rightarrow> ('c, store_error, unit) eff" where
  "publish_sealed_metadata ops header footer =
     seq_eff (ask (\<lambda>catalog. cat_chunk ops catalog (ch_generation header) (ch_chunk_id header))) (\<lambda>metadata.
     seq_eff (lift_result (case metadata of
         Some m \<Rightarrow> if cm_state m = Retired
           then Inl (CatalogChunkStateConflict (ch_generation header) (ch_chunk_id header) (cm_state m)) else Inr ()
       | None \<Rightarrow> Inr ())) (\<lambda>_.
     cat_io (cat_apply ops (put_chunk (ch_generation header) (ch_chunk_id header)
       \<lparr>cm_state = Sealed, cm_size = sf_final_length footer, cm_record_count = sf_record_count footer\<rparr> batch_new))))"

text \<open>The file system part of sealing, up to the directory synchronization.\<close>

definition seal_file :: "chunk_writer \<Rightarrow> path \<Rightarrow> sealed_chunk_footer \<Rightarrow> (fs, store_error, unit) eff" where
  "seal_file w sealed_path footer =
     seq_eff (io (sync_data (cw_file w))) (\<lambda>_.
     seq_eff (io (write_all_at (cw_file w) (cw_next_offset w) (sealed_footer_encode footer))) (\<lambda>_.
     seq_eff (io (sync_data (cw_file w))) (\<lambda>_.
     seq_eff (lift_result (chunk_parent (cw_path w))) (\<lambda>parent.
     seq_eff (io (rename_file (cw_path w) sealed_path)) (\<lambda>_.
     io (sync_dir parent))))))"

definition cw_seal_and_publish :: "'c catalog_ops \<Rightarrow> chunk_writer \<Rightarrow> (fs \<times> 'c, store_error, sealed_chunk) eff" where
  "cw_seal_and_publish ops w =
     seq_eff (ask snd) (\<lambda>catalog.
     seq_eff (lift_result (ensure_catalog_writable ops catalog (cw_header w))) (\<lambda>_.
     seq_eff (lift_result (sealed_path_for (cw_path w))) (\<lambda>sealed_path.
     seq_eff (on_fst (path_exists sealed_path)) (\<lambda>exists.
     if exists then raise (ConflictingChunkPaths (cw_path w)) else
     seq_eff (lift_result (ok_or (checked_add (cw_next_offset w) (word_of_nat SEALED_CHUNK_FOOTER_LEN)) OffsetOverflow))
       (\<lambda>final_length.
     let footer = \<lparr>sf_record_count = cw_record_count w, sf_final_length = final_length,
           sf_records_crc32c = crc32c_finalize (cw_records_crc32c w)\<rparr> in
     seq_eff (on_fst (seal_file w sealed_path footer)) (\<lambda>_.
     seq_eff (on_snd (publish_sealed_metadata ops (cw_header w) footer)) (\<lambda>_.
     ret \<lparr>sc_path = sealed_path, sc_header = cw_header w, sc_footer = footer\<rparr>)))))))"

section \<open>Reconciliation\<close>

datatype chunk_reconciliation = ReconciledOpen recovery | ReconciledSealed sealed_chunk

text \<open>\<open>open_path.exists() && sealed_path.exists()\<close>.\<close>

definition both_exist :: "path \<Rightarrow> path \<Rightarrow> (fs, 'e, bool) eff" where
  "both_exist a b = seq_eff (path_exists a) (\<lambda>x. if x then path_exists b else ret False)"

definition reconcile_chunk ::
  "'h crypto \<Rightarrow> zstd \<Rightarrow> 'c catalog_ops \<Rightarrow> path \<Rightarrow> (fs \<times> 'c, store_error, chunk_reconciliation) eff" where
  "reconcile_chunk c z ops p =
     seq_eff (lift_result (chunk_path_pair p)) (\<lambda>(open_path, sealed_path).
     seq_eff (on_fst (both_exist open_path sealed_path)) (\<lambda>both.
     if both then raise (ConflictingChunkPaths open_path) else
     seq_eff (on_fst (path_exists sealed_path)) (\<lambda>is_sealed.
     if is_sealed then
       seq_eff (on_fst (verify_sealed_chunk c z sealed_path)) (\<lambda>sealed.
       seq_eff (on_snd (publish_sealed_metadata ops (sc_header sealed) (sc_footer sealed))) (\<lambda>_.
       ret (ReconciledSealed sealed)))
     else
       seq_eff (on_fst (io (open_file open_path))) (\<lambda>file.
       seq_eff (on_fst (attempt (verify_sealed_file c z file))) (\<lambda>sealed.
       case sealed of
         Inr verified \<Rightarrow>
           seq_eff (lift_result (chunk_parent open_path)) (\<lambda>parent.
           seq_eff (on_fst (io (rename_file open_path sealed_path))) (\<lambda>_.
           seq_eff (on_fst (io (sync_dir parent))) (\<lambda>_.
           seq_eff (on_snd (publish_sealed_metadata ops (vs_header verified) (vs_footer verified))) (\<lambda>_.
           ret (ReconciledSealed \<lparr>sc_path = sealed_path, sc_header = vs_header verified, sc_footer = vs_footer verified\<rparr>)))))
       | Inl _ \<Rightarrow>
           seq_eff (on_fst (read_chunk_header file)) (\<lambda>header.
           seq_eff (ask snd) (\<lambda>catalog.
           seq_eff (lift_result (ensure_catalog_writable ops catalog header)) (\<lambda>_.
           seq_eff (on_fst (recover_file c z file)) (\<lambda>recovery.
           seq_eff (on_fst (cw_open_recovered c z open_path)) (\<lambda>(writer, _).
           seq_eff (on_snd (cw_publish_open ops writer)) (\<lambda>_.
           ret (ReconciledOpen recovery))))))))))))"

end
