(* ===== verification/ReadLaws.thy ===== *)
theory ReadLaws
  imports ChunkLaws ChunkWriter
begin

text \<open>
  What the three readers of a record return.  A location is accepted exactly when the file has the
  chunk's header, the bytes at the offset are the encoding of a record and every field of the
  location is the one the writer publishes for that record.  Streaming accepts the same locations,
  records beyond the size limit included, and delivers the same bytes.
\<close>

section \<open>Locations\<close>

definition object_location_at :: "chunk_header \<Rightarrow> u64 \<Rightarrow> object_record \<Rightarrow> object_location" where
  "object_location_at h off r = location_of (ch_generation h) (ch_chunk_id h)
     \<lparr>rl_offset = off, rl_record_length = word_of_nat (length (record_bytes r))\<rparr> (word_of_nat (length (obj_payload r))) r"

lemma require_ok [ok_iff]: "require b e = Inr u \<longleftrightarrow> b"
  by (simp add: require_def)

lemma open_location_read_only [intro, simp]: "read_only Io (open_location p loc)"
  unfolding open_location_def by (intro read_only_seq; simp)

lemma open_location_iff:
  assumes "disk_wf d"
  shows "outcome (open_location p loc) d = Inr i \<longleftrightarrow>
    dk_names d p = Some i \<and> 64 \<le> unat (loc_offset loc) \<and>
    unat (loc_offset loc) + unat (loc_record_length loc) \<le> length (data_of d i) \<and>
    (\<exists>h. prefix (chunk_header_encode h) (data_of d i) \<and> ch_generation h = loc_generation loc \<and> ch_chunk_id h = loc_chunk_id loc)"
proof (cases "dk_names d p")
  case None
  then show ?thesis by (simp add: open_location_def outcome_seqs)
next
  case (Some j)
  have "inode_wf (dk_inodes d ! j)" using assms Some by (simp add: disk_wf_names inode_wf_at)
  then have size: "length (data_of d j) < file_size_limit" by (simp add: inode_wf_def)
  then have len: "unat (word_of_nat (length (data_of d j)) :: u64) = length (data_of d j)" by (simp add: unat_u64_of_nat)
  have range: "check_location_range loc (word_of_nat (length (data_of d j))) = Inr u \<longleftrightarrow>
      64 \<le> unat (loc_offset loc) \<and> unat (loc_offset loc) + unat (loc_record_length loc) \<le> length (data_of d j)" for u
    using size len by (auto simp: check_location_range_def ok_iff checked_add_def not_less word_le_nat_alt unat_word_ariths)
  show ?thesis
    using Some
    by (auto simp: open_location_def outcome_seqs ok_iff range read_chunk_header_outcome check_location_header_def)
qed

lemma check_location_record_iff:
  assumes "fits r"
  shows "check_location_record loc r = Inr () \<and> loc_record_length loc = word_of_nat (length (record_bytes r)) \<and>
      ch_generation h = loc_generation loc \<and> ch_chunk_id h = loc_chunk_id loc
    \<longleftrightarrow> loc = object_location_at h (loc_offset loc) r"
  using fits_payload [OF assms]
  by (cases loc) (auto simp: check_location_record_def ok_iff try_u64_def object_location_at_def location_of_def)

section \<open>Reading\<close>

lemma read_record_at_read_only [intro, simp]: "read_only Io (read_record_at c z p loc)"
  unfolding read_record_at_def by (intro read_only_seq read_only_if read_only_case_prod; simp)

lemma read_record_at_parts:
  assumes "disk_wf d"
  shows "outcome (read_record_at c z p loc) d = Inr r \<longleftrightarrow>
    (\<exists>i. outcome (open_location p loc) d = Inr i \<and>
      whole_record (drop (unat (loc_offset loc)) (data_of d i)) = Some (r, unat (loc_record_length loc)) \<and>
      check_location_record loc r = Inr () \<and> verify_object_record c z r = Inr ())"
proof (cases "outcome (open_location p loc) d")
  case (Inl e)
  then show ?thesis by (simp add: read_record_at_def outcome_seqs)
next
  case (Inr i)
  let ?off = "unat (loc_offset loc)" and ?k = "unat (loc_record_length loc)"
  let ?rest = "drop ?off (data_of d i)"
  have room: "?off + ?k \<le> length (data_of d i)" using Inr open_location_iff [OF assms] by blast
  have "outcome (read_record_at c z p loc) d = Inr r \<longleftrightarrow>
      whole_record ?rest = Some (r, ?k) \<and> check_location_record loc r = Inr () \<and> verify_object_record c z r = Inr ()"
  proof
    assume "outcome (read_record_at c z p loc) d = Inr r"
    then have "?k \<le> MAX_RECOVERY_RECORD_BYTES" "decode_record (take ?k ?rest) = Inr (r, ?k)"
        "check_location_record loc r = Inr ()" "verify_object_record c z r = Inr ()"
      using Inr by (auto simp: read_record_at_def outcome_seqs ok_iff slice_def split: if_splits)
    then show "whole_record ?rest = Some (r, ?k) \<and> check_location_record loc r = Inr () \<and> verify_object_record c z r = Inr ()"
      using whole_record_from_parts by blast
  next
    assume a: "whole_record ?rest = Some (r, ?k) \<and> check_location_record loc r = Inr () \<and> verify_object_record c z r = Inr ()"
    note w = whole_record_by_parts [OF conjunct1 [OF a]]
    have "?off + 128 \<le> length (data_of d i)" using w(1) by simp
    then show "outcome (read_record_at c z p loc) d = Inr r"
      using Inr room w(2,4,5) a by (simp add: read_record_at_def outcome_seqs slice_def)
  qed
  then show ?thesis using Inr by simp
qed

lemma read_record_at_iff:
  assumes "disk_wf d"
  shows "outcome (read_record_at c z p loc) d = Inr r \<longleftrightarrow>
    (\<exists>i h. dk_names d p = Some i \<and> prefix (chunk_header_encode h) (data_of d i) \<and> 64 \<le> unat (loc_offset loc) \<and>
      prefix (record_bytes r) (drop (unat (loc_offset loc)) (data_of d i)) \<and> fits r \<and>
      verify_object_record c z r = Inr () \<and> loc = object_location_at h (loc_offset loc) r)" (is "_ \<longleftrightarrow> ?R")
proof
  assume "outcome (read_record_at c z p loc) d = Inr r"
  then obtain i where i: "outcome (open_location p loc) d = Inr i"
      "whole_record (drop (unat (loc_offset loc)) (data_of d i)) = Some (r, unat (loc_record_length loc))"
      "check_location_record loc r = Inr ()" "verify_object_record c z r = Inr ()"
    unfolding read_record_at_parts [OF assms] by blast
  then obtain h where h: "dk_names d p = Some i" "64 \<le> unat (loc_offset loc)" "prefix (chunk_header_encode h) (data_of d i)"
      "ch_generation h = loc_generation loc" "ch_chunk_id h = loc_chunk_id loc"
    unfolding open_location_iff [OF assms] by blast
  have w: "fits r" "unat (loc_record_length loc) = length (record_bytes r)"
      "prefix (record_bytes r) (drop (unat (loc_offset loc)) (data_of d i))"
    using i(2) unfolding whole_record_iff by simp_all
  have "loc_record_length loc = word_of_nat (length (record_bytes r))"
    by (simp flip: w(2))
  then have "loc = object_location_at h (loc_offset loc) r"
    using check_location_record_iff [OF w(1), of loc h] i(3) h(4,5) by blast
  then show ?R using h(1-3) w(1,3) i(4) by blast
next
  assume ?R
  then obtain i h where r: "dk_names d p = Some i" "prefix (chunk_header_encode h) (data_of d i)"
      "64 \<le> unat (loc_offset loc)" "prefix (record_bytes r) (drop (unat (loc_offset loc)) (data_of d i))" "fits r"
      "verify_object_record c z r = Inr ()" "loc = object_location_at h (loc_offset loc) r"
    by blast
  have loc: "check_location_record loc r = Inr ()" "loc_record_length loc = word_of_nat (length (record_bytes r))"
      "ch_generation h = loc_generation loc" "ch_chunk_id h = loc_chunk_id loc"
    using check_location_record_iff [OF r(5), of loc h] r(7) by simp_all
  have "length (record_bytes r) < u64_limit" using r(5) by (auto simp: fits_def MAX_RECOVERY_RECORD_BYTES_def)
  then have k: "unat (loc_record_length loc) = length (record_bytes r)" unfolding loc(2) by (rule unat_u64_of_nat)
  have "length (record_bytes r) \<le> length (data_of d i) - unat (loc_offset loc)"
    using prefix_length_le [OF r(4)] by simp
  moreover have "0 < length (record_bytes r)" using r(5) record_bytes_length [of r] by (auto simp: fits_def)
  ultimately have room: "unat (loc_offset loc) + unat (loc_record_length loc) \<le> length (data_of d i)" unfolding k by linarith
  have "outcome (open_location p loc) d = Inr i"
    unfolding open_location_iff [OF assms] using r(1-3) room loc(3,4) by blast
  moreover have "whole_record (drop (unat (loc_offset loc)) (data_of d i)) = Some (r, unat (loc_record_length loc))"
    unfolding whole_record_iff k using r(4,5) by blast
  ultimately show "outcome (read_record_at c z p loc) d = Inr r"
    unfolding read_record_at_parts [OF assms] using loc(1) r(6) by blast
qed

section \<open>Streaming\<close>

lemma open_stream_read_only [intro, simp]: "read_only Io (open_stream p loc)"
  unfolding open_stream_def by (intro read_only_seq read_only_if; simp)

lemma finish_stream_read_only [intro, simp]: "read_only Io (finish_stream i loc m k crc)"
  unfolding finish_stream_def Let_def by (intro read_only_seq read_only_if; simp)

lemma decode_metadata_front:
  assumes "decode_record_metadata (take 128 bs) = Inr m"
  shows "decode_record_metadata bs = Inr m"
proof -
  note s = decode_record_metadata_sound [OF assms]
  have "bs = metadata_header m @ drop 128 bs" using s by (metis append_take_drop_id take_take min.idem)
  then show ?thesis using decode_record_metadata_header [of m "drop 128 bs"] s(1) by simp
qed

lemma open_stream_iff:
  assumes "disk_wf d"
  shows "outcome (open_stream p loc) d = Inr (i, m, k) \<longleftrightarrow>
    outcome (open_location p loc) d = Inr i \<and> 128 \<le> length (drop (unat (loc_offset loc)) (data_of d i)) \<and>
    decode_record_metadata (drop (unat (loc_offset loc)) (data_of d i)) = Inr m \<and>
    validate_stream_location m loc = Inr () \<and> unat (md_stored_length m) + 155 < u64_limit \<and>
    k = loc_record_length loc \<and> unat k = padded_length (unat (md_stored_length m))"
proof (cases "outcome (open_location p loc) d")
  case (Inl e)
  then show ?thesis by (simp add: open_stream_def outcome_seqs)
next
  case (Inr j)
  let ?rest = "drop (unat (loc_offset loc)) (data_of d j)"
  have "unat (loc_offset loc) + unat (loc_record_length loc) \<le> length (data_of d j)"
    using Inr open_location_iff [OF assms] by blast
  then have room: "unat (loc_offset loc) + 128 \<le> length (data_of d j) \<longleftrightarrow> 128 \<le> length ?rest" by auto
  have front: "decode_record_metadata (take 128 ?rest) = Inr m \<longleftrightarrow> decode_record_metadata ?rest = Inr m" for m
    using decode_metadata_front [of ?rest m] decode_record_metadata_sound [of ?rest m]
      decode_record_metadata_header [of m "[]"] by auto
  have len: "word_of_nat (padded_length (unat s)) = (k :: u64) \<longleftrightarrow> unat k = padded_length (unat s)"
    if "unat s + 155 < u64_limit" for s :: u64 and k
    using that padded_length_bounds(2) [of "unat s"] by (auto simp: word_unat_eq_iff unat_u64_of_nat)
  show ?thesis
  proof (cases "128 \<le> length ?rest")
    case True
    show ?thesis
    proof (cases "decode_record_metadata ?rest")
      case (Inl e)
      then obtain e' where "decode_record_metadata (take 128 ?rest) = Inl e'"
        using front by (metis sum.exhaust_sel sum.collapse(2) sum.disc(2) Inl_Inr_False obj_sumE)
      then show ?thesis using \<open>outcome _ d = Inr j\<close> True room Inl
        by (auto simp: open_stream_def outcome_seqs slice_def)
    next
      case m: (Inr m')
      then have "decode_record_metadata (take 128 ?rest) = Inr m'" using front by blast
      then show ?thesis using \<open>outcome _ d = Inr j\<close> True room m
        by (auto simp: open_stream_def outcome_seqs slice_def ok_iff encoded_record_len_from_metadata_eq len split: if_splits)
    qed
  qed (use Inr room in \<open>auto simp: open_stream_def outcome_seqs\<close>)
qed

lemma slice_drop: "slice a n (drop b bs) = slice (b + a) n bs"
  by (simp add: slice_def add.commute)

lemma slice_add: "slice a (k + l) bs = slice a k bs @ slice (a + k) l bs"
  by (simp add: slice_def take_add add.commute)

lemma finish_stream_iff:
  fixes m loc defines "n \<equiv> unat (md_stored_length m)" and "off \<equiv> unat (loc_offset loc)"
  assumes "n + 155 < u64_limit" and "unat k = padded_length n" and "length (data_of d i) < u64_limit"
    and "off + unat k \<le> length (data_of d i)"
  shows "outcome (finish_stream i loc m k crc) d = Inr m' \<longleftrightarrow> m' = m \<and> crc = loc_payload_crc32c loc \<and>
    validate_record_footer (slice (128 + n) 20 (drop off (data_of d i))) crc (word_of_nat (148 + n)) = Inr () \<and>
    \<not> any_nonzero (slice (148 + n) (unat k - (148 + n)) (drop off (data_of d i)))"
proof -
  note pl = padded_length_bounds [of n]
  have un: "unpadded_length_u64 (md_stored_length m) = Some (word_of_nat (148 + n))"
    using assms(3) by (simp add: unpadded_length_u64_eq n_def)
  have n148: "unat (word_of_nat (148 + n) :: u64) = 148 + n" by (rule unat_u64_of_nat) (use assms(3) in simp)
  have o1: "unat (loc_offset loc + word_of_nat (128 + n)) = off + (128 + n)"
    unfolding off_def by (rule checked_add_of_nat(2)) (use assms(4-6) pl off_def in simp)
  have o1': "loc_offset loc + 128 + md_stored_length m = loc_offset loc + word_of_nat (128 + n)" by (simp add: n_def)
  have o2: "unat (loc_offset loc + word_of_nat (148 + n)) = off + (148 + n)"
    unfolding off_def by (rule checked_add_of_nat(2)) (use assms(4-6) pl off_def in simp)
  have le: "word_of_nat (148 + n) \<le> k" using n148 assms(4) pl by (simp add: word_le_nat_alt del: of_nat_add)
  have pad: "unat (k - word_of_nat (148 + n)) = unat k - (148 + n)"
    using n148 le by (simp add: unat_sub del: of_nat_add)
  have room: "off + (128 + n) + 20 \<le> length (data_of d i)" "off + (148 + n) + (unat k - (148 + n)) \<le> length (data_of d i)"
    using assms(4,6) pl by simp_all
  show ?thesis
    unfolding finish_stream_def Let_def format_consts of_nat_numeral o1'
    using room le by (auto simp: outcome_seqs ok_iff un o1 o2 pad slice_drop checked_sub_def simp del: of_nat_add split: if_splits)
qed

lemma validate_stream_location_iff:
  "validate_stream_location m loc = Inr u \<longleftrightarrow> md_stored_length m = loc_stored_length loc \<and>
    md_raw_length m = loc_raw_length loc \<and> md_kind m = loc_kind loc \<and> md_codec m = loc_codec loc \<and> md_flags m = loc_flags loc"
  by (auto simp: validate_stream_location_def ok_iff)

text \<open>
  What a streaming reader has established when it succeeds: the bytes at the location are a record
  and the location is the one published for it.
\<close>

lemma streamed_record:
  assumes d: "disk_wf d" and os: "outcome (open_stream p loc) d = Inr (i, m, k)"
    and fin: "outcome (finish_stream i loc m k (crc32c (slice (unat (loc_offset loc) + 128) (unat (md_stored_length m)) (data_of d i)))) d = Inr m'"
  shows "\<exists>h r. dk_names d p = Some i \<and> prefix (chunk_header_encode h) (data_of d i) \<and> 64 \<le> unat (loc_offset loc) \<and>
    decode_record (drop (unat (loc_offset loc)) (data_of d i)) = Inr (r, unat (loc_record_length loc)) \<and>
    loc = object_location_at h (loc_offset loc) r \<and> m' = m \<and> m = record_meta r \<and>
    obj_payload r = slice (unat (loc_offset loc) + 128) (unat (md_stored_length m)) (data_of d i)"
proof -
  let ?off = "unat (loc_offset loc)" and ?n = "unat (md_stored_length m)"
  let ?rest = "drop ?off (data_of d i)"
  let ?pay = "slice (?off + 128) ?n (data_of d i)"
  have o: "outcome (open_location p loc) d = Inr i" "decode_record_metadata ?rest = Inr m"
      "validate_stream_location m loc = Inr ()" "?n + 155 < u64_limit" "k = loc_record_length loc" "unat k = padded_length ?n"
    using os unfolding open_stream_iff [OF d] by blast+
  obtain h where h: "dk_names d p = Some i" "64 \<le> ?off" "?off + unat (loc_record_length loc) \<le> length (data_of d i)"
      "prefix (chunk_header_encode h) (data_of d i)" "ch_generation h = loc_generation loc" "ch_chunk_id h = loc_chunk_id loc"
    using o(1) unfolding open_location_iff [OF d] by blast
  have size: "length (data_of d i) < u64_limit"
    using inode_wf_at [OF d disk_wf_names [OF d h(1)]] by (simp add: inode_wf_def)
  have f: "m' = m" "crc32c ?pay = loc_payload_crc32c loc"
      "validate_record_footer (slice (128 + ?n) 20 ?rest) (crc32c ?pay) (word_of_nat (148 + ?n)) = Inr ()"
      "\<not> any_nonzero (slice (148 + ?n) (unat k - (148 + ?n)) ?rest)"
    using fin finish_stream_iff [OF o(4,6) size] h(3) o(5) by blast+
  have pay: "slice 128 ?n ?rest = ?pay" by (simp add: slice_drop)
  have dec: "decode_record ?rest = Inr (record_of m ?pay, unat k)"
    unfolding decode_record_iff using o(2,4,6) f(3,4) h(3) o(5) pay by (intro exI [of _ m]) simp
  note s = decode_record_sound [OF dec]
  have n: "length ?pay = ?n"
    using h(3) padded_length_bounds(1) [of ?n] o(5,6) by (simp add: slice_def)
  then have meta: "m = record_meta (record_of m ?pay)"
    by (simp add: record_meta_def record_of_def)
  have "unat k = length (record_bytes (record_of m ?pay))" using s(1,4) by simp
  then have "k = word_of_nat (length (record_bytes (record_of m ?pay)))" by (metis of_nat_unat ucast_id)
  then have "loc = object_location_at h (loc_offset loc) (record_of m ?pay)"
    using h(5,6) o(3,5) f(2) n
    by (cases loc) (simp add: validate_stream_location_iff object_location_at_def location_of_def record_of_def)
  then show ?thesis using h(1,2,4) dec o(5) f(1) meta
    by (intro exI [of _ h] exI [of _ "record_of m ?pay"]) (simp add: record_of_def)
qed

context byte_writer
begin

text \<open>The copy loop hands the payload to the writer, in order, for every schedule of faults.\<close>

lemma stream_copy_accepted:
  assumes "stream_copy wr i off rem crc (s, w) = (r, (s', w'))" and "unat off + unat rem \<le> length (data_of (fs_disk s) i)"
    and "length (data_of (fs_disk s) i) < u64_limit"
  shows "fs_disk s' = fs_disk s \<and>
    (\<exists>ps. accepted wr w ps w' \<and> prefix (concat ps) (slice (unat off) (unat rem) (data_of (fs_disk s) i)) \<and>
      (\<forall>crc'. r = Inr crc' \<longrightarrow> concat ps = slice (unat off) (unat rem) (data_of (fs_disk s) i) \<and>
        crc' = crc32c_update crc (concat ps)))"
  using assms
proof (induction "unat rem" arbitrary: off rem crc s w rule: less_induct)
  case less
  let ?data = "data_of (fs_disk s) i"
  show ?case
  proof (cases "rem = 0")
    case True
    then have "r = Inr crc" "s' = s" "w' = w" using less.prems(1) by (auto simp: stream_copy.simps [of wr i off])
    then show ?thesis using accepted.idle [of wr w] True by (intro conjI exI [of _ "[]"]) (auto simp: slice_def)
  next
    case False
    define n where "n = min rem (word_of_nat STREAM_COPY_BUFFER_BYTES)"
    have n: "n \<le> rem" "0 < n" using False by (auto simp: n_def min_def STREAM_COPY_BUFFER_BYTES_def word_gt_0)
    have un: "unat (rem - n) = unat rem - unat n" "unat n \<le> unat rem" "0 < unat n"
      using n by (simp_all add: unat_sub word_le_nat_alt word_less_nat_alt)
    have "unat off + unat n < u64_limit" using less.prems(2,3) un(2) by linarith
    then have off: "unat (off + n) = unat off + unat n" by (simp add: unat_word_ariths)
    have cut: "slice (unat off) (unat rem) ?data =
        slice (unat off) (unat n) ?data @ slice (unat off + unat n) (unat rem - unat n) ?data"
      using slice_add [of "unat off" "unat n" "unat rem - unat n"] un(2) by simp
    obtain q t where rd: "io (read_exact_at i off (unat n)) s = (q, t)" by fastforce
    have ro: "read_only Io (io (read_exact_at i off (unat n)))" by simp
    note D = read_onlyD [OF ro rd]
    note run = less.prems(1) [unfolded stream_copy.simps [of wr i off rem crc "(s, w)"]]
    show ?thesis
    proof (cases q)
      case (Inl e)
      then have "r = Inl e" "s' = t" "w' = w" using run False rd by (auto simp: n_def Let_def)
      then show ?thesis using accepted.idle [of wr w] D(1) by (intro conjI exI [of _ "[]"]) simp_all
    next
      case (Inr buffer)
      have buf: "buffer = slice (unat off) (unat n) ?data"
        using D(3) [OF Inr] by (auto split: if_splits)
      obtain qw v where wa: "write_all wr buffer w = (qw, v)" by fastforce
      from write_all_accepted [OF wa] obtain ps where ps: "accepted wr w ps v" "prefix (concat ps) buffer"
          "qw = Inr () \<longrightarrow> concat ps = buffer" by blast
      show ?thesis
      proof (cases qw)
        case (Inl e)
        then have "r = Inl (Io e)" "s' = t" "w' = v" using run False rd Inr wa by (auto simp: n_def Let_def)
        moreover have "prefix (concat ps) (slice (unat off) (unat rem) ?data)"
          unfolding cut using ps(2) buf by (simp add: prefix_prefix)
        ultimately show ?thesis using ps(1) D(1) by (intro conjI exI [of _ ps]) simp_all
      next
        case w_ok: (Inr u)
        have rec: "stream_copy wr i (off + n) (rem - n) (crc32c_update crc buffer) (t, v) = (r, (s', w'))"
          using run False rd Inr wa w_ok by (auto simp: n_def Let_def)
        have "unat (rem - n) < unat rem" using un by simp
        from less.hyps [OF this rec] have IH: "fs_disk s' = fs_disk t \<and>
            (\<exists>ps. accepted wr v ps w' \<and> prefix (concat ps) (slice (unat off + unat n) (unat rem - unat n) ?data) \<and>
              (\<forall>crc'. r = Inr crc' \<longrightarrow> concat ps = slice (unat off + unat n) (unat rem - unat n) ?data \<and>
                crc' = crc32c_update (crc32c_update crc buffer) (concat ps)))"
          using less.prems(2,3) un off D(1) by simp
        then obtain qs where qs: "accepted wr v qs w'" "prefix (concat qs) (slice (unat off + unat n) (unat rem - unat n) ?data)"
            "\<And>crc'. r = Inr crc' \<Longrightarrow> concat qs = slice (unat off + unat n) (unat rem - unat n) ?data \<and>
              crc' = crc32c_update (crc32c_update crc buffer) (concat qs)" by blast
        have all: "concat (ps @ qs) = buffer @ concat qs" using ps(3) w_ok by simp
        have "prefix (concat (ps @ qs)) (slice (unat off) (unat rem) ?data)"
          unfolding cut all buf [symmetric] using qs(2) by simp
        moreover have "concat (ps @ qs) = slice (unat off) (unat rem) ?data \<and> crc' = crc32c_update crc (concat (ps @ qs))"
          if "r = Inr crc'" for crc'
          unfolding cut all buf [symmetric] using qs(3) [OF that] by simp
        moreover have "fs_disk s' = fs_disk s" using IH D(1) by simp
        ultimately show ?thesis using accepted_append [OF ps(1) qs(1)] by blast
      qed
    qed
  qed
qed

lemma stream_record_at_sound:
  assumes wf: "disk_wf (fs_disk s)" and run: "stream_record_at wr p loc (s, w) = (res, (s', w'))"
  shows "fs_disk s' = fs_disk s"
    and "res = Inr m \<Longrightarrow> \<exists>i h r ps. dk_names (fs_disk s) p = Some i \<and>
      prefix (chunk_header_encode h) (data_of (fs_disk s) i) \<and>
      decode_record (drop (unat (loc_offset loc)) (data_of (fs_disk s) i)) = Inr (r, unat (loc_record_length loc)) \<and>
      loc = object_location_at h (loc_offset loc) r \<and> m = record_meta r \<and>
      accepted wr w ps w' \<and> concat ps = obj_payload r"
proof -
  let ?d = "fs_disk s" and ?off = "unat (loc_offset loc)"
  obtain q t where os: "open_stream p loc s = (q, t)" by fastforce
  note D = read_onlyD [OF open_stream_read_only os]
  have "fs_disk s' = ?d \<and> (res = Inr m \<longrightarrow> (\<exists>i h r ps. dk_names ?d p = Some i \<and>
      prefix (chunk_header_encode h) (data_of ?d i) \<and>
      decode_record (drop ?off (data_of ?d i)) = Inr (r, unat (loc_record_length loc)) \<and>
      loc = object_location_at h (loc_offset loc) r \<and> m = record_meta r \<and>
      accepted wr w ps w' \<and> concat ps = obj_payload r))"
  proof (cases q)
    case (Inl e)
    then show ?thesis using run os D(1) by (auto simp: stream_record_at_def)
  next
    case (Inr x)
    obtain i m0 k where x: "x = (i, m0, k)" by (cases x) auto
    let ?n = "unat (md_stored_length m0)"
    have o: "outcome (open_stream p loc) ?d = Inr (i, m0, k)" using D(3) Inr x by simp
    have facts: "outcome (open_location p loc) ?d = Inr i" "k = loc_record_length loc" "unat k = padded_length ?n"
      using o unfolding open_stream_iff [OF wf] by blast+
    have loc: "dk_names ?d p = Some i" "?off + unat k \<le> length (data_of ?d i)"
      using facts(1,2) unfolding open_location_iff [OF wf] by blast+
    have size: "length (data_of ?d i) < u64_limit"
      using inode_wf_at [OF wf disk_wf_names [OF wf loc(1)]] by (simp add: inode_wf_def)
    have room: "?off + 128 + ?n \<le> length (data_of ?d i)" using loc(2) facts(3) padded_length_bounds(1) [of ?n] by simp
    then have off: "unat (loc_offset loc + word_of_nat RECORD_HEADER_LEN) = ?off + 128"
      using checked_add_of_nat(2) [of "loc_offset loc" 128] size by simp
    obtain q1 s1 w1 where cp: "stream_copy wr i (loc_offset loc + word_of_nat RECORD_HEADER_LEN) (md_stored_length m0) crc32c_new (t, w)
        = (q1, (s1, w1))" by (metis prod.exhaust)
    have "unat (loc_offset loc + word_of_nat RECORD_HEADER_LEN) + ?n \<le> length (data_of (fs_disk t) i)"
      "length (data_of (fs_disk t) i) < u64_limit" using room off size D(1) by simp_all
    from stream_copy_accepted [OF cp this] obtain ps where ps: "fs_disk s1 = ?d" "accepted wr w ps w1"
        "\<And>crc. q1 = Inr crc \<Longrightarrow> concat ps = slice (?off + 128) ?n (data_of ?d i) \<and> crc = crc32c_update crc32c_new (concat ps)"
      unfolding off D(1) by blast
    show ?thesis
    proof (cases q1)
      case (Inl e)
      then show ?thesis using run os Inr x cp ps(1) by (auto simp: stream_record_at_def)
    next
      case crc: (Inr crc)
      obtain q2 s2 where fin: "finish_stream i loc m0 k (crc32c_finalize crc) s1 = (q2, s2)" by fastforce
      note F = read_onlyD [OF finish_stream_read_only fin]
      have res: "res = q2" "s' = s2" "w' = w1" using run os Inr x cp crc fin by (auto simp: stream_record_at_def)
      have "\<exists>h r. dk_names ?d p = Some i \<and> prefix (chunk_header_encode h) (data_of ?d i) \<and> 64 \<le> ?off \<and>
          decode_record (drop ?off (data_of ?d i)) = Inr (r, unat (loc_record_length loc)) \<and>
          loc = object_location_at h (loc_offset loc) r \<and> m = m0 \<and> m0 = record_meta r \<and>
          obj_payload r = slice (?off + 128) ?n (data_of ?d i)" if "q2 = Inr m"
        by (rule streamed_record [OF wf o]) (use F(3) [OF that] ps(1) ps(3) [OF crc] in \<open>simp add: crc32c_def\<close>)
      then show ?thesis using res F(1) ps(1,2) ps(3) [OF crc] by metis
    qed
  qed
  then show "fs_disk s' = fs_disk s"
    and "res = Inr m \<Longrightarrow> \<exists>i h r ps. dk_names (fs_disk s) p = Some i \<and>
      prefix (chunk_header_encode h) (data_of (fs_disk s) i) \<and>
      decode_record (drop (unat (loc_offset loc)) (data_of (fs_disk s) i)) = Inr (r, unat (loc_record_length loc)) \<and>
      loc = object_location_at h (loc_offset loc) r \<and> m = record_meta r \<and>
      accepted wr w ps w' \<and> concat ps = obj_payload r" by blast+
qed

lemma stream_decoded_quiet:
  assumes "stream_decoded_record_at c z wr p loc (s, w) = (res, (s', w'))"
  shows "fs_disk s' = fs_disk s"
proof -
  note quiet = read_onlyD(1) [OF open_stream_read_only] read_onlyD(1) [OF read_only_io [OF read_only_file_ops(3)]]
    read_onlyD(1) [OF finish_stream_read_only]
  show ?thesis
    using assms
    by (auto simp: stream_decoded_record_at_def seq_eff_def dest!: quiet split: prod.split_asm sum.split_asm)
qed

lemma stream_decoded_record_at_sound:
  assumes c: "crypto_ok c" and wf: "disk_wf (fs_disk s)" and run: "stream_decoded_record_at c z wr p loc (s, w) = (Inr m, (s', w'))"
  shows "fs_disk s' = fs_disk s \<and> (\<exists>i h r ps. dk_names (fs_disk s) p = Some i \<and>
      prefix (chunk_header_encode h) (data_of (fs_disk s) i) \<and>
      decode_record (drop (unat (loc_offset loc)) (data_of (fs_disk s) i)) = Inr (r, unat (loc_record_length loc)) \<and>
      loc = object_location_at h (loc_offset loc) r \<and> m = record_meta r \<and> accepted wr w ps w' \<and>
      decode_object_payload c z r = Inr (concat ps))"
proof -
  let ?d = "fs_disk s" and ?off = "unat (loc_offset loc)"
  obtain i m0 k t where os: "open_stream p loc s = (Inr (i, m0, k), t)"
    using run by (auto simp: stream_decoded_record_at_def seq_eff_def split: prod.split_asm sum.split_asm)
  note D = read_onlyD [OF open_stream_read_only os]
  let ?n = "unat (md_stored_length m0)"
  obtain pay t' where rd: "io (read_exact_at i (loc_offset loc + word_of_nat RECORD_HEADER_LEN) ?n) t = (Inr pay, t')"
    using run os by (auto simp: stream_decoded_record_at_def seq_eff_def split: prod.split_asm sum.split_asm)
  have ro: "read_only Io (io (read_exact_at i (loc_offset loc + word_of_nat RECORD_HEADER_LEN) ?n))" by simp
  note R = read_onlyD [OF ro rd]
  obtain w1 where dec: "decode_object_payload_to_writer c z wr (md_kind m0) (md_codec m0) (md_raw_length m0) (md_content_id m0) pay w = (Inr (), w1)"
      and fin: "finish_stream i loc m0 k (crc32c pay) t' = (Inr m, s')" and w': "w' = w1"
    using run os rd by (auto simp: stream_decoded_record_at_def seq_eff_def split: prod.split_asm sum.split_asm)
  note F = read_onlyD [OF finish_stream_read_only fin]
  have o: "outcome (open_stream p loc) ?d = Inr (i, m0, k)" using D(3) by simp
  have facts: "outcome (open_location p loc) ?d = Inr i" "k = loc_record_length loc" "unat k = padded_length ?n"
    using o unfolding open_stream_iff [OF wf] by blast+
  have loc: "dk_names ?d p = Some i" "?off + unat k \<le> length (data_of ?d i)"
    using facts(1,2) unfolding open_location_iff [OF wf] by blast+
  have size: "length (data_of ?d i) < u64_limit"
    using inode_wf_at [OF wf disk_wf_names [OF wf loc(1)]] by (simp add: inode_wf_def)
  have "?off + 128 + ?n \<le> length (data_of ?d i)" using loc(2) facts(3) padded_length_bounds(1) [of ?n] by simp
  then have "unat (loc_offset loc + word_of_nat RECORD_HEADER_LEN) = ?off + 128"
    using checked_add_of_nat(2) [of "loc_offset loc" 128] size by simp
  then have pay: "pay = slice (?off + 128) ?n (data_of ?d i)"
    using R(3) D(1) by (auto split: if_splits)
  have "\<exists>h r. dk_names ?d p = Some i \<and> prefix (chunk_header_encode h) (data_of ?d i) \<and> 64 \<le> ?off \<and>
      decode_record (drop ?off (data_of ?d i)) = Inr (r, unat (loc_record_length loc)) \<and>
      loc = object_location_at h (loc_offset loc) r \<and> m = m0 \<and> m0 = record_meta r \<and>
      obj_payload r = slice (?off + 128) ?n (data_of ?d i)"
    by (rule streamed_record [OF wf o]) (use F(3) R(1) D(1) pay in simp)
  then obtain h r where hr: "prefix (chunk_header_encode h) (data_of ?d i)"
      "decode_record (drop ?off (data_of ?d i)) = Inr (r, unat (loc_record_length loc))"
      "loc = object_location_at h (loc_offset loc) r" "m = m0" "m0 = record_meta r" "obj_payload r = pay" unfolding pay by blast
  from decode_to_writer_accepted [OF c dec] obtain ps reads where ps: "accepted wr w ps w1"
      "length (concat ps) = unat (md_raw_length m0)" "content_id_for_object c (md_kind m0) (concat ps) = md_content_id m0"
      "source_reads z (md_codec m0) pay = (reads, Inr [])" "concat ps = concat reads" by blast
  have "decode_object_payload c z r = Inr (concat reads)"
    using ps hr(5,6) by (intro decode_object_payload_complete [OF c]) (simp_all add: record_meta_def)
  then show ?thesis
    using hr loc(1) w' F(1) R(1) D(1) ps(1,5) by (intro conjI exI [of _ i] exI [of _ h] exI [of _ r] exI [of _ ps]) simp_all
qed

end

text \<open>On a disk without faults, streaming to a writer that takes everything succeeds wherever reading does.\<close>

lemma open_stream_of_read:
  assumes wf: "disk_wf d" and read: "outcome (read_record_at c z p loc) d = Inr r"
  shows "\<exists>i. outcome (open_stream p loc) d = Inr (i, record_meta r, loc_record_length loc) \<and>
    slice (unat (loc_offset loc) + 128) (length (obj_payload r)) (data_of d i) = obj_payload r \<and>
    unat (loc_offset loc) + 128 + length (obj_payload r) \<le> length (data_of d i) \<and> length (data_of d i) < u64_limit \<and>
    outcome (finish_stream i loc (record_meta r) (loc_record_length loc) (crc32c (obj_payload r))) d = Inr (record_meta r)"
proof -
  obtain i where i: "outcome (open_location p loc) d = Inr i"
      "whole_record (drop (unat (loc_offset loc)) (data_of d i)) = Some (r, unat (loc_record_length loc))"
      "check_location_record loc r = Inr ()"
    using read unfolding read_record_at_parts [OF wf] by blast
  let ?rest = "drop (unat (loc_offset loc)) (data_of d i)" and ?n = "length (obj_payload r)"
  have fr: "fits r" "unat (loc_record_length loc) = length (record_bytes r)" "prefix (record_bytes r) ?rest"
    using i(2) unfolding whole_record_iff by simp_all
  have rw: "object_record_wf r" using fr(1) by (simp add: fits_def)
  have n: "unat (md_stored_length (record_meta r)) = ?n" "?n + 155 < u64_limit"
    using fits_payload [OF fr(1)] by (simp_all add: record_meta_def unat_u64_of_nat)
  obtain x where rest: "?rest = record_bytes r @ x" using fr(3) by (rule prefixE)
  have k: "unat (loc_record_length loc) = padded_length ?n" using fr(2) rw by simp
  have dec: "decode_record ?rest = Inr (r, padded_length ?n)" unfolding rest by (rule decode_record_bytes [OF rw n(2)])
  then obtain m where m: "decode_record_metadata ?rest = Inr m" "r = record_of m (slice 128 (unat (md_stored_length m)) ?rest)"
      "padded_length ?n \<le> length ?rest" "padded_length ?n = padded_length (unat (md_stored_length m))"
      "validate_record_footer (slice (128 + unat (md_stored_length m)) 20 ?rest)
        (crc32c (slice 128 (unat (md_stored_length m)) ?rest)) (word_of_nat (148 + unat (md_stored_length m))) = Inr ()"
      "\<not> any_nonzero (slice (148 + unat (md_stored_length m)) (padded_length ?n - (148 + unat (md_stored_length m))) ?rest)"
    unfolding decode_record_iff by blast
  have "decode_record_metadata ?rest = Inr (record_meta r)"
    unfolding rest record_bytes_def record_header_def append.assoc by (rule decode_record_metadata_header) (simp add: rw)
  then have mr: "m = record_meta r" using m(1) by simp
  have pay: "slice 128 ?n ?rest = obj_payload r" using m(2) unfolding mr n(1) by (metis object_record.select_convs(7) record_of_def)
  have names: "dk_names d p = Some i" using i(1) unfolding open_location_iff [OF wf] by blast
  have size: "length (data_of d i) < u64_limit"
    using inode_wf_at [OF wf disk_wf_names [OF wf names]] by (simp add: inode_wf_def)
  have room: "unat (loc_offset loc) + unat (loc_record_length loc) \<le> length (data_of d i)"
    using i(1) unfolding open_location_iff [OF wf] by blast
  have "validate_stream_location (record_meta r) loc = Inr ()" "crc32c (obj_payload r) = loc_payload_crc32c loc"
    using i(3) by (auto simp: validate_stream_location_iff check_location_record_def ok_iff record_meta_def)
  moreover have "128 \<le> length ?rest" using m(3) padded_length_bounds(1) [of ?n] by simp
  ultimately have "outcome (open_stream p loc) d = Inr (i, record_meta r, loc_record_length loc)"
    unfolding open_stream_iff [OF wf] using i(1) m(1) mr n k by simp
  moreover have "outcome (finish_stream i loc (record_meta r) (loc_record_length loc) (crc32c (obj_payload r))) d = Inr (record_meta r)"
    by (subst finish_stream_iff)
       (use n k size room m(5,6) \<open>crc32c (obj_payload r) = loc_payload_crc32c loc\<close> pay in \<open>simp_all add: mr\<close>)
  moreover have "slice (unat (loc_offset loc) + 128) ?n (data_of d i) = obj_payload r" using pay by (simp add: slice_drop)
  moreover have "unat (loc_offset loc) + 128 + ?n \<le> length (data_of d i)" using room k padded_length_bounds(1) [of ?n] by simp
  ultimately show ?thesis using size by blast
qed

context total_writer
begin

lemma stream_copy_total:
  assumes "unat off + unat rem \<le> length (data_of d i)" and "length (data_of d i) < u64_limit"
  shows "\<exists>crc' w'. stream_copy wr i off rem crc (healthy d, w) = (Inr crc', (healthy d, w'))"
  using assms
proof (induction "unat rem" arbitrary: off rem crc w rule: less_induct)
  case less
  show ?case
  proof (cases "rem = 0")
    case True
    then show ?thesis by (simp add: stream_copy.simps [of wr i off])
  next
    case False
    define n where "n = min rem (word_of_nat STREAM_COPY_BUFFER_BYTES)"
    have n: "n \<le> rem" "0 < n" using False by (auto simp: n_def min_def STREAM_COPY_BUFFER_BYTES_def word_gt_0)
    have un: "unat (rem - n) = unat rem - unat n" "unat n \<le> unat rem" "0 < unat n"
      using n by (simp_all add: unat_sub word_le_nat_alt word_less_nat_alt)
    have "unat off + unat n < u64_limit" using less.prems un(2) by linarith
    then have off: "unat (off + n) = unat off + unat n" by (simp add: unat_word_ariths)
    obtain buffer where rd: "io (read_exact_at i off (unat n)) (healthy d) = (Inr buffer, healthy d)"
      using read_only_healthy [OF read_only_io [OF read_only_file_ops(3)], of i off "unat n" d] less.prems(1) un(2) by simp
    obtain v where wa: "write_all wr buffer w = (Inr (), v)" using write_all_total by blast
    have "unat (rem - n) < unat rem" using un by simp
    from less.hyps [OF this, of "off + n" "crc32c_update crc buffer" v] show ?thesis
      using less.prems un off False rd wa by (simp add: stream_copy.simps [of wr i off rem] n_def [symmetric] Let_def)
  qed
qed

lemma streaming_complete:
  assumes c: "crypto_ok c" and wf: "disk_wf d" and read: "outcome (read_record_at c z p loc) d = Inr r"
  shows "\<exists>w'. stream_record_at wr p loc (healthy d, w) = (Inr (record_meta r), (healthy d, w'))"
    and "\<exists>w'. stream_decoded_record_at c z wr p loc (healthy d, w) = (Inr (record_meta r), (healthy d, w'))"
proof -
  let ?off = "unat (loc_offset loc)" and ?n = "length (obj_payload r)"
  from open_stream_of_read [OF wf read] obtain i where o: "outcome (open_stream p loc) d = Inr (i, record_meta r, loc_record_length loc)"
    "slice (?off + 128) ?n (data_of d i) = obj_payload r" "?off + 128 + ?n \<le> length (data_of d i)"
    "length (data_of d i) < u64_limit"
    "outcome (finish_stream i loc (record_meta r) (loc_record_length loc) (crc32c (obj_payload r))) d = Inr (record_meta r)" by blast
  have fr: "fits r" "verify_object_record c z r = Inr ()" using read unfolding read_record_at_iff [OF wf] by blast+
  have n: "unat (md_stored_length (record_meta r)) = ?n"
    using fits_payload [OF fr(1)] by (simp add: record_meta_def unat_u64_of_nat)
  have off: "unat (loc_offset loc + word_of_nat RECORD_HEADER_LEN) = ?off + 128"
    using checked_add_of_nat(2) [of "loc_offset loc" 128] o(3,4) by simp
  have open_run: "open_stream p loc (healthy d) = (Inr (i, record_meta r, loc_record_length loc), healthy d)"
    using read_only_healthy [OF open_stream_read_only, of p loc d] o(1) by simp
  have fin_run: "finish_stream i loc (record_meta r) (loc_record_length loc) (crc32c (obj_payload r)) (healthy d) = (Inr (record_meta r), healthy d)"
    using read_only_healthy [OF finish_stream_read_only] o(5) by simp
  obtain crc w1 where cp: "stream_copy wr i (loc_offset loc + word_of_nat RECORD_HEADER_LEN) (md_stored_length (record_meta r))
      crc32c_new (healthy d, w) = (Inr crc, (healthy d, w1))"
    using stream_copy_total [of "loc_offset loc + word_of_nat RECORD_HEADER_LEN" "md_stored_length (record_meta r)" d i crc32c_new w]
      off n o(3,4) by auto
  have "crc = crc32c_update crc32c_new (obj_payload r)"
    using stream_copy_accepted [OF cp] off n o(2,3,4) by auto
  then have "crc32c_finalize crc = crc32c (obj_payload r)" by (simp add: crc32c_def)
  then show "\<exists>w'. stream_record_at wr p loc (healthy d, w) = (Inr (record_meta r), (healthy d, w'))"
    using open_run cp fin_run by (simp add: stream_record_at_def)
  obtain raw where raw: "decode_object_payload c z r = Inr raw"
    using fr(2) by (auto simp: verify_object_record_eq ok_iff)
  note ds = decode_object_payload_sound [OF c raw]
  obtain reads where reads: "source_reads z (obj_codec r) (obj_payload r) = (reads, Inr [])" "concat reads = raw" using ds(3) by blast
  have raw_len: "length (concat reads) < u64_limit" "obj_raw_length r = word_of_nat (length (concat reads))"
    using ds(1) reads(2) unat_less_u64_limit [of "obj_raw_length r"] by simp_all
  have "fst (decode_object_payload_to_writer c z wr (obj_kind r) (obj_codec r) (obj_raw_length r) (obj_content_id r) (obj_payload r) w) = Inr ()"
    using decode_to_writer_complete [OF c reads(1) raw_len(1), of "obj_kind r" w] raw_len(2) ds(2) reads(2) by simp
  then obtain w2 where dec: "decode_object_payload_to_writer c z wr (obj_kind r) (obj_codec r) (obj_raw_length r) (obj_content_id r) (obj_payload r) w = (Inr (), w2)"
    by (metis prod.collapse)
  have rd: "io (read_exact_at i (loc_offset loc + word_of_nat RECORD_HEADER_LEN) ?n) (healthy d) = (Inr (obj_payload r), healthy d)"
    using read_only_healthy [OF read_only_io [OF read_only_file_ops(3)]] off o(2,3) by simp
  show "\<exists>w'. stream_decoded_record_at c z wr p loc (healthy d, w) = (Inr (record_meta r), (healthy d, w'))"
    using open_run rd dec fin_run n by (simp add: stream_decoded_record_at_def seq_eff_def record_meta_def)
qed

end

end
