(* ===== verification/WriterLaws.thy ===== *)
theory WriterLaws
  imports ReadLaws CatalogLaws
begin

text \<open>
  The invariant of an open chunk and what every writer operation does to it, for every schedule of
  faults: the file starts with the header and the encodings of the records the writer counts, and
  every location the catalog has for the chunk names one of them within the durable prefix of the file.
\<close>

section \<open>Effects on a part of the state\<close>

lemma part_apply [simp]:
  "on_fst m (s, t) = (case m s of (r, s') \<Rightarrow> (r, (s', t)))"
  "on_snd n (s, t) = (case n t of (q, t') \<Rightarrow> (q, (s, t')))"
  "ask f u = (Inr (f u), u)"
  by (simp_all add: on_fst_def on_snd_def ask_def)

lemma map_err_Inl_iff: "map_err f x = Inl e \<longleftrightarrow> (\<exists>e'. x = Inl e' \<and> e = f e')"
  by (cases x) auto

section \<open>Writing to a file\<close>

lemma write_all_at_cases:
  assumes "write_all_at i off bs s = (q, s')"
  obtains (written) "q = Inr ()" "fs_disk s' = write_inode i (unat off) bs (fs_disk s)" "unat off + length bs < file_size_limit"
  | (failed) e where "q = Inl e" "fs_disk s' = fs_disk s"
  | (partly) e n where "q = Inl e" "fs_disk s' = write_inode i (unat off) (take n bs) (fs_disk s)"
      "unat off + length bs < file_size_limit"
  using assms
  by (auto simp: write_all_at_def next_fault_def not_le split: list.split_asm fault.split_asm if_split_asm)

lemma overwrite_tail:
  assumes "prefix front old" and "off = length front"
  shows "prefix (front @ bs) (overwrite old off bs)" and "length (overwrite old off bs) = max (length old) (off + length bs)"
proof -
  obtain x where "old = front @ x" using assms(1) by (rule prefixE)
  then show "prefix (front @ bs) (overwrite old off bs)" "length (overwrite old off bs) = max (length old) (off + length bs)"
    using assms(2) by (auto simp: overwrite_def)
qed

lemma write_inode_wf:
  assumes "disk_wf d" and "off \<le> length (data_of d i)" and "off + length bs < file_size_limit"
  shows "disk_wf (write_inode i off bs d)"
  unfolding write_inode_def
proof (rule update_inode_wf [OF assms(1)])
  assume "i < length (dk_inodes d)"
  then have w: "inode_wf (dk_inodes d ! i)" using assms(1) by (simp add: inode_wf_at)
  have old: "data_of d i = take off (data_of d i) @ drop off (data_of d i)" by simp
  have "prefix (take off (data_of d i) @ bs) (overwrite (data_of d i) off bs)"
    "length (overwrite (data_of d i) off bs) = max (length (data_of d i)) (off + length bs)"
    using overwrite_tail [of "take off (data_of d i)" "data_of d i" off bs] assms(2) by (simp_all add: take_is_prefix)
  moreover have "prefix (take off (stable_of d i)) (take off (data_of d i))"
    using w by (auto simp: inode_wf_def prefix_def)
  ultimately show "inode_wf \<lparr>ino_data = overwrite (data_of d i) off bs, ino_stable = take off (stable_of d i)\<rparr>"
    using w assms(3) by (auto simp: inode_wf_def intro: prefix_order.trans prefix_prefix)
qed

lemma write_inode_simps [simp]:
  "length (dk_inodes (write_inode i off bs d)) = length (dk_inodes d)"
  "dk_names (write_inode i off bs d) = dk_names d" "dk_durable (write_inode i off bs d) = dk_durable d"
  "j \<noteq> i \<Longrightarrow> dk_inodes (write_inode i off bs d) ! j = dk_inodes d ! j"
  "i < length (dk_inodes d) \<Longrightarrow> dk_inodes (write_inode i off bs d) ! i =
     \<lparr>ino_data = overwrite (data_of d i) off bs, ino_stable = take off (stable_of d i)\<rparr>"
  by (simp_all add: write_inode_def)

section \<open>The writer's invariant\<close>

definition chunk_front :: "chunk_header \<Rightarrow> object_record list \<Rightarrow> bytes" where
  "chunk_front h rs = chunk_header_encode h @ encodings rs"

lemma length_chunk_front [simp]: "length (chunk_front h rs) = 64 + length (encodings rs)"
  by (simp add: chunk_front_def)

definition writer_wf :: "chunk_writer \<Rightarrow> disk \<Rightarrow> object_record list \<Rightarrow> bool" where
  "writer_wf w d rs \<longleftrightarrow> disk_wf d \<and> cw_file w < length (dk_inodes d) \<and> list_all fits rs \<and>
     prefix (chunk_front (cw_header w) rs) (data_of d (cw_file w)) \<and>
     cw_next_offset w = word_of_nat (64 + length (encodings rs)) \<and> cw_record_count w = word_of_nat (length rs) \<and>
     cw_records_crc32c w = crc32c_update crc32c_new (encodings rs)"

lemma writer_wf_offset:
  assumes "writer_wf w d rs"
  shows "unat (cw_next_offset w) = 64 + length (encodings rs)" and "64 + length (encodings rs) < file_size_limit"
    and "length (data_of d (cw_file w)) < file_size_limit" and "unat (cw_record_count w) = length rs"
    and "length rs < file_size_limit"
proof -
  have "inode_wf (dk_inodes d ! cw_file w)" using assms by (simp add: writer_wf_def inode_wf_at)
  then show data: "length (data_of d (cw_file w)) < file_size_limit" by (simp add: inode_wf_def)
  have "length (chunk_front (cw_header w) rs) \<le> length (data_of d (cw_file w))"
    using assms prefix_length_le unfolding writer_wf_def by blast
  then show size: "64 + length (encodings rs) < file_size_limit" using data by simp
  then have "unat (word_of_nat (64 + length (encodings rs)) :: u64) = 64 + length (encodings rs)"
    by (intro unat_u64_of_nat) simp
  then show "unat (cw_next_offset w) = 64 + length (encodings rs)" using assms by (simp add: writer_wf_def)
  have "length rs \<le> length (encodings rs)" using assms by (simp add: writer_wf_def records_short)
  then show n: "length rs < file_size_limit" using size by simp
  then have "unat (word_of_nat (length rs) :: u64) = length rs" by (intro unat_u64_of_nat) simp
  then show "unat (cw_record_count w) = length rs" using assms by (simp add: writer_wf_def)
qed

text \<open>What a step may do to a disk: names and the other files stay, and so does the durable prefix
  of the writer's file up to an offset.\<close>

definition keeps_front :: "nat \<Rightarrow> nat \<Rightarrow> disk \<Rightarrow> disk \<Rightarrow> bool" where
  "keeps_front i n d d' \<longleftrightarrow> dk_names d' = dk_names d \<and> dk_durable d' = dk_durable d \<and>
     length (dk_inodes d') = length (dk_inodes d) \<and> (\<forall>j. j \<noteq> i \<longrightarrow> dk_inodes d' ! j = dk_inodes d ! j) \<and>
     prefix (take n (stable_of d i)) (stable_of d' i)"

lemma keeps_front_refl [simp]: "keeps_front i n d d"
  by (simp add: keeps_front_def take_is_prefix)

lemma chunk_front_append: "chunk_front h (rs @ ss) = chunk_front h rs @ encodings ss"
  by (simp add: chunk_front_def)

lemma writer_write:
  assumes w: "writer_wf w d rs" and room: "unat (cw_next_offset w) + length bs < file_size_limit"
  defines "d' \<equiv> write_inode (cw_file w) (unat (cw_next_offset w)) bs d"
  shows "disk_wf d'" and "prefix (chunk_front (cw_header w) rs @ bs) (data_of d' (cw_file w))"
    and "keeps_front (cw_file w) (unat (cw_next_offset w)) d d'"
    and "length (data_of d' (cw_file w)) = max (length (data_of d (cw_file w))) (unat (cw_next_offset w) + length bs)"
proof -
  note off = writer_wf_offset(1) [OF w]
  have pre: "prefix (chunk_front (cw_header w) rs) (data_of d (cw_file w))" and i: "cw_file w < length (dk_inodes d)"
    and d: "disk_wf d" using w by (simp_all add: writer_wf_def)
  have "unat (cw_next_offset w) \<le> length (data_of d (cw_file w))" using prefix_length_le [OF pre] off by simp
  then show "disk_wf d'" unfolding d'_def by (rule write_inode_wf [OF d _ room])
  show "prefix (chunk_front (cw_header w) rs @ bs) (data_of d' (cw_file w))"
    and "length (data_of d' (cw_file w)) = max (length (data_of d (cw_file w))) (unat (cw_next_offset w) + length bs)"
    using overwrite_tail [OF pre, of "unat (cw_next_offset w)" bs] off i by (simp_all add: d'_def)
  show "keeps_front (cw_file w) (unat (cw_next_offset w)) d d'"
    using i by (simp add: keeps_front_def d'_def)
qed

lemma cw_append_result:
  assumes w: "writer_wf w (fs_disk s) rs" and r: "fits r" and run: "cw_append c z r (w, s) = (q, (w', s'))"
  shows "keeps_front (cw_file w) (unat (cw_next_offset w)) (fs_disk s) (fs_disk s')"
    and "q = Inl e \<Longrightarrow> w' = w \<and> writer_wf w (fs_disk s') rs"
    and "q = Inr l \<Longrightarrow> verify_object_record c z r = Inr () \<and>
      l = \<lparr>rl_offset = cw_next_offset w, rl_record_length = word_of_nat (length (record_bytes r))\<rparr> \<and>
      w' = w\<lparr>cw_next_offset := word_of_nat (64 + length (encodings (rs @ [r]))), cw_record_count := word_of_nat (length (rs @ [r])),
        cw_records_crc32c := crc32c_update crc32c_new (encodings (rs @ [r]))\<rparr> \<and> writer_wf w' (fs_disk s') (rs @ [r])"
proof -
  let ?i = "cw_file w" and ?off = "unat (cw_next_offset w)" and ?d = "fs_disk s" and ?bs = "record_bytes r"
  let ?w = "w\<lparr>cw_next_offset := word_of_nat (64 + length (encodings (rs @ [r]))), cw_record_count := word_of_nat (length (rs @ [r])),
        cw_records_crc32c := crc32c_update crc32c_new (encodings (rs @ [r]))\<rparr>"
  note off = writer_wf_offset [OF w]
  have rw: "object_record_wf r" using r by (simp add: fits_def)
  have enc: "encode_record r = Inr ?bs" using encode_record_eq [OF rw] fits_payload [OF r] by simp
  have len: "length ?bs < u64_limit" using r by (auto simp: fits_def MAX_RECOVERY_RECORD_BYTES_def)
  have "keeps_front ?i ?off ?d (fs_disk s') \<and> (\<forall>e. q = Inl e \<longrightarrow> w' = w \<and> writer_wf w (fs_disk s') rs) \<and>
    (\<forall>l. q = Inr l \<longrightarrow> verify_object_record c z r = Inr () \<and>
      l = \<lparr>rl_offset = cw_next_offset w, rl_record_length = word_of_nat (length ?bs)\<rparr> \<and> w' = ?w \<and> writer_wf w' (fs_disk s') (rs @ [r]))"
  proof (cases "verify_object_record c z r")
    case (Inl e)
    then have "q = Inl (Codec e)" "w' = w" "s' = s" using run by (auto simp: cw_append_def)
    then show ?thesis using w by simp
  next
    case (Inr u)
    obtain q1 s1 where wr: "write_all_at ?i (cw_next_offset w) ?bs s = (q1, s1)" by fastforce
    from wr show ?thesis
    proof (cases rule: write_all_at_cases)
      case written
      note ww = writer_write [OF w written(3)]
      have lim: "?off + length ?bs < u64_limit" using written(3) by simp
      have add: "checked_add (cw_next_offset w) (word_of_nat (length ?bs)) = Some (cw_next_offset w + word_of_nat (length ?bs))"
        by (rule checked_add_of_nat(1) [OF lim])
      have cnt: "checked_add (cw_record_count w) 1 = Some (cw_record_count w + 1)"
        using off(4,5) by (simp add: checked_add_def)
      have upd: "cw_next_offset w + word_of_nat (length ?bs) = word_of_nat (64 + length (encodings (rs @ [r])))"
          "cw_record_count w + 1 = word_of_nat (length (rs @ [r]))"
          "crc32c_update (cw_records_crc32c w) ?bs = crc32c_update crc32c_new (encodings (rs @ [r]))"
        using w by (simp_all add: writer_wf_def)
      have fit: "try_u64 (length ?bs) = Some (word_of_nat (length ?bs))" using len by (simp add: try_u64_def)
      have res: "q = Inr \<lparr>rl_offset = cw_next_offset w, rl_record_length = word_of_nat (length ?bs)\<rparr>" "w' = ?w" "s' = s1"
        using run Inr enc wr written(1) by (simp_all add: cw_append_def io_def fit add cnt upd del: of_nat_add)
      have "writer_wf ?w (fs_disk s1) (rs @ [r])"
        using ww(1,2) w r by (simp add: writer_wf_def chunk_front_append written(2))
      then show ?thesis using res ww(3) Inr written(2) by simp
    next
      case (failed e)
      then have "q = Inl (Io e)" "w' = w" "s' = s1" using run Inr enc wr by (auto simp: cw_append_def io_def)
      then show ?thesis using w failed by simp
    next
      case (partly e n)
      have "?off + length (take n ?bs) < file_size_limit" using partly(3) by simp
      note ww = writer_write [OF w this]
      have res: "q = Inl (Io e)" "w' = w" "s' = s1" using run Inr enc wr partly by (auto simp: cw_append_def io_def)
      have "writer_wf w (fs_disk s1) rs"
        using ww(1,2) w append_prefixD [of "chunk_front (cw_header w) rs"] by (simp add: writer_wf_def partly(2))
      then show ?thesis using res ww(3) partly(2) by simp
    qed
  qed
  then show "keeps_front ?i ?off (fs_disk s) (fs_disk s')" and "q = Inl e \<Longrightarrow> w' = w \<and> writer_wf w (fs_disk s') rs"
    and "q = Inr l \<Longrightarrow> verify_object_record c z r = Inr () \<and>
      l = \<lparr>rl_offset = cw_next_offset w, rl_record_length = word_of_nat (length ?bs)\<rparr> \<and> w' = ?w \<and> writer_wf w' (fs_disk s') (rs @ [r])"
    by blast+
qed

lemma fallible_cases:
  assumes "fallible m s = (q, s')"
  obtains (fault) e where "q = Inl e" "fs_disk s' = fs_disk s" | (ran) "q = fst (m (fs_disk s))" "fs_disk s' = snd (m (fs_disk s))"
  using assms
  by (auto simp: fallible_def next_fault_def split: list.split_asm fault.split_asm prod.split_asm)

lemma sync_data_cases:
  assumes "sync_data i s = (q, s')"
  obtains (fault) e where "q = Inl e" "fs_disk s' = fs_disk s" | (ran) "q = Inr ()" "fs_disk s' = sync_inode i (fs_disk s)"
  using assms unfolding sync_data_def by (cases rule: fallible_cases) auto

lemma writer_sync:
  assumes "writer_wf w d rs"
  shows "writer_wf w (sync_inode (cw_file w) d) rs" and "keeps_front (cw_file w) n d (sync_inode (cw_file w) d)"
    and "stable_of (sync_inode (cw_file w) d) (cw_file w) = data_of d (cw_file w)"
proof -
  have i: "cw_file w < length (dk_inodes d)" "disk_wf d" using assms by (simp_all add: writer_wf_def)
  then show "writer_wf w (sync_inode (cw_file w) d) rs" using assms by (simp add: writer_wf_def sync_inode_wf)
  show "stable_of (sync_inode (cw_file w) d) (cw_file w) = data_of d (cw_file w)" using i by simp
  have "prefix (stable_of d (cw_file w)) (data_of d (cw_file w))" using inode_wf_at [OF i(2,1)] by (simp add: inode_wf_def)
  then show "keeps_front (cw_file w) n d (sync_inode (cw_file w) d)"
    using i by (auto simp: keeps_front_def intro: prefix_order.trans take_is_prefix)
qed

section \<open>Indexed records\<close>

text \<open>
  Every location the catalog has for the chunk is that of one of the records, under its own content
  identifier, verified, and within the durable bytes.
\<close>

definition indexed ::
  "'h crypto \<Rightarrow> zstd \<Rightarrow> chunk_header \<Rightarrow> object_record list \<Rightarrow> bytes \<Rightarrow> (content_id \<rightharpoonup> object_location) \<Rightarrow> bool" where
  "indexed c z h rs durable objects \<longleftrightarrow> prefix (chunk_header_encode h) durable \<and>
     (\<forall>cid loc. objects cid = Some loc \<longrightarrow> loc_generation loc = ch_generation h \<longrightarrow> loc_chunk_id loc = ch_chunk_id h \<longrightarrow>
       (\<exists>rs1 r rs2. rs = rs1 @ r # rs2 \<and> loc = object_location_at h (word_of_nat (64 + length (encodings rs1))) r \<and>
         obj_content_id r = cid \<and> verify_object_record c z r = Inr () \<and> prefix (chunk_front h (rs1 @ [r])) durable))"

lemma indexed_keep:
  assumes "indexed c z h rs durable objects" and "prefix (take (64 + length (encodings rs)) durable) durable'"
  shows "indexed c z h (rs @ ss) durable' objects"
  unfolding indexed_def
proof (intro conjI allI impI)
  have "prefix (chunk_header_encode h) (take (64 + length (encodings rs)) durable)"
    using assms(1) by (auto simp: indexed_def prefix_def)
  then show "prefix (chunk_header_encode h) durable'" using assms(2) by (rule prefix_order.trans)
next
  fix cid loc
  assume "objects cid = Some loc" "loc_generation loc = ch_generation h" "loc_chunk_id loc = ch_chunk_id h"
  with assms(1) obtain rs1 r rs2 where x: "rs = rs1 @ r # rs2" "loc = object_location_at h (word_of_nat (64 + length (encodings rs1))) r"
      "obj_content_id r = cid" "verify_object_record c z r = Inr ()" "prefix (chunk_front h (rs1 @ [r])) durable"
    unfolding indexed_def by meson
  have "length (chunk_front h (rs1 @ [r])) \<le> 64 + length (encodings rs)" using x(1) by simp
  then have "prefix (chunk_front h (rs1 @ [r])) (take (64 + length (encodings rs)) durable)"
    using x(5) by (auto simp: prefix_def)
  then have "prefix (chunk_front h (rs1 @ [r])) durable'" using assms(2) by (rule prefix_order.trans)
  then show "\<exists>rs1 r rs2. rs @ ss = rs1 @ r # rs2 \<and> loc = object_location_at h (word_of_nat (64 + length (encodings rs1))) r \<and>
      obj_content_id r = cid \<and> verify_object_record c z r = Inr () \<and> prefix (chunk_front h (rs1 @ [r])) durable'"
    using x by (intro exI [of _ rs1] exI [of _ r] exI [of _ "rs2 @ ss"]) simp
qed

lemma indexed_put:
  assumes "indexed c z h (rs @ [r]) durable objects" and "prefix (chunk_front h (rs @ [r])) durable"
    and "verify_object_record c z r = Inr ()"
  shows "indexed c z h (rs @ [r]) durable
    (objects(obj_content_id r \<mapsto> object_location_at h (word_of_nat (64 + length (encodings rs))) r))"
  unfolding indexed_def
proof (intro conjI allI impI)
  show "prefix (chunk_header_encode h) durable" using assms(1) by (simp add: indexed_def)
next
  fix cid loc
  assume a: "(objects(obj_content_id r \<mapsto> object_location_at h (word_of_nat (64 + length (encodings rs))) r)) cid = Some loc"
    "loc_generation loc = ch_generation h" "loc_chunk_id loc = ch_chunk_id h"
  show "\<exists>rs1 x rs2. rs @ [r] = rs1 @ x # rs2 \<and> loc = object_location_at h (word_of_nat (64 + length (encodings rs1))) x \<and>
      obj_content_id x = cid \<and> verify_object_record c z x = Inr () \<and> prefix (chunk_front h (rs1 @ [x])) durable"
  proof (cases "cid = obj_content_id r")
    case True
    then show ?thesis using a(1) assms(2,3) by (intro exI [of _ rs] exI [of _ r] exI [of _ "[]"]) simp
  next
    case False
    then show ?thesis using a assms(1) unfolding indexed_def by simp
  qed
qed

lemma view_apply_index:
  assumes "view_apply (put_chunk g k m (put_oid_alias repo oid cid (put_object_location cid loc batch_new))) v = Inr v'"
  shows "v_objects v' = (v_objects v)(cid \<mapsto> loc)" and "v_aliases v' (repo, oid) = Some cid"
    and "v_chunks v' = (v_chunks v)((g, k) \<mapsto> m)" and "v_rebuilding v' = v_rebuilding v" and "\<not> v_rebuilding v"
  using assms
  by (auto simp: view_apply_def put_chunk_def put_oid_alias_def put_object_location_def batch_push_def batch_new_def
      ok_iff split: if_splits option.splits)

lemma view_apply_alias:
  assumes "view_apply (put_oid_alias repo oid cid batch_new) v = Inr v'"
  shows "v_objects v' = v_objects v" and "v_aliases v' (repo, oid) = Some cid" and "v_chunks v' = v_chunks v"
    and "v_rebuilding v' = v_rebuilding v" and "\<not> v_rebuilding v"
  using assms
  by (auto simp: view_apply_def put_oid_alias_def batch_push_def batch_new_def ok_iff split: if_splits option.splits)

lemma view_apply_chunk:
  assumes "view_apply (put_chunk g k m batch_new) v = Inr v'"
  shows "v' = v\<lparr>v_chunks := (v_chunks v)((g, k) \<mapsto> m)\<rparr>" and "\<not> v_rebuilding v"
  using assms
  by (auto simp: view_apply_def put_chunk_def batch_push_def batch_new_def ok_iff split: if_splits option.splits)

section \<open>Appending and indexing\<close>

text \<open>The ways a call of \<open>append_and_index\<close> can go.\<close>

lemma append_and_index_cases:
  assumes "cw_append_and_index c z ops repo g k r ((w, s), cat) = (q, ((w', s'), cat'))" and "length (obj_payload r) < u64_limit"
  obtains (refused) e where "q = Inl e" "w' = w" "s' = s" "cat' = cat"
  | (aliased) q1 where "cat_object_location ops cat (obj_content_id r) \<noteq> None" "w' = w" "s' = s"
      "cat_apply ops (put_oid_alias repo (obj_primary_oid r) (obj_content_id r) batch_new) cat = (q1, cat')"
      "q = and_then (map_err Catalog q1) (\<lambda>_. Inr None)"
  | (append_failed) e where "cw_append c z r (w, s) = (Inl e, (w', s'))" "q = Inl e" "cat' = cat"
      "cat_object_location ops cat (obj_content_id r) = None"
  | (sync_failed) e l s1 where "cw_append c z r (w, s) = (Inr l, (w', s1))" "sync_data (cw_file w') s1 = (Inl e, s')"
      "q = Inl (Io e)" "cat' = cat" "cat_object_location ops cat (obj_content_id r) = None"
  | (appended) l s1 q1 where "cat_object_location ops cat (obj_content_id r) = None" "g = ch_generation (cw_header w)"
      "k = ch_chunk_id (cw_header w)" "cw_append c z r (w, s) = (Inr l, (w', s1))" "sync_data (cw_file w') s1 = (Inr (), s')"
      "cat_apply ops (put_chunk g k \<lparr>cm_state = Open, cm_size = cw_next_offset w', cm_record_count = cw_record_count w'\<rparr>
         (put_oid_alias repo (obj_primary_oid r) (obj_content_id r)
         (put_object_location (obj_content_id r) (location_of g k l (word_of_nat (length (obj_payload r))) r) batch_new))) cat = (q1, cat')"
      "q = and_then (map_err Catalog q1) (\<lambda>_. Inr (Some l))"
proof -
  have fit: "try_u64 (length (obj_payload r)) = Some (word_of_nat (length (obj_payload r)))"
    using assms(2) by (simp add: try_u64_def)
  show ?thesis
    using assms(1) that
    by (auto simp: cw_append_and_index_def seq_eff_def cw_sync_data_def io_def cat_io_def fit lift_result_def map_err_Inr_iff map_err_Inl_iff
        split: if_split_asm sum.split_asm prod.split_asm)
qed

section \<open>The invariant of an open chunk\<close>

text \<open>The names of a chunk: the open one or the sealed one, never both.\<close>

definition open_name :: "(path \<rightharpoonup> nat) \<Rightarrow> path \<Rightarrow> nat \<Rightarrow> bool" where
  "open_name names p i \<longleftrightarrow> names p = Some i \<and> names (with_extension p ''sealed'') = None"

definition sealed_name :: "(path \<rightharpoonup> nat) \<Rightarrow> path \<Rightarrow> nat \<Rightarrow> bool" where
  "sealed_name names p i \<longleftrightarrow> names p = None \<and> names (with_extension p ''sealed'') = Some i"

definition chunk_inv ::
  "'h crypto \<Rightarrow> zstd \<Rightarrow> ('c \<Rightarrow> bool) \<Rightarrow> ('c \<Rightarrow> catalog_view) \<Rightarrow> (chunk_writer \<times> fs) \<times> 'c \<Rightarrow> bool" where
  "chunk_inv c z invar view st \<longleftrightarrow> (case st of ((w, s), cat) \<Rightarrow>
     invar cat \<and> open_name (dk_names (fs_disk s)) (cw_path w) (cw_file w) \<and>
     open_name (dk_durable (fs_disk s)) (cw_path w) (cw_file w) \<and>
     (\<exists>rs. writer_wf w (fs_disk s) rs \<and>
       indexed c z (cw_header w) rs (stable_of (fs_disk s) (cw_file w)) (v_objects (view cat))))"

definition same_chunk :: "chunk_writer \<Rightarrow> chunk_writer \<Rightarrow> bool" where
  "same_chunk w w' \<longleftrightarrow> cw_header w' = cw_header w \<and> cw_path w' = cw_path w \<and> cw_file w' = cw_file w"

lemma location_identity [simp]:
  "loc_generation (object_location_at h off r) = ch_generation h" "loc_chunk_id (object_location_at h off r) = ch_chunk_id h"
  "loc_offset (object_location_at h off r) = off"
  by (simp_all add: object_location_at_def location_of_def)

lemma front_read:
  assumes "disk_wf d" and "dk_names d p = Some i" and "prefix (chunk_front h (rs @ [r])) (data_of d i)" and "fits r"
    and "verify_object_record c z r = Inr ()"
  shows "outcome (read_record_at c z p (object_location_at h (word_of_nat (64 + length (encodings rs))) r)) d = Inr r"
proof -
  let ?off = "word_of_nat (64 + length (encodings rs)) :: u64"
  obtain x where x: "data_of d i = chunk_front h (rs @ [r]) @ x" using assms(3) by (rule prefixE)
  have "length (data_of d i) < file_size_limit"
    using inode_wf_at [OF assms(1) disk_wf_names [OF assms(1,2)]] by (simp add: inode_wf_def)
  then have off: "unat ?off = 64 + length (encodings rs)" using x by (intro unat_u64_of_nat) simp
  have "prefix (record_bytes r) (drop (unat ?off) (data_of d i))" unfolding off x by (simp add: chunk_front_def)
  moreover have "prefix (chunk_header_encode h) (data_of d i)" unfolding x by (simp add: chunk_front_def)
  moreover have "64 \<le> unat ?off" using off by linarith
  ultimately show ?thesis
    unfolding read_record_at_iff [OF assms(1)] location_identity using assms(2,4,5) by blast
qed

lemma indexed_read:
  assumes wf: "disk_wf d" and names: "dk_names d p = Some i" and front: "prefix durable (data_of d i)"
    and fit: "list_all fits rs" and idx: "indexed c z h rs durable objects"
    and loc: "objects cid = Some loc" "loc_generation loc = ch_generation h" "loc_chunk_id loc = ch_chunk_id h"
  shows "\<exists>r. outcome (read_record_at c z p loc) d = Inr r \<and> obj_content_id r = cid"
proof -
  obtain rs1 r rs2 where x: "rs = rs1 @ r # rs2" "loc = object_location_at h (word_of_nat (64 + length (encodings rs1))) r"
      "obj_content_id r = cid" "verify_object_record c z r = Inr ()" "prefix (chunk_front h (rs1 @ [r])) durable"
    using idx loc unfolding indexed_def by meson
  have "prefix (chunk_front h (rs1 @ [r])) (data_of d i)" using x(5) front by (rule prefix_order.trans)
  moreover have "fits r" using fit x(1) by simp
  ultimately show ?thesis using front_read [OF wf names] x(2,3,4) by blast
qed

lemma keeps_front_indexed:
  assumes "indexed c z h rs (stable_of d i) objects" and "keeps_front i (64 + length (encodings rs)) d d'"
  shows "indexed c z h (rs @ ss) (stable_of d' i) objects"
  using assms(2) by (intro indexed_keep [OF assms(1)]) (simp add: keeps_front_def)

lemma keeps_front_trans:
  assumes "keeps_front i n d d'" and "keeps_front i n d' d''"
  shows "keeps_front i n d d''"
proof -
  have "take n (take n (stable_of d i)) = take n (stable_of d i)" by simp
  moreover have "prefix (take n (take n (stable_of d i))) (take n (stable_of d' i))"
    using assms(1) by (auto simp: keeps_front_def prefix_def)
  ultimately have "prefix (take n (stable_of d i)) (take n (stable_of d' i))" by simp
  then show ?thesis using assms by (auto simp: keeps_front_def intro: prefix_order.trans)
qed

context catalog
begin

lemma apply_result:
  assumes "invar cat" and "batch_wf b" and "cat_apply ops b cat = (q, cat')"
  shows "invar cat'" and "q = Inl e \<Longrightarrow> view cat' = view cat" and "q = Inr u \<Longrightarrow> view_apply b (view cat) = Inr (view cat')"
  using refines_stepD [OF apply_refines [OF assms(2)] assms(1)] assms(3) by auto

lemma append_and_index_result:
  assumes inv: "chunk_inv c z invar view ((w, s), cat)" and r: "fits r" and repo: "repo_id_wf repo"
    and run: "cw_append_and_index c z ops repo g k r ((w, s), cat) = (q, ((w', s'), cat'))"
  shows "chunk_inv c z invar view ((w', s'), cat')" and "same_chunk w w'"
    and "q = Inr x \<Longrightarrow> v_aliases (view cat') (repo, obj_primary_oid r) = Some (obj_content_id r)"
    and "q = Inr (Some l) \<Longrightarrow>
      v_objects (view cat') = (v_objects (view cat))(obj_content_id r \<mapsto> object_location_at (cw_header w) (rl_offset l) r) \<and>
      cw_next_offset w = rl_offset l \<and> v_chunks (view cat') (g, k) =
        Some \<lparr>cm_state = Open, cm_size = cw_next_offset w', cm_record_count = cw_record_count w'\<rparr>"
    and "q = Inr None \<Longrightarrow> v_objects (view cat') = v_objects (view cat) \<and> v_objects (view cat) (obj_content_id r) \<noteq> None"
    and "q = Inr (Some l) \<Longrightarrow> verify_object_record c z r = Inr () \<and> \<not> v_rebuilding (view cat') \<and> (\<exists>rs. rl_offset l = word_of_nat (64 + length (encodings rs)) \<and>
      prefix (chunk_front (cw_header w) (rs @ [r])) (stable_of (fs_disk s') (cw_file w)))"
proof -
  let ?d = "fs_disk s" and ?i = "cw_file w" and ?h = "cw_header w"
  obtain rs where rs: "invar cat" "open_name (dk_names ?d) (cw_path w) ?i" "open_name (dk_durable ?d) (cw_path w) ?i" "writer_wf w ?d rs"
      "indexed c z ?h rs (stable_of ?d ?i) (v_objects (view cat))"
    using inv by (auto simp: chunk_inv_def)
  have off: "unat (cw_next_offset w) = 64 + length (encodings rs)" by (rule writer_wf_offset(1) [OF rs(4)])
  have rw: "object_record_wf r" "content_id_wf (obj_content_id r)" "git_oid_wf (obj_primary_oid r)"
    using r by (simp_all add: fits_def object_record_wf_def)
  have len: "length (obj_payload r) < u64_limit" using fits_payload [OF r] by simp
  have kept: "open_name (dk_names d') (cw_path w) ?i \<and> open_name (dk_durable d') (cw_path w) ?i \<and>
      indexed c z ?h (rs @ ss) (stable_of d' ?i) (v_objects (view cat))"
    if "keeps_front ?i (unat (cw_next_offset w)) ?d d'" for d' ss
    using that rs(2,3) keeps_front_indexed [OF rs(5), of d' ss] off by (simp add: keeps_front_def)
  have sync_wf: "keeps_front ?i (unat (cw_next_offset w)) ?d (sync_inode ?i d1)"
    if "keeps_front ?i (unat (cw_next_offset w)) ?d d1" "writer_wf w1 d1 rs1" "cw_file w1 = ?i" for d1 w1 rs1
    using keeps_front_trans [OF that(1)] writer_sync(2) [OF that(2)] that(3) by simp
  have file_kept: "same_chunk w w' \<and> writer_wf w' (fs_disk s') (rs @ ss) \<and> keeps_front ?i (unat (cw_next_offset w)) ?d (fs_disk s') \<Longrightarrow>
      indexed c z ?h (rs @ ss) (stable_of (fs_disk s') ?i) (v_objects (view cat')) \<Longrightarrow> invar cat' \<Longrightarrow>
      chunk_inv c z invar view ((w', s'), cat') \<and> same_chunk w w'" for ss
    using kept [of "fs_disk s'"] by (auto simp: chunk_inv_def same_chunk_def)
  have "(chunk_inv c z invar view ((w', s'), cat') \<and> same_chunk w w') \<and>
    (\<forall>x. q = Inr x \<longrightarrow> v_aliases (view cat') (repo, obj_primary_oid r) = Some (obj_content_id r)) \<and>
    (\<forall>l. q = Inr (Some l) \<longrightarrow>
      v_objects (view cat') = (v_objects (view cat))(obj_content_id r \<mapsto> object_location_at ?h (rl_offset l) r) \<and>
      cw_next_offset w = rl_offset l \<and> v_chunks (view cat') (g, k) =
        Some \<lparr>cm_state = Open, cm_size = cw_next_offset w', cm_record_count = cw_record_count w'\<rparr>) \<and>
    (q = Inr None \<longrightarrow> v_objects (view cat') = v_objects (view cat) \<and> v_objects (view cat) (obj_content_id r) \<noteq> None) \<and>
    (\<forall>l. q = Inr (Some l) \<longrightarrow> verify_object_record c z r = Inr () \<and> \<not> v_rebuilding (view cat') \<and> (\<exists>rs. rl_offset l = word_of_nat (64 + length (encodings rs)) \<and>
      prefix (chunk_front ?h (rs @ [r])) (stable_of (fs_disk s') ?i)))"
    using run len
  proof (cases rule: append_and_index_cases)
    case (refused e)
    then show ?thesis using inv by (simp add: same_chunk_def)
  next
    case (aliased q1)
    have "batch_wf (put_oid_alias repo (obj_primary_oid r) (obj_content_id r) batch_new)"
      using rw repo by (simp add: batch_wf_def batch_defs)
    note ap = apply_result [OF rs(1) this aliased(4)]
    have "v_objects (view cat') = v_objects (view cat)"
      using ap(2,3) view_apply_alias(1) by (cases q1) auto
    moreover have "v_objects (view cat) (obj_content_id r) \<noteq> None"
      using aliased(1) object_location [OF rs(1) rw(2)] by (auto split: if_splits)
    moreover have "q = Inr y \<Longrightarrow> y = None \<and> v_aliases (view cat') (repo, obj_primary_oid r) = Some (obj_content_id r)" for y
      using aliased(5) view_apply_alias(2) [OF ap(3)] by (auto simp: ok_iff)
    ultimately show ?thesis using inv aliased(2,3) ap(1) by (auto simp: chunk_inv_def same_chunk_def)
  next
    case (append_failed e)
    note ap = cw_append_result [OF rs(4) r append_failed(1)]
    show ?thesis using file_kept [of "[]"] ap(1,2) kept [OF ap(1), of "[]"] append_failed(2,3) rs(1) by (simp add: same_chunk_def)
  next
    case (sync_failed e l s1)
    note ap = cw_append_result [OF rs(4) r sync_failed(1)]
    have d: "fs_disk s' = fs_disk s1" using sync_failed(2) by (cases rule: sync_data_cases) auto
    have "same_chunk w w'" "writer_wf w' (fs_disk s1) (rs @ [r])" using ap(3) by (auto simp: same_chunk_def)
    then show ?thesis using file_kept [of "[r]"] ap(1) kept [OF ap(1), of "[r]"] sync_failed(3,4) rs(1) d by simp
  next
    case (appended l s1 q1)
    note ap = cw_append_result [OF rs(4) r appended(4)]
    have l: "verify_object_record c z r = Inr ()" "l = \<lparr>rl_offset = cw_next_offset w, rl_record_length = word_of_nat (length (record_bytes r))\<rparr>"
        "writer_wf w' (fs_disk s1) (rs @ [r])" "same_chunk w w'"
      using ap(3) by (auto simp: same_chunk_def)
    have d: "fs_disk s' = sync_inode ?i (fs_disk s1)"
      using appended(5) l(4) by (cases rule: sync_data_cases) (auto simp: same_chunk_def)
    have fl: "keeps_front ?i (unat (cw_next_offset w)) ?d (fs_disk s')" "writer_wf w' (fs_disk s') (rs @ [r])"
        "stable_of (fs_disk s') ?i = data_of (fs_disk s1) ?i"
      using sync_wf [OF ap(1) l(3)] writer_sync(1,3) [OF l(3)] l(4) d by (simp_all add: same_chunk_def)
    have front: "prefix (chunk_front ?h (rs @ [r])) (stable_of (fs_disk s') ?i)"
      using l(3,4) fl(3) by (simp add: writer_wf_def same_chunk_def)
    have loc: "location_of g k l (word_of_nat (length (obj_payload r))) r = object_location_at ?h (word_of_nat (64 + length (encodings rs))) r"
        "cw_next_offset w = word_of_nat (64 + length (encodings rs))"
      using appended(2,3) l(2) rs(4) by (simp_all add: object_location_at_def writer_wf_def)
    have "batch_wf (put_chunk g k \<lparr>cm_state = Open, cm_size = cw_next_offset w', cm_record_count = cw_record_count w'\<rparr>
         (put_oid_alias repo (obj_primary_oid r) (obj_content_id r)
         (put_object_location (obj_content_id r) (location_of g k l (word_of_nat (length (obj_payload r))) r) batch_new)))"
      using rw repo by (simp add: batch_wf_def batch_defs)
    note cat = apply_result [OF rs(1) this appended(6)]
    note base = conjunct2 [OF conjunct2 [OF kept [OF fl(1), of "[r]"]]]
    show ?thesis
    proof (cases q1)
      case (Inl e)
      then show ?thesis using file_kept [of "[r]"] fl(1,2) l(4) base cat(1,2) appended(7) by simp
    next
      case (Inr u)
      note v = view_apply_index [OF cat(3) [OF Inr]]
      have "indexed c z ?h (rs @ [r]) (stable_of (fs_disk s') ?i) (v_objects (view cat'))"
        unfolding v(1) loc(1) by (rule indexed_put [OF base front l(1)])
      moreover have "\<exists>rs. cw_next_offset w = word_of_nat (64 + length (encodings rs)) \<and> prefix (chunk_front ?h (rs @ [r])) (stable_of (fs_disk s') ?i)"
        using loc(2) front by blast
      ultimately show ?thesis using file_kept [of "[r]"] fl(1,2) l(1,2,4) cat(1) appended(7) Inr v(2,3,4,5) v(1) [unfolded loc(1)] loc(2)
        by simp
    qed
  qed
  then show "chunk_inv c z invar view ((w', s'), cat')" and "same_chunk w w'"
    and "q = Inr x \<Longrightarrow> v_aliases (view cat') (repo, obj_primary_oid r) = Some (obj_content_id r)"
    and "q = Inr (Some l) \<Longrightarrow>
      v_objects (view cat') = (v_objects (view cat))(obj_content_id r \<mapsto> object_location_at (cw_header w) (rl_offset l) r) \<and>
      cw_next_offset w = rl_offset l \<and> v_chunks (view cat') (g, k) =
        Some \<lparr>cm_state = Open, cm_size = cw_next_offset w', cm_record_count = cw_record_count w'\<rparr>"
    and "q = Inr None \<Longrightarrow> v_objects (view cat') = v_objects (view cat) \<and> v_objects (view cat) (obj_content_id r) \<noteq> None"
    and "q = Inr (Some l) \<Longrightarrow> verify_object_record c z r = Inr () \<and> \<not> v_rebuilding (view cat') \<and> (\<exists>rs. rl_offset l = word_of_nat (64 + length (encodings rs)) \<and>
      prefix (chunk_front (cw_header w) (rs @ [r])) (stable_of (fs_disk s') (cw_file w)))"
    by blast+
qed

end

end
