(* ===== verification/Lifecycle.thy ===== *)
theory Lifecycle
  imports WriterLaws
begin

text \<open>
  The life of one chunk: created, appended to, sealed or reopened, with crashes and failing calls
  anywhere.  \<open>tier_inv\<close> is what always holds of the disk and the catalog, and every function of the
  store keeps it for every schedule of faults.
\<close>

section \<open>What always holds of a chunk\<close>

definition chunk_named :: "(path \<rightharpoonup> nat) \<Rightarrow> path \<Rightarrow> nat \<Rightarrow> bool" where
  "chunk_named names p i \<longleftrightarrow> open_name names p i \<or> sealed_name names p i"

definition tier_files ::
  "'h crypto \<Rightarrow> zstd \<Rightarrow> chunk_header \<Rightarrow> path \<Rightarrow> nat \<Rightarrow> (content_id \<rightharpoonup> object_location) \<Rightarrow> disk \<Rightarrow> bool" where
  "tier_files c z h p i objects d \<longleftrightarrow> disk_wf d \<and> i < length (dk_inodes d) \<and>
     chunk_named (dk_names d) p i \<and>
     (open_name (dk_durable d) p i \<or> sealed_name (dk_durable d) p i \<and> sealed_name (dk_names d) p i) \<and>
     (\<exists>rs. list_all fits rs \<and> indexed c z h rs (stable_of d i) objects)"

definition tier_inv ::
  "'h crypto \<Rightarrow> zstd \<Rightarrow> ('c \<Rightarrow> bool) \<Rightarrow> ('c \<Rightarrow> catalog_view) \<Rightarrow> chunk_header \<Rightarrow> path \<Rightarrow> nat \<Rightarrow> fs \<times> 'c \<Rightarrow> bool" where
  "tier_inv c z invar view h p i sc \<longleftrightarrow> invar (snd sc) \<and> tier_files c z h p i (v_objects (view (snd sc))) (fs_disk (fst sc))"

lemma chunk_inv_tier:
  assumes "chunk_inv c z invar view ((w, s), cat)"
  shows "tier_inv c z invar view (cw_header w) (cw_path w) (cw_file w) (s, cat)"
  using assms by (auto simp: chunk_inv_def tier_inv_def tier_files_def chunk_named_def writer_wf_def)

lemma indexed_mono: "indexed c z h rs durable objects \<Longrightarrow> prefix durable durable' \<Longrightarrow> indexed c z h rs durable' objects"
  using indexed_keep [of c z h rs durable objects durable' "[]"] take_is_prefix [of "64 + length (encodings rs)" durable]
  by (metis append_Nil2 prefix_order.trans)

text \<open>A crash keeps it, whatever it leaves of the bytes and the names that were not durable.\<close>

lemma tier_files_crash:
  assumes "tier_files c z h p i objects d" and "crash d d'"
  shows "tier_files c z h p i objects d'"
proof -
  have d: "disk_wf d'" "i < length (dk_inodes d')" using assms by (auto simp: tier_files_def crash_def crash_wf)
  have "prefix (stable_of d i) (stable_of d' i)" using assms by (auto simp: tier_files_def crash_def)
  moreover have "dk_names d' = dk_names d \<or> dk_names d' = dk_durable d" "dk_durable d' = dk_names d'"
    using assms(2) by (auto simp: crash_def)
  ultimately show ?thesis using assms(1) d indexed_mono unfolding tier_files_def chunk_named_def by metis
qed

text \<open>What it is good for: every location the catalog has for the chunk can be read, now and after a crash.\<close>

lemma tier_files_read:
  assumes t: "tier_files c z h p i objects d" and loc: "objects cid = Some loc"
      "loc_generation loc = ch_generation h" "loc_chunk_id loc = ch_chunk_id h"
  shows "\<exists>path \<in> {p, with_extension p ''sealed''}. \<exists>r. outcome (read_record_at c z path loc) d = Inr r \<and> obj_content_id r = cid"
proof -
  obtain rs where rs: "list_all fits rs" "indexed c z h rs (stable_of d i) objects" and d: "disk_wf d" "i < length (dk_inodes d)"
    and n: "chunk_named (dk_names d) p i" using t by (auto simp: tier_files_def)
  have "prefix (stable_of d i) (data_of d i)" using inode_wf_at [OF d] by (simp add: inode_wf_def)
  then have "dk_names d path = Some i \<Longrightarrow> \<exists>r. outcome (read_record_at c z path loc) d = Inr r \<and> obj_content_id r = cid" for path
    using indexed_read [OF d(1) _ _ rs loc] by blast
  then show ?thesis using n by (auto simp: chunk_named_def open_name_def sealed_name_def)
qed

section \<open>Keeping it\<close>

lemma keeps_on_fst: "(\<And>t. keeps (\<lambda>s. P (s, t)) m) \<Longrightarrow> keeps P (on_fst m)"
  by (force simp: keeps_def on_fst_def split: prod.splits)

lemma keeps_on_snd: "(\<And>s. keeps (\<lambda>t. P (s, t)) m) \<Longrightarrow> keeps P (on_snd m)"
  by (force simp: keeps_def on_snd_def split: prod.splits)

lemma keeps_ask [intro, simp]: "keeps P (ask f)"
  by (simp add: keeps_def)

lemma keeps_io: "keeps P m \<Longrightarrow> keeps P (io m)"
  by (force simp: keeps_def io_def split: prod.splits)

lemma keeps_attempt: "keeps P m \<Longrightarrow> keeps P (attempt m)"
  by (force simp: keeps_def attempt_def split: prod.splits)

lemma keeps_if: "(b \<Longrightarrow> keeps P m) \<Longrightarrow> (\<not> b \<Longrightarrow> keeps P n) \<Longrightarrow> keeps P (if b then m else n)"
  by simp

lemma keeps_case_sum: "(\<And>x. keeps P (f x)) \<Longrightarrow> (\<And>y. keeps P (g y)) \<Longrightarrow> keeps P (case r of Inl x \<Rightarrow> f x | Inr y \<Rightarrow> g y)"
  by (cases r) auto

lemma keeps_case_prod: "(\<And>x y. keeps P (f x y)) \<Longrightarrow> keeps P (case q of (x, y) \<Rightarrow> f x y)"
  by (cases q) auto

lemma keeps_read_only: "read_only i m \<Longrightarrow> keeps (\<lambda>s. P (fs_disk s)) m"
  by (auto simp: keeps_def read_only_def)

lemma keeps_path_exists: "keeps (\<lambda>s. P (fs_disk s)) (path_exists p)"
  by (auto simp: keeps_def path_exists_def next_fault_def split: list.splits fault.splits)

lemma keeps_fallible: "(\<And>d. P d \<Longrightarrow> P (snd (m d))) \<Longrightarrow> keeps (\<lambda>s. P (fs_disk s)) (fallible m)"
  by (auto simp: keeps_def elim: fallible_cases)
     (metis fallible_cases prod.collapse)

lemma open_sealed_path:
  assumes "is_open_path p"
  shows "is_sealed_path (with_extension p ''sealed'')" and "path_parent (with_extension p ''sealed'') = path_parent p"
    and "with_extension (with_extension p ''sealed'') ''open'' = p" and "with_extension p ''sealed'' \<noteq> p"
    and "\<not> is_open_path (with_extension p ''sealed'')"
  using with_extension [of p "''open''" "''sealed''"] assms by (simp_all add: is_open_path_def is_sealed_path_def)

lemma update_other:
  assumes "tier_files c z h p i objects d" and "j \<noteq> i" and "disk_wf (update_inode j f d)"
  shows "tier_files c z h p i objects (update_inode j f d)"
  using assms by (auto simp: tier_files_def)

lemma keeps_sync_data: "keeps (\<lambda>s. tier_files c z h p i objects (fs_disk s)) (sync_data j)"
  unfolding sync_data_def
proof (rule keeps_fallible, simp only: snd_conv)
  fix d
  assume t: "tier_files c z h p i objects d"
  have wf: "disk_wf (sync_inode j d)" using t by (simp add: tier_files_def sync_inode_wf)
  show "tier_files c z h p i objects (sync_inode j d)"
  proof (cases "j = i")
    case True
    have d: "disk_wf d" "i < length (dk_inodes d)" using t by (simp_all add: tier_files_def)
    then have "prefix (stable_of d i) (data_of d i)" using inode_wf_at by (auto simp: inode_wf_def)
    then have "\<exists>rs. list_all fits rs \<and> indexed c z h rs (data_of d i) objects"
      using t indexed_mono unfolding tier_files_def by meson
    then show ?thesis using t wf d True by (simp add: tier_files_def)
  qed (rule update_other [OF t _ wf])
qed

lemma keeps_set_len_other:
  assumes "j \<noteq> i"
  shows "keeps (\<lambda>s. tier_files c z h p i objects (fs_disk s)) (set_len j n)"
  unfolding set_len_def
proof (rule keeps_fallible)
  fix d
  assume t: "tier_files c z h p i objects d"
  show "tier_files c z h p i objects (snd (if file_size_limit \<le> unat n then (Inl (IoError InvalidInput ''file too large''), d)
      else (Inr (), truncate_inode j (unat n) d)))"
    using t assms update_other [OF t assms truncate_inode_wf] by (simp add: tier_files_def)
qed

lemma keeps_rename:
  assumes "is_open_path p"
  shows "keeps (\<lambda>s. tier_files c z h p i objects (fs_disk s)) (rename_file p (with_extension p ''sealed''))"
  unfolding rename_file_def
proof (rule keeps_fallible)
  fix d
  assume t: "tier_files c z h p i objects d"
  show "tier_files c z h p i objects (snd (case dk_names d p of
      None \<Rightarrow> (Inl (IoError NotFound ''no such file''), d)
    | Some j \<Rightarrow> (Inr (), d\<lparr>dk_names := (dk_names d)(p := None, with_extension p ''sealed'' \<mapsto> j)\<rparr>)))"
  proof (cases "dk_names d p")
    case (Some j)
    then have "j = i" using t by (auto simp: tier_files_def chunk_named_def open_name_def sealed_name_def)
    then show ?thesis
      using t Some open_sealed_path(4) [OF assms]
      by (auto simp: tier_files_def chunk_named_def open_name_def sealed_name_def disk_wf_def)
  qed (use t in simp)
qed

lemma keeps_sync_dir:
  assumes "is_open_path p"
  shows "keeps (\<lambda>s. tier_files c z h p i objects (fs_disk s)) (sync_dir dir)"
  unfolding sync_dir_def
proof (rule keeps_fallible, simp only: snd_conv)
  fix d
  assume t: "tier_files c z h p i objects d"
  let ?d = "d\<lparr>dk_durable := \<lambda>q. if path_parent q = Some dir then dk_names d q else dk_durable d q\<rparr>"
  have "open_name (dk_durable ?d) p i \<or> sealed_name (dk_durable ?d) p i \<and> sealed_name (dk_names ?d) p i"
    using t open_sealed_path(2) [OF assms] by (auto simp: tier_files_def chunk_named_def open_name_def sealed_name_def)
  moreover have "disk_wf ?d" using t by (auto simp: tier_files_def disk_wf_def)
  ultimately show "tier_files c z h p i objects ?d" using t by (simp add: tier_files_def)
qed

section \<open>Recovery\<close>

lemma recovered_front:
  assumes "data = chunk_header_encode h @ body" and "split_records body = (rs, t)" and "list_all fits (xs @ [r])"
    and "prefix (chunk_front h (xs @ [r])) data"
  shows "\<exists>ys. rs = xs @ r # ys"
proof -
  obtain y where "body = encodings (xs @ [r]) @ y"
    using assms(1,4) by (auto simp: chunk_front_def prefix_def)
  then have "split_records body = (case split_records y of (rs', t') \<Rightarrow> ((xs @ [r]) @ rs', t'))"
    using split_records_append [OF assms(3), of y] by simp
  then show ?thesis using assms(2) by (auto split: prod.splits)
qed

lemma recovered_indexed:
  assumes data: "data = chunk_header_encode h @ body" and split: "split_records body = (rs', t)"
    and front: "prefix durable data" and idx: "indexed c z h rs durable objects" and fit: "list_all fits rs"
  shows "indexed c z h rs' (take (64 + length (encodings rs')) durable) objects"
  unfolding indexed_def
proof (intro conjI allI impI)
  show "prefix (chunk_header_encode h) (take (64 + length (encodings rs')) durable)"
    using idx by (auto simp: indexed_def prefix_def)
next
  fix cid loc
  assume "objects cid = Some loc" "loc_generation loc = ch_generation h" "loc_chunk_id loc = ch_chunk_id h"
  then obtain xs r ys where x: "rs = xs @ r # ys" "loc = object_location_at h (word_of_nat (64 + length (encodings xs))) r"
      "obj_content_id r = cid" "verify_object_record c z r = Inr ()" "prefix (chunk_front h (xs @ [r])) durable"
    using idx unfolding indexed_def by meson
  have "prefix (chunk_front h (xs @ [r])) data" using x(5) front by (rule prefix_order.trans)
  then obtain zs where zs: "rs' = xs @ r # zs" using recovered_front [OF data split] fit x(1) by auto
  then have "prefix (chunk_front h (xs @ [r])) (take (64 + length (encodings rs')) durable)"
    using x(5) by (auto simp: prefix_def)
  then show "\<exists>xs r ys. rs' = xs @ r # ys \<and> loc = object_location_at h (word_of_nat (64 + length (encodings xs))) r \<and>
      obj_content_id r = cid \<and> verify_object_record c z r = Inr () \<and>
      prefix (chunk_front h (xs @ [r])) (take (64 + length (encodings rs')) durable)"
    using x zs by blast
qed

lemma recover_file_tier:
  assumes t: "tier_files c z h p i objects (fs_disk s)" and run: "recover_file c z i s = (q, s')"
  shows "tier_files c z h p i objects (fs_disk s')" and "dk_names (fs_disk s') = dk_names (fs_disk s)"
    and "dk_durable (fs_disk s') = dk_durable (fs_disk s)"
    and "q = Inr rec \<Longrightarrow> \<exists>rs t. rec = recovery_of h rs t \<and> data_of (fs_disk s') i = chunk_front h rs \<and> list_all fits rs \<and>
      indexed c z h rs (stable_of (fs_disk s') i) objects"
proof -
  let ?d = "fs_disk s" and ?d' = "fs_disk s'"
  have d: "disk_wf ?d" "i < length (dk_inodes ?d)" using t by (simp_all add: tier_files_def)
  obtain rs0 where rs0: "list_all fits rs0" "indexed c z h rs0 (stable_of ?d i) objects" using t by (auto simp: tier_files_def)
  have iw: "prefix (stable_of ?d i) (data_of ?d i)" "length (data_of ?d i) < file_size_limit"
    using inode_wf_at [OF d] by (simp_all add: inode_wf_def)
  have "prefix (chunk_header_encode h) (data_of ?d i)" using rs0(2) iw(1) prefix_order.trans unfolding indexed_def by blast
  then obtain body where body: "data_of ?d i = chunk_header_encode h @ body" by (rule prefixE)
  obtain rs t where sp: "split_records body = (rs, t)" by fastforce
  note ss = split_records_sound [OF sp]
  have idx: "indexed c z h rs (take (64 + length (encodings rs)) (stable_of ?d i)) objects"
    by (rule recovered_indexed [OF body sp iw(1) rs0(2,1)])
  let ?tr = "truncated i rs ?d"
  have size: "64 + length (encodings rs) < file_size_limit" using iw(2) body ss(1) by simp
  have tr: "disk_wf ?tr" "disk_wf (sync_inode i ?tr)" "length (dk_inodes ?tr) = length (dk_inodes ?d)"
      "dk_names ?tr = dk_names ?d" "dk_durable ?tr = dk_durable ?d"
    using truncate_inode_wf [OF d(1) size] by (simp_all add: truncated_def sync_inode_wf)
  note td = truncated_data [OF body sp d(2)]
  note run' = contractD [OF recover_file_contract [OF body iw(2) sp, of c z], of s, OF refl]
  have tier_tr: "tier_files c z h p i objects ?tr"
    using t tr td(2) idx ss(2) by (auto simp: tier_files_def)
  have "prefix (take (64 + length (encodings rs)) (stable_of ?d i)) (take (64 + length (encodings rs)) (data_of ?d i))"
    using iw(1) by (auto simp: prefix_def)
  moreover have "take (64 + length (encodings rs)) (data_of ?d i) = chunk_front h rs"
    unfolding body ss(1) by (simp add: chunk_front_def)
  ultimately have idx_full: "indexed c z h rs (chunk_front h rs) objects" using indexed_mono [OF idx] by simp
  have "tier_files c z h p i objects ?d' \<and> dk_names ?d' = dk_names ?d \<and> dk_durable ?d' = dk_durable ?d \<and>
    (\<forall>rec. q = Inr rec \<longrightarrow> (\<exists>rs t. rec = recovery_of h rs t \<and> data_of ?d' i = chunk_front h rs \<and> list_all fits rs \<and>
      indexed c z h rs (stable_of ?d' i) objects))"
  proof (cases q)
    case (Inl e)
    then have "?d' = ?d \<or> ?d' = ?tr" using run'(2) run by simp
    then show ?thesis using t tier_tr tr Inl by auto
  next
    case (Inr rec)
    have ok: "rec = recovery_of h rs t" "?d' = (if t = [] then ?d else sync_inode i ?tr)" using run'(1) run Inr by simp_all
    show ?thesis
    proof (cases "t = []")
      case True
      have "indexed c z h rs (stable_of ?d i) objects" by (rule indexed_mono [OF idx take_is_prefix])
      then show ?thesis using ok True t Inr body ss by (auto simp: chunk_front_def)
    next
      case False
      have "data_of ?d' i = chunk_front h rs" "stable_of ?d' i = chunk_front h rs"
        using ok False td(1) tr(3) d(2) by (simp_all add: chunk_front_def)
      then show ?thesis using ok False t tr idx_full ss(2) Inr by (auto simp: tier_files_def)
    qed
  qed
  then show "tier_files c z h p i objects ?d'" and "dk_names ?d' = dk_names ?d" and "dk_durable ?d' = dk_durable ?d"
    and "q = Inr rec \<Longrightarrow> \<exists>rs t. rec = recovery_of h rs t \<and> data_of ?d' i = chunk_front h rs \<and> list_all fits rs \<and>
      indexed c z h rs (stable_of ?d' i) objects" by blast+
qed

lemma keeps_recover_file: "keeps (\<lambda>s. tier_files c z h p i objects (fs_disk s)) (recover_file c z j)"
proof (cases "j = i")
  case True
  have "tier_files c z h p i objects (fs_disk (snd (recover_file c z i s)))" if "tier_files c z h p i objects (fs_disk s)" for s
    using recover_file_tier(1) [OF that] by (metis prod.collapse)
  then show ?thesis using True by (simp add: keeps_def)
next
  case False
  note ro = keeps_read_only [where P = "tier_files c z h p i objects"]
  show ?thesis
    unfolding recover_file_def
    by (intro keeps_seq_eff keeps_if keeps_io keeps_set_len_other keeps_sync_data ro [OF read_only_read_chunk_header]
        ro [OF read_only_file_ops(2)] ro [OF scan_records_read_only(2)] keeps_ret False)
qed

lemma keeps_open_recovered: "keeps (\<lambda>s. tier_files c z h p i objects (fs_disk s)) (cw_open_recovered c z q)"
proof -
  note ro = keeps_read_only [where P = "tier_files c z h p i objects"]
  show ?thesis
    unfolding cw_open_recovered_def
    by (intro keeps_seq_eff keeps_if keeps_io keeps_attempt keeps_recover_file ro [OF read_only_file_ops(1)]
        ro [OF read_only_file_ops(2)] ro [OF verify_sealed_read_only(2)] keeps_ret keeps_raise)
qed

lemma open_recovered_result:
  assumes t: "tier_files c z h p i objects (fs_disk s)" and run: "cw_open_recovered c z p s = (Inr (w, rec), s')"
  shows "cw_header w = h \<and> cw_path w = p \<and> cw_file w = i \<and> dk_names (fs_disk s') = dk_names (fs_disk s) \<and>
    dk_durable (fs_disk s') = dk_durable (fs_disk s) \<and> open_name (dk_names (fs_disk s)) p i \<and>
    open_name (dk_durable (fs_disk s)) p i \<and> (\<exists>rs. writer_wf w (fs_disk s') rs \<and> indexed c z h rs (stable_of (fs_disk s') i) objects)"
proof -
  obtain j s1 sealed s2 s3 n s4 where st: "open_file p s = (Inr j, s1)" "verify_sealed_file c z j s1 = (sealed, s2)"
      "recover_file c z j s2 = (Inr rec, s3)" "file_len j s3 = (Inr n, s')"
      "w = \<lparr>cw_path = p, cw_file = j, cw_header = rec_header rec, cw_next_offset = n,
            cw_record_count = rec_valid_records rec, cw_records_crc32c = rec_records_crc32c rec\<rparr>"
    using run
    by (auto simp: cw_open_recovered_def io_def attempt_def map_err_Inr_iff simp del: seq_eff_ok_iff elim!: seq_okE
        split: if_split_asm prod.split_asm)
  note O = read_onlyD [OF read_only_file_ops(1) st(1)]
  note V = read_onlyD [OF verify_sealed_read_only(2) st(2)]
  note L = read_onlyD [OF read_only_file_ops(2) st(4)]
  have j: "dk_names (fs_disk s) p = Some j" using O(3) by (auto split: option.splits)
  then have ji: "j = i" and nm: "open_name (dk_names (fs_disk s)) p i" "open_name (dk_durable (fs_disk s)) p i"
    using t by (auto simp: tier_files_def chunk_named_def open_name_def sealed_name_def)
  have "tier_files c z h p i objects (fs_disk s2)" using t O(1) V(1) by simp
  note R = recover_file_tier [OF this st(3) [unfolded ji]]
  obtain rs u where rs: "rec = recovery_of h rs u" "data_of (fs_disk s3) i = chunk_front h rs" "list_all fits rs"
      "indexed c z h rs (stable_of (fs_disk s3) i) objects" using R(4) by blast
  have d: "disk_wf (fs_disk s3)" "i < length (dk_inodes (fs_disk s3))" using R(1) by (simp_all add: tier_files_def)
  have "n = word_of_nat (64 + length (encodings rs))" using L(3) rs(2) ji by simp
  then have "writer_wf w (fs_disk s') rs"
    using rs d L(1) st(5) ji by (simp add: writer_wf_def recovery_of_def)
  then show ?thesis using st(5) ji nm rs R(2,3) L(1) O(1) V(1) by (auto simp: recovery_of_def)
qed

section \<open>Sealing\<close>

definition seal_ready :: "'h crypto \<Rightarrow> zstd \<Rightarrow> (content_id \<rightharpoonup> object_location) \<Rightarrow> chunk_writer \<Rightarrow> object_record list \<Rightarrow> disk \<Rightarrow> bool" where
  "seal_ready c z objects w rs d \<longleftrightarrow> tier_files c z (cw_header w) (cw_path w) (cw_file w) objects d \<and> writer_wf w d rs \<and>
     indexed c z (cw_header w) rs (stable_of d (cw_file w)) objects"

lemma seal_ready_front:
  assumes "seal_ready c z objects w rs d" and "writer_wf w d' rs" and "keeps_front (cw_file w) (unat (cw_next_offset w)) d d'"
  shows "seal_ready c z objects w rs d'"
proof -
  have "indexed c z (cw_header w) (rs @ []) (stable_of d' (cw_file w)) objects"
    using assms(1,3) writer_wf_offset(1) [OF assms(2)] by (intro keeps_front_indexed [of c z _ rs d]) (simp_all add: seal_ready_def)
  then show ?thesis using assms by (auto simp: seal_ready_def tier_files_def keeps_front_def writer_wf_def)
qed

lemma seal_ready_names:
  assumes "seal_ready c z objects w rs d" and "tier_files c z (cw_header w) (cw_path w) (cw_file w) objects d'"
    and "dk_inodes d' = dk_inodes d"
  shows "seal_ready c z objects w rs d'"
  using assms by (auto simp: seal_ready_def tier_files_def writer_wf_def)

lemma keeps_seal_sync: "keeps (\<lambda>s. seal_ready c z objects w rs (fs_disk s)) (sync_data (cw_file w))"
  unfolding keeps_def
proof (intro allI impI)
  fix s :: fs
  assume r: "seal_ready c z objects w rs (fs_disk s)"
  obtain q s' where run: "sync_data (cw_file w) s = (q, s')" by fastforce
  then have "fs_disk s' = fs_disk s \<or> fs_disk s' = sync_inode (cw_file w) (fs_disk s)" by (cases rule: sync_data_cases) auto
  moreover have "seal_ready c z objects w rs (sync_inode (cw_file w) (fs_disk s))"
    using r by (intro seal_ready_front [OF r] writer_sync [of w _ rs]) (simp_all add: seal_ready_def)
  ultimately show "seal_ready c z objects w rs (fs_disk (snd (sync_data (cw_file w) s)))" using r run by auto
qed

lemma seal_ready_write:
  assumes "seal_ready c z objects w rs d" and "unat (cw_next_offset w) + length bs < file_size_limit"
  shows "seal_ready c z objects w rs (write_inode (cw_file w) (unat (cw_next_offset w)) bs d)"
proof (rule seal_ready_front [OF assms(1)])
  have w: "writer_wf w d rs" using assms(1) by (simp add: seal_ready_def)
  note ww = writer_write [OF w assms(2)]
  show "keeps_front (cw_file w) (unat (cw_next_offset w)) d (write_inode (cw_file w) (unat (cw_next_offset w)) bs d)" by (rule ww(3))
  show "writer_wf w (write_inode (cw_file w) (unat (cw_next_offset w)) bs d) rs"
    using ww(1,2) w append_prefixD [of "chunk_front (cw_header w) rs"] by (simp add: writer_wf_def)
qed

lemma keeps_seal_write: "keeps (\<lambda>s. seal_ready c z objects w rs (fs_disk s)) (write_all_at (cw_file w) (cw_next_offset w) bs)"
  unfolding keeps_def
proof (intro allI impI)
  fix s :: fs
  assume r: "seal_ready c z objects w rs (fs_disk s)"
  obtain q s' where run: "write_all_at (cw_file w) (cw_next_offset w) bs s = (q, s')" by fastforce
  then have "seal_ready c z objects w rs (fs_disk s')"
    by (cases rule: write_all_at_cases) (use r seal_ready_write [OF r] in auto)
  then show "seal_ready c z objects w rs (fs_disk (snd (write_all_at (cw_file w) (cw_next_offset w) bs s)))" using run by simp
qed

lemma keeps_seal_named:
  fixes m :: "(fs, 'e, 'a) eff"
  assumes "keeps (\<lambda>s. tier_files c z (cw_header w) (cw_path w) (cw_file w) objects (fs_disk s)) m"
    and "\<And>s. dk_inodes (fs_disk (snd (m s))) = dk_inodes (fs_disk s)"
  shows "keeps (\<lambda>s. seal_ready c z objects w rs (fs_disk s)) m"
  unfolding keeps_def
proof (intro allI impI)
  fix s :: fs
  assume r: "seal_ready c z objects w rs (fs_disk s)"
  show "seal_ready c z objects w rs (fs_disk (snd (m s)))"
    by (rule seal_ready_names [OF r _ assms(2)]) (use r assms(1) in \<open>simp add: keeps_def seal_ready_def\<close>)
qed

lemma names_ops_inodes:
  "dk_inodes (fs_disk (snd (rename_file a b s))) = dk_inodes (fs_disk s)"
  "dk_inodes (fs_disk (snd (sync_dir dir s))) = dk_inodes (fs_disk s)"
  by (simp_all add: rename_file_def sync_dir_def fallible_def next_fault_def split: list.splits fault.splits option.splits)

lemma keeps_seal_file:
  assumes "is_open_path (cw_path w)"
  shows "keeps (\<lambda>s. seal_ready c z objects w rs (fs_disk s)) (seal_file w (with_extension (cw_path w) ''sealed'') footer)"
  unfolding seal_file_def
  by (intro keeps_seq_eff keeps_io keeps_seal_sync keeps_seal_write keeps_lift_result
      keeps_seal_named [OF keeps_rename [OF assms]] keeps_seal_named [OF keeps_sync_dir [OF assms]] names_ops_inodes)

section \<open>The whole tier\<close>

lemma keeps_tier_files:
  assumes "keeps (\<lambda>s. tier_files c z h p i (v_objects (view cat)) (fs_disk s)) m"
  shows "keeps (\<lambda>s. tier_inv c z invar view h p i (s, cat)) m"
  using assms by (auto simp: keeps_def tier_inv_def)

lemma keeps_tier_catalog:
  assumes "\<And>objects. keeps (\<lambda>cat. invar cat \<and> v_objects (view cat) = objects) m"
  shows "keeps (\<lambda>cat. tier_inv c z invar view h p i (s, cat)) m"
  using assms by (auto simp: keeps_def tier_inv_def)

definition seal_tier ::
  "'h crypto \<Rightarrow> zstd \<Rightarrow> ('c \<Rightarrow> bool) \<Rightarrow> ('c \<Rightarrow> catalog_view) \<Rightarrow> chunk_writer \<Rightarrow> object_record list
    \<Rightarrow> (content_id \<rightharpoonup> object_location) \<Rightarrow> fs \<times> 'c \<Rightarrow> bool" where
  "seal_tier c z invar view w rs objects sc \<longleftrightarrow> (invar (snd sc) \<and> v_objects (view (snd sc)) = objects) \<and>
     seal_ready c z objects w rs (fs_disk (fst sc))"

lemma keeps_seal_tier:
  "keeps (\<lambda>s. seal_ready c z objects w rs (fs_disk s)) m \<Longrightarrow> keeps (seal_tier c z invar view w rs objects) (on_fst m)"
  "keeps (\<lambda>cat. invar cat \<and> v_objects (view cat) = objects) n \<Longrightarrow> keeps (seal_tier c z invar view w rs objects) (on_snd n)"
  by (force simp: keeps_def seal_tier_def on_fst_def on_snd_def split: prod.splits)+

lemma seq_lift_Inr: "seq_eff (lift_result (Inr x)) f = f x"
  by (simp add: fun_eq_iff)

lemma chunk_path_pair_of:
  assumes "is_open_path p" and "q = p \<or> q = with_extension p ''sealed''"
  shows "chunk_path_pair q = Inr (p, with_extension p ''sealed'')"
  using assms open_sealed_path [OF assms(1)] by (auto simp: chunk_path_pair_def)

context catalog
begin

lemma keeps_publish:
  "keeps (\<lambda>cat. invar cat \<and> v_objects (view cat) = objects) (cw_publish_open ops w)"
  "keeps (\<lambda>cat. invar cat \<and> v_objects (view cat) = objects) (publish_sealed_metadata ops h footer)"
proof -
  have ap: "keeps (\<lambda>cat. invar cat \<and> v_objects (view cat) = objects) (cat_io (cat_apply ops (put_chunk g k m batch_new)))" for g k m
    unfolding keeps_def
  proof (intro allI impI)
    fix cat
    assume i: "invar cat \<and> v_objects (view cat) = objects"
    obtain q cat' where run: "cat_apply ops (put_chunk g k m batch_new) cat = (q, cat')" by fastforce
    have "batch_wf (put_chunk g k m batch_new)" by (simp add: batch_wf_def batch_defs)
    note r = apply_result [OF conjunct1 [OF i] this run]
    have "v_objects (view cat') = v_objects (view cat)" using r(2) view_apply_chunk(1) [OF r(3)] by (cases q) auto
    then show "invar (snd (cat_io (cat_apply ops (put_chunk g k m batch_new)) cat)) \<and>
        v_objects (view (snd (cat_io (cat_apply ops (put_chunk g k m batch_new)) cat))) = objects"
      using r(1) i run by (simp add: cat_io_def)
  qed
  show "keeps (\<lambda>cat. invar cat \<and> v_objects (view cat) = objects) (cw_publish_open ops w)"
    "keeps (\<lambda>cat. invar cat \<and> v_objects (view cat) = objects) (publish_sealed_metadata ops h footer)"
    unfolding cw_publish_open_def publish_sealed_metadata_def
    by (intro keeps_seq_eff keeps_ask keeps_lift_result ap)+
qed

lemma keeps_reconcile:
  assumes "is_open_path p" and "q = p \<or> q = with_extension p ''sealed''"
  shows "keeps (tier_inv c z invar view h p i) (reconcile_chunk c z ops q)"
proof -
  note files = keeps_on_fst [OF keeps_tier_files]
  note ro = keeps_read_only [where P = "tier_files c z h p i objects" for objects]
  note cat = keeps_on_snd [OF keeps_tier_catalog]
  have verify: "read_only Io (verify_sealed_chunk c z a)" for a
    unfolding verify_sealed_chunk_def by (intro read_only_if read_only_seq; simp)
  have both: "keeps (\<lambda>s. tier_files c z h p i objects (fs_disk s)) (both_exist a b)" for a b objects
    unfolding both_exist_def by (intro keeps_seq_eff keeps_if keeps_path_exists keeps_ret)
  show ?thesis
    unfolding reconcile_chunk_def chunk_path_pair_of [OF assms] seq_lift_Inr prod.case
    by (intro keeps_seq_eff keeps_if keeps_case_sum keeps_case_prod keeps_lift_result keeps_ask keeps_ret keeps_raise
        files [OF both] files [OF keeps_path_exists] files [OF ro [OF verify]] cat [OF keeps_publish(1)] cat [OF keeps_publish(2)]
        files [OF keeps_io [OF ro [OF read_only_file_ops(1)]]] files [OF keeps_attempt [OF ro [OF verify_sealed_read_only(2)]]]
        files [OF keeps_io [OF keeps_rename [OF assms(1)]]] files [OF keeps_io [OF keeps_sync_dir [OF assms(1)]]]
        files [OF ro [OF read_only_read_chunk_header]] files [OF keeps_recover_file] files [OF keeps_open_recovered])
qed

lemma seal_keeps_tier:
  assumes inv: "chunk_inv c z invar view ((w, s), cat)" and p: "is_open_path (cw_path w)"
    and run: "cw_seal_and_publish ops w (s, cat) = (q, (s', cat'))"
  shows "tier_inv c z invar view (cw_header w) (cw_path w) (cw_file w) (s', cat')"
proof -
  let ?objects = "v_objects (view cat)"
  obtain rs where rs: "writer_wf w (fs_disk s) rs" "indexed c z (cw_header w) rs (stable_of (fs_disk s) (cw_file w)) ?objects"
    using inv by (auto simp: chunk_inv_def)
  have "keeps (seal_tier c z invar view w rs ?objects) (cw_seal_and_publish ops w)"
    unfolding cw_seal_and_publish_def sealed_path_for_def Let_def using p
    by (simp add: seq_lift_Inr)
       (intro keeps_seq_eff keeps_if keeps_lift_result keeps_ask keeps_ret keeps_raise keeps_seal_tier(1) [OF keeps_seal_file [OF p]]
        keeps_seal_tier(2) [OF keeps_publish(2)] keeps_seal_tier(1) [OF keeps_path_exists] conjI impI)
  moreover have "seal_tier c z invar view w rs ?objects (s, cat)"
    using inv rs chunk_inv_tier [OF inv] by (simp add: seal_tier_def seal_ready_def tier_inv_def)
  ultimately have "seal_tier c z invar view w rs ?objects (s', cat')" using run by (rule keepsD)
  then show ?thesis by (simp add: seal_tier_def tier_inv_def seal_ready_def)
qed

end

section \<open>Creation\<close>

lemma create_new_cases:
  assumes "create_new p s = (q, s')"
  obtains (failed) e where "q = Inl e" "fs_disk s' = fs_disk s"
  | (created) "q = Inr (length (dk_inodes (fs_disk s)))" "dk_names (fs_disk s) p = None"
      "fs_disk s' = fs_disk s\<lparr>dk_inodes := dk_inodes (fs_disk s) @ [\<lparr>ino_data = [], ino_stable = []\<rparr>],
         dk_names := (dk_names (fs_disk s))(p \<mapsto> length (dk_inodes (fs_disk s)))\<rparr>"
  using assms unfolding create_new_def by (cases rule: fallible_cases) (auto split: option.split_asm)

lemma sync_dir_cases:
  assumes "sync_dir dir s = (q, s')"
  obtains (failed) e where "q = Inl e" "fs_disk s' = fs_disk s"
  | (synced) "q = Inr ()" "fs_disk s' = (fs_disk s)\<lparr>dk_durable :=
      (\<lambda>p. if path_parent p = Some dir then dk_names (fs_disk s) p else dk_durable (fs_disk s) p)\<rparr>"
  using assms unfolding sync_dir_def by (cases rule: fallible_cases) auto

lemma cw_create_result:
  assumes wf: "disk_wf (fs_disk s)" and free: "dk_names (fs_disk s) (with_extension p ''sealed'') = None"
    and run: "cw_create p h s = (Inr w, s')"
  shows "is_open_path p \<and> cw_header w = h \<and> cw_path w = p \<and> cw_file w = length (dk_inodes (fs_disk s)) \<and>
    writer_wf w (fs_disk s') [] \<and> open_name (dk_names (fs_disk s')) p (cw_file w) \<and>
    open_name (dk_durable (fs_disk s')) p (cw_file w) \<and> data_of (fs_disk s') (cw_file w) = chunk_header_encode h \<and>
    stable_of (fs_disk s') (cw_file w) = chunk_header_encode h"
proof -
  let ?d = "fs_disk s" and ?i = "length (dk_inodes (fs_disk s))"
  obtain dir j s1 s2 s3 where st: "is_open_path p" "path_parent p = Some dir" "create_new p s = (Inr j, s1)"
      "write_all_at j 0 (chunk_header_encode h) s1 = (Inr (), s2)" "sync_data j s2 = (Inr (), s3)" "sync_dir dir s3 = (Inr (), s')"
      "w = \<lparr>cw_path = p, cw_file = j, cw_header = h, cw_next_offset = 64, cw_record_count = 0, cw_records_crc32c = crc32c_new\<rparr>"
    using run
    by (auto simp: cw_create_def chunk_parent_def io_def map_err_Inr_iff ok_iff simp del: seq_eff_ok_iff elim!: seq_okE
        split: if_split_asm prod.split_asm)
  let ?d1 = "?d\<lparr>dk_inodes := dk_inodes ?d @ [\<lparr>ino_data = [], ino_stable = []\<rparr>], dk_names := (dk_names ?d)(p \<mapsto> ?i)\<rparr>"
  have d1: "j = ?i" "fs_disk s1 = ?d1" using st(3) by (cases rule: create_new_cases; simp)+
  have wf1: "disk_wf ?d1"
    using wf by (auto simp: disk_wf_def inode_wf_def less_Suc_eq)
  have "fs_disk s2 = write_inode ?i 0 (chunk_header_encode h) ?d1"
    using st(4) by (cases rule: write_all_at_cases) (simp_all add: d1)
  moreover have "disk_wf (write_inode ?i 0 (chunk_header_encode h) ?d1)" by (rule write_inode_wf [OF wf1]) simp_all
  moreover have "fs_disk s3 = sync_inode ?i (fs_disk s2)" using st(5) d1(1) by (cases rule: sync_data_cases) simp_all
  ultimately have s3: "disk_wf (fs_disk s3)" "length (dk_inodes (fs_disk s3)) = Suc ?i" "dk_names (fs_disk s3) = (dk_names ?d)(p \<mapsto> ?i)"
      "dk_inodes (fs_disk s3) ! ?i = \<lparr>ino_data = chunk_header_encode h, ino_stable = chunk_header_encode h\<rparr>"
    by (simp_all add: sync_inode_wf overwrite_def)
  have s': "fs_disk s' = (fs_disk s3)\<lparr>dk_durable :=
      (\<lambda>q. if path_parent q = Some dir then dk_names (fs_disk s3) q else dk_durable (fs_disk s3) q)\<rparr>"
    using st(6) by (cases rule: sync_dir_cases) simp_all
  have "disk_wf (fs_disk s')" using s3(1) by (auto simp: s' disk_wf_def)
  then have "writer_wf w (fs_disk s') []"
    using s3 s' st(7) d1(1) by (simp add: writer_wf_def chunk_front_def)
  then show ?thesis
    using st(1,2,7) d1(1) s3 s' free open_sealed_path(2,4) [OF st(1)] by (simp add: open_name_def)
qed

section \<open>Every interleaving\<close>

text \<open>
  A writer is at work, or none is.  Faults are chosen anew at any time; a writer may be dropped and
  the machine may crash between any two calls, and a call that fails part way leaves what it did.
  Other clients apply batches that hold no object locations.
\<close>

datatype 'c phase = Running chunk_writer fs 'c | Down fs 'c

inductive life_step :: "'h crypto \<Rightarrow> zstd \<Rightarrow> 'c catalog_ops \<Rightarrow> path \<Rightarrow> 'c phase \<Rightarrow> 'c phase \<Rightarrow> bool"
  for c :: "'h crypto" and z :: zstd and ops :: "'c catalog_ops" and p :: path where
  faults: "life_step c z ops p (Running w s cat) (Running w (s\<lparr>fs_faults := fl\<rparr>) cat)"
| down_faults: "life_step c z ops p (Down s cat) (Down (s\<lparr>fs_faults := fl\<rparr>) cat)"
| append_step: "fits r \<Longrightarrow> repo_id_wf repo \<Longrightarrow> cw_append_and_index c z ops repo g k r ((w, s), cat) = (q, ((w', s'), cat')) \<Longrightarrow>
    life_step c z ops p (Running w s cat) (Running w' s' cat')"
| publish_step: "cw_publish_open ops w cat = (q, cat') \<Longrightarrow> life_step c z ops p (Running w s cat) (Running w s cat')"
| client_step: "batch_wf b \<Longrightarrow> \<forall>cid loc. OpObjectLocation cid loc \<notin> set (operations b) \<Longrightarrow> cat_apply ops b cat = (q, cat') \<Longrightarrow>
    life_step c z ops p (Running w s cat) (Running w s cat')"
| seal_step: "cw_seal_and_publish ops w (s, cat) = (q, (s', cat')) \<Longrightarrow> life_step c z ops p (Running w s cat) (Down s' cat')"
| stop_step: "life_step c z ops p (Running w s cat) (Down s cat)"
| crash_step: "crash (fs_disk s) d \<Longrightarrow> life_step c z ops p (Down s cat) (Down (s\<lparr>fs_disk := d\<rparr>) cat)"
| reopen_step: "cw_open_recovered c z p s = (Inr (w, recovery), s') \<Longrightarrow> life_step c z ops p (Down s cat) (Running w s' cat)"
| reopen_failed: "cw_open_recovered c z p s = (Inl e, s') \<Longrightarrow> life_step c z ops p (Down s cat) (Down s' cat)"
| reconcile_step: "path = p \<or> path = with_extension p ''sealed'' \<Longrightarrow> reconcile_chunk c z ops path (s, cat) = (q, (s', cat')) \<Longrightarrow>
    life_step c z ops p (Down s cat) (Down s' cat')"

fun life_inv :: "'h crypto \<Rightarrow> zstd \<Rightarrow> ('c \<Rightarrow> bool) \<Rightarrow> ('c \<Rightarrow> catalog_view) \<Rightarrow> chunk_header \<Rightarrow> path \<Rightarrow> nat \<Rightarrow> 'c phase \<Rightarrow> bool" where
  "life_inv c z invar view h p i (Running w s cat) \<longleftrightarrow>
     cw_header w = h \<and> cw_path w = p \<and> cw_file w = i \<and> chunk_inv c z invar view ((w, s), cat)"
| "life_inv c z invar view h p i (Down s cat) \<longleftrightarrow> tier_inv c z invar view h p i (s, cat)"

lemma view_apply_no_locations:
  assumes "view_apply b v = Inr v'" and "\<forall>cid loc. OpObjectLocation cid loc \<notin> set (operations b)"
  shows "v_objects v' = v_objects v"
proof -
  have run: "fold_result view_stage (operations b) v = Inr v'" using assms(1) by (auto simp: view_apply_def ok_iff split: if_splits)
  have "fold_result view_stage os v = Inr v' \<Longrightarrow> \<forall>cid loc. OpObjectLocation cid loc \<notin> set os \<Longrightarrow> v_objects v' = v_objects v" for os v
  proof (induction os arbitrary: v)
    case (Cons op os)
    then obtain u where u: "view_stage op v = Inr u" "fold_result view_stage os u = Inr v'" by (auto simp: ok_iff)
    have "v_objects u = v_objects v" using u(1) Cons.prems(2) by (cases op) (auto split: option.splits if_splits)
    then show ?case using Cons.IH [OF u(2)] Cons.prems(2) by simp
  qed simp
  then show ?thesis using run assms(2) by blast
qed

context catalog
begin

lemma life_step_inv:
  assumes p: "is_open_path p" and step: "life_step c z ops p a b" and inv: "life_inv c z invar view h p i a"
  shows "life_inv c z invar view h p i b"
  using step
proof (cases rule: life_step.cases)
  case (append_step r repo g k w s cat q w' s' cat')
  then have "chunk_inv c z invar view ((w, s), cat)" using inv by simp
  note res = append_and_index_result(1,2) [OF this append_step(3,4,5)]
  then show ?thesis using append_step(1,2) inv by (simp add: same_chunk_def)
next
  case (publish_step w cat q cat' s)
  then show ?thesis
    using inv keepsD [OF keeps_publish(1) [of "v_objects (view cat)" w], of cat q cat'] by (auto simp: chunk_inv_def)
next
  case (client_step batch cat q cat' w s)
  then have "invar cat" using inv by (simp add: chunk_inv_def)
  note res = apply_result [OF this client_step(3,5)]
  have "v_objects (view cat') = v_objects (view cat)"
    using res(2) view_apply_no_locations [OF res(3) client_step(4)] by (cases q) auto
  then show ?thesis using inv client_step res(1) by (auto simp: chunk_inv_def)
next
  case (seal_step w s cat q s' cat')
  then show ?thesis using inv p seal_keeps_tier [of c z w s cat q s' cat'] by auto
next
  case (stop_step w s cat)
  then show ?thesis using inv chunk_inv_tier [of c z invar view w s cat] by auto
next
  case (crash_step s d cat)
  then show ?thesis using inv tier_files_crash by (auto simp: tier_inv_def)
next
  case (reopen_step s w recovery s' cat)
  have t: "tier_files c z h p i (v_objects (view cat)) (fs_disk s)" "invar cat" using inv reopen_step by (simp_all add: tier_inv_def)
  show ?thesis using open_recovered_result [OF t(1) reopen_step(3)] t(2) reopen_step(2) by (auto simp: chunk_inv_def)
next
  case (reopen_failed s e s' cat)
  then show ?thesis
    using inv keepsD [OF keeps_open_recovered [of c z h p i "v_objects (view cat)" p]] by (auto simp: tier_inv_def)
next
  case (reconcile_step path s cat q s' cat')
  then show ?thesis using inv keepsD [OF keeps_reconcile [OF p reconcile_step(3), of c z h i]] by auto
qed (use inv in \<open>auto simp: chunk_inv_def tier_inv_def\<close>)

lemma life_inv_reachable:
  assumes "is_open_path p" and "(life_step c z ops p)\<^sup>*\<^sup>* a b" and "life_inv c z invar view h p i a"
  shows "life_inv c z invar view h p i b"
  using assms(2,3) by (induction rule: rtranclp_induct) (auto intro: life_step_inv [OF assms(1)])

lemma created_inv:
  assumes "disk_wf (fs_disk s)" and "dk_names (fs_disk s) (with_extension p ''sealed'') = None" and "invar cat"
    and "cw_create p h s = (Inr w, s')"
    and fresh: "\<And>cid loc. v_objects (view cat) cid = Some loc \<Longrightarrow> \<not> (loc_generation loc = ch_generation h \<and> loc_chunk_id loc = ch_chunk_id h)"
  shows "life_inv c z invar view h p (length (dk_inodes (fs_disk s))) (Running w s' cat)" and "is_open_path p"
  using cw_create_result [OF assms(1,2,4)] assms(3) fresh by (auto simp: chunk_inv_def indexed_def)

end

end
