(* ===== verification/SealLaws.thy ===== *)
theory SealLaws
  imports Lifecycle
begin

text \<open>
  Sealing a chunk and reconciling it afterwards.  A chunk whose file holds the header and verified
  records seals into a file that verifies; wherever sealing was interrupted, reconciling the chunk on
  a disk without faults finishes it or reopens it, and loses no record.
\<close>

section \<open>Chunks and what follows their records\<close>

text \<open>The file of a writer: the header, verified records, and the bytes \<open>g\<close> an append left that failed half way.\<close>

definition chunk_with :: "'h crypto \<Rightarrow> zstd \<Rightarrow> chunk_writer \<Rightarrow> disk \<Rightarrow> object_record list \<Rightarrow> bytes \<Rightarrow> bool" where
  "chunk_with c z w d rs g \<longleftrightarrow> writer_wf w d rs \<and> data_of d (cw_file w) = chunk_front (cw_header w) rs @ g \<and>
     list_all (\<lambda>r. verify_object_record c z r = Inr ()) rs"

lemma chunk_write:
  assumes "writer_wf w d rs" and "data_of d (cw_file w) = chunk_front (cw_header w) rs @ g"
  shows "data_of (write_inode (cw_file w) (unat (cw_next_offset w)) bs d) (cw_file w) = chunk_front (cw_header w) rs @ bs @ drop (length bs) g"
proof -
  have "cw_file w < length (dk_inodes d)" using assms(1) by (simp add: writer_wf_def)
  then show ?thesis using assms(2) writer_wf_offset(1) [OF assms(1)] by (simp add: overwrite_def)
qed

lemma chunk_append:
  assumes "chunk_with c z w (fs_disk s) rs g" and "fits r" and "cw_append c z r (w, s) = (Inr l, (w', s'))"
  shows "chunk_with c z w' (fs_disk s') (rs @ [r]) (drop (length (record_bytes r)) g)"
proof -
  have w: "writer_wf w (fs_disk s) rs" using assms(1) by (simp add: chunk_with_def)
  note res = cw_append_result(3) [OF w assms(2,3) refl]
  have rw: "object_record_wf r" using assms(2) by (simp add: fits_def)
  have enc: "encode_record r = Inr (record_bytes r)" using encode_record_eq [OF rw] fits_payload [OF assms(2)] by simp
  obtain q1 s1 where wr: "write_all_at (cw_file w) (cw_next_offset w) (record_bytes r) s = (q1, s1)" by fastforce
  then have "q1 = Inr ()" "s' = s1"
    using assms(3) enc res by (auto simp: cw_append_def io_def map_err_Inr_iff simp del: seq_eff_ok_iff elim!: seq_okE split: prod.split_asm)
  with wr have d: "fs_disk s' = write_inode (cw_file w) (unat (cw_next_offset w)) (record_bytes r) (fs_disk s)"
    by (cases rule: write_all_at_cases; simp)
  have "data_of (fs_disk s') (cw_file w) = chunk_front (cw_header w) (rs @ [r]) @ drop (length (record_bytes r)) g"
    unfolding d using chunk_write [OF w] assms(1) by (simp add: chunk_with_def chunk_front_append)
  moreover have "writer_wf w' (fs_disk s') (rs @ [r])" "cw_file w' = cw_file w" "cw_header w' = cw_header w"
      "verify_object_record c z r = Inr ()"
    using res by auto
  ultimately show ?thesis using assms(1) by (simp add: chunk_with_def)
qed

text \<open>A write that stops after \<open>n\<close> bytes leaves them behind a writer that has not advanced.\<close>

lemma chunk_append_stopped:
  assumes w: "chunk_with c z w d rs g" and r: "fits r" "verify_object_record c z r = Inr ()"
    and room: "unat (cw_next_offset w) + length (record_bytes r) < file_size_limit" and n: "n \<le> length (record_bytes r)"
    and run: "cw_append c z r (w, \<lparr>fs_disk = d, fs_faults = Fault n e # fl\<rparr>) = (q, (w', s'))"
  shows "q = Inl (Io e) \<and> w' = w \<and> fs_faults s' = fl \<and> dk_names (fs_disk s') = dk_names d \<and>
    chunk_with c z w (fs_disk s') rs (take n (record_bytes r) @ drop n g)"
proof -
  have wf: "writer_wf w d rs" and data: "data_of d (cw_file w) = chunk_front (cw_header w) rs @ g"
    using w by (simp_all add: chunk_with_def)
  have enc: "encode_record r = Inr (record_bytes r)" using encode_record_eq fits_payload [OF r(1)] r(1) by (simp add: fits_def)
  let ?bs = "take n (record_bytes r)" and ?d = "write_inode (cw_file w) (unat (cw_next_offset w)) (take n (record_bytes r)) d"
  have "q = Inl (Io e) \<and> w' = w \<and> s' = \<lparr>fs_disk = ?d, fs_faults = fl\<rparr>"
    using run r(2) enc room by (auto simp: cw_append_def io_def write_all_at_def next_fault_def)
  moreover have "data_of ?d (cw_file w) = chunk_front (cw_header w) rs @ ?bs @ drop n g"
    using chunk_write [OF wf data, of ?bs] n by simp
  moreover have "disk_wf ?d" by (rule writer_write(1) [OF wf]) (use room in simp)
  ultimately show ?thesis using w by (simp add: chunk_with_def writer_wf_def)
qed

lemma sealed_footer_of_writer:
  assumes "writer_wf w d rs"
  shows "\<lparr>sf_record_count = cw_record_count w, sf_final_length = cw_next_offset w + 64,
    sf_records_crc32c = crc32c_finalize (cw_records_crc32c w)\<rparr> = sealed_footer_for rs"
  using assms by (simp add: writer_wf_def sealed_footer_for_def crc32c_def)

lemma rename_cases:
  assumes "rename_file a b s = (q, s')"
  obtains (failed) e where "q = Inl e" "fs_disk s' = fs_disk s"
  | (renamed) i where "q = Inr ()" "dk_names (fs_disk s) a = Some i"
      "fs_disk s' = (fs_disk s)\<lparr>dk_names := (dk_names (fs_disk s))(a := None, b \<mapsto> i)\<rparr>"
  using assms unfolding rename_file_def by (cases rule: fallible_cases) (auto split: option.split_asm)

lemma seal_file_result:
  assumes clean: "chunk_with c z w (fs_disk s) rs g" and nm: "open_name (dk_names (fs_disk s)) (cw_path w) (cw_file w)"
    and p: "is_open_path (cw_path w)"
    and run: "seal_file w (with_extension (cw_path w) ''sealed'') (sealed_footer_for rs) s = (Inr (), s')"
  defines "img \<equiv> sealed_image (cw_header w) rs @ drop 64 g"
  shows "disk_wf (fs_disk s') \<and> dk_inodes (fs_disk s') ! cw_file w = \<lparr>ino_data = img, ino_stable = img\<rparr> \<and>
    sealed_name (dk_names (fs_disk s')) (cw_path w) (cw_file w) \<and> sealed_name (dk_durable (fs_disk s')) (cw_path w) (cw_file w)"
proof -
  let ?i = "cw_file w" and ?p = "cw_path w" and ?d = "fs_disk s" and ?f = "sealed_footer_encode (sealed_footer_for rs)"
  obtain s1 s2 s3 dir s4 where st: "sync_data ?i s = (Inr (), s1)" "write_all_at ?i (cw_next_offset w) ?f s1 = (Inr (), s2)"
      "sync_data ?i s2 = (Inr (), s3)" "path_parent ?p = Some dir" "rename_file ?p (with_extension ?p ''sealed'') s3 = (Inr (), s4)"
      "sync_dir dir s4 = (Inr (), s')"
    using run
    by (auto simp: seal_file_def chunk_parent_def io_def map_err_Inr_iff ok_iff simp del: seq_eff_ok_iff elim!: seq_okE
        split: prod.split_asm)
  have w: "writer_wf w ?d rs" "data_of ?d ?i = chunk_front (cw_header w) rs @ g" and i: "?i < length (dk_inodes ?d)"
    using clean by (simp_all add: chunk_with_def writer_wf_def)
  have d1: "fs_disk s1 = sync_inode ?i ?d" using st(1) by (cases rule: sync_data_cases) simp_all
  have w1: "writer_wf w (fs_disk s1) rs" "data_of (fs_disk s1) ?i = chunk_front (cw_header w) rs @ g"
    using writer_sync(1) [OF w(1)] w(2) i by (simp_all add: d1)
  have d2: "fs_disk s2 = write_inode ?i (unat (cw_next_offset w)) ?f (fs_disk s1)"
      "unat (cw_next_offset w) + length ?f < file_size_limit"
    using st(2) by (cases rule: write_all_at_cases; simp)+
  have data: "data_of (fs_disk s2) ?i = img"
    unfolding d2(1) using chunk_write [OF w1] by (simp add: chunk_front_def sealed_image_def img_def)
  have d3: "fs_disk s3 = sync_inode ?i (fs_disk s2)" using st(3) by (cases rule: sync_data_cases) simp_all
  have wf3: "disk_wf (fs_disk s3)" using writer_write(1) [OF w1(1) d2(2)] by (simp add: d3 d2(1) sync_inode_wf)
  have nm3: "dk_names (fs_disk s3) = dk_names ?d" "length (dk_inodes (fs_disk s3)) = length (dk_inodes ?d)"
    by (simp_all add: d3 d2(1) d1)
  have ino: "dk_inodes (fs_disk s3) ! ?i = \<lparr>ino_data = img, ino_stable = img\<rparr>"
    using data i by (simp add: d3 d2(1) d1)
  have d4: "fs_disk s4 = (fs_disk s3)\<lparr>dk_names := (dk_names ?d)(?p := None, with_extension ?p ''sealed'' \<mapsto> ?i)\<rparr>"
    using st(5) by (cases rule: rename_cases) (use nm nm3 in \<open>simp_all add: open_name_def\<close>)
  have d5: "fs_disk s' = (fs_disk s4)\<lparr>dk_durable :=
      (\<lambda>q. if path_parent q = Some dir then dk_names (fs_disk s4) q else dk_durable (fs_disk s4) q)\<rparr>"
    using st(6) by (cases rule: sync_dir_cases) simp_all
  have "disk_wf (fs_disk s')" using wf3 nm3 i by (auto simp: d5 d4 disk_wf_def)
  then show ?thesis
    using ino st(4) open_sealed_path(2,4) [OF p] by (simp add: d5 d4 sealed_name_def)
qed

section \<open>What verification finds in any chunk file\<close>

lemma whole_record_short: "length t < 128 \<Longrightarrow> whole_record t = None"
  using whole_record_by_parts(1) [of t] by (cases "whole_record t") force+

lemma verify_sealed_split:
  assumes size: "length (data_of d i) < file_size_limit" and data: "data_of d i = chunk_header_encode h @ body"
    and split: "split_records body = (rs, t)"
  shows "outcome (verify_sealed_file c z i) d = Inr vs \<longleftrightarrow>
    t = sealed_footer_encode (sealed_footer_for rs) \<and> list_all (\<lambda>r. verify_object_record c z r = Inr ()) rs \<and>
    vs = \<lparr>vs_header = h, vs_footer = sealed_footer_for rs\<rparr>"
proof
  assume "outcome (verify_sealed_file c z i) d = Inr vs"
  then obtain ss where ss: "data_of d i = sealed_image (vs_header vs) ss" "vs_footer vs = sealed_footer_for ss"
      "list_all fits ss" "list_all (\<lambda>r. verify_object_record c z r = Inr ()) ss"
    unfolding sealed_image_file [OF size] by blast
  have "chunk_header_encode (vs_header vs) = chunk_header_encode h"
      and body: "body = encodings ss @ sealed_footer_encode (sealed_footer_for ss)"
    using ss(1) data by (simp_all add: sealed_image_def)
  then have "vs_header vs = h" using chunk_header_decode_encode [of _ "[]"] by (metis sum.inject(2))
  moreover have "split_records body = (ss, sealed_footer_encode (sealed_footer_for ss))"
    unfolding body by (rule split_records_unique [OF ss(3)]) (simp add: whole_record_short)
  ultimately show "t = sealed_footer_encode (sealed_footer_for rs) \<and> list_all (\<lambda>r. verify_object_record c z r = Inr ()) rs \<and>
      vs = \<lparr>vs_header = h, vs_footer = sealed_footer_for rs\<rparr>"
    using split ss(2,4) by (cases vs) simp
next
  assume "t = sealed_footer_encode (sealed_footer_for rs) \<and> list_all (\<lambda>r. verify_object_record c z r = Inr ()) rs \<and>
      vs = \<lparr>vs_header = h, vs_footer = sealed_footer_for rs\<rparr>"
  then show "outcome (verify_sealed_file c z i) d = Inr vs"
    unfolding sealed_image_file [OF size] using split_records_sound [OF split] data
    by (intro exI [of _ rs]) (simp add: sealed_image_def)
qed

text \<open>A footer is not the front of a record.\<close>

lemma whole_record_footer: "whole_record (sealed_footer_encode f @ g) = None"
proof (rule ccontr)
  assume "whole_record (sealed_footer_encode f @ g) \<noteq> None"
  then obtain r where r: "prefix (record_bytes r) (sealed_footer_encode f @ g)" "object_record_wf r" by (auto simp: whole_record_iff fits_def)
  then have "4 \<le> length (record_bytes r)" using padded_length_bounds(1) [of "length (obj_payload r)"] by simp
  moreover obtain y where "sealed_footer_encode f @ g = record_bytes r @ y" using r(1) by (rule prefixE)
  ultimately have "take 4 (record_bytes r) = take 4 (sealed_footer_encode f @ g)" by (simp only: take_append) simp
  moreover have "take 4 (record_bytes r) = RECORD_MAGIC" by (simp add: record_bytes_def record_header_def metadata_header_def metadata_body_def sealed_buffer_def)
  moreover have "take 4 (sealed_footer_encode f @ g) = take 4 SEALED_CHUNK_FOOTER_MAGIC"
    by (simp add: sealed_footer_encode_eq sealed_buffer_def sealed_footer_body_def)
  ultimately show False by (simp add: RECORD_MAGIC_def SEALED_CHUNK_FOOTER_MAGIC_def ascii_def)
qed

text \<open>Bytes after the footer make a sealed chunk fail verification.\<close>

lemma sealed_image_followed:
  assumes "disk_wf d" and "dk_names d q = Some i" and "is_sealed_path q" and "data_of d i = sealed_image h rs @ g"
    and "list_all fits rs" and "list_all (\<lambda>r. verify_object_record c z r = Inr ()) rs"
  shows "outcome (verify_sealed_chunk c z q) d = Inr sealed \<longleftrightarrow> g = [] \<and> sealed = \<lparr>sc_path = q, sc_header = h, sc_footer = sealed_footer_for rs\<rparr>"
proof -
  have size: "length (data_of d i) < file_size_limit"
    using inode_wf_at [OF assms(1) disk_wf_names [OF assms(1,2)]] by (simp add: inode_wf_def)
  have data: "data_of d i = chunk_header_encode h @ encodings rs @ sealed_footer_encode (sealed_footer_for rs) @ g"
    using assms(4) by (simp add: sealed_image_def)
  have "split_records (encodings rs @ sealed_footer_encode (sealed_footer_for rs) @ g) = (rs, sealed_footer_encode (sealed_footer_for rs) @ g)"
    by (rule split_records_unique [OF assms(5) whole_record_footer])
  note split = verify_sealed_split [OF size data this, of c z]
  show ?thesis using assms(2,3,6) split by (auto simp: verify_sealed_chunk_def outcome_seqs ok_iff)
qed

section \<open>Sealing\<close>

context catalog
begin

lemma seal_result:
  assumes clean: "chunk_with c z w (fs_disk s) rs g" and nm: "open_name (dk_names (fs_disk s)) (cw_path w) (cw_file w)"
    and cat: "invar cat" and run: "cw_seal_and_publish ops w (s, cat) = (Inr sealed, (s', cat'))"
  shows "sealed = \<lparr>sc_path = with_extension (cw_path w) ''sealed'', sc_header = cw_header w, sc_footer = sealed_footer_for rs\<rparr>"
    and "outcome (verify_sealed_chunk c z (sc_path sealed)) (fs_disk s') = Inr x \<longleftrightarrow> length g \<le> 64 \<and> x = sealed"
    and "sealed_name (dk_durable (fs_disk s')) (cw_path w) (cw_file w)"
    and "stable_of (fs_disk s') (cw_file w) = sealed_image (cw_header w) rs @ drop 64 g"
    and "v_chunks (view cat') (ch_generation (cw_header w), ch_chunk_id (cw_header w)) =
      Some \<lparr>cm_state = Sealed, cm_size = sf_final_length (sealed_footer_for rs), cm_record_count = sf_record_count (sealed_footer_for rs)\<rparr>"
proof -
  let ?h = "cw_header w" and ?sp = "with_extension (cw_path w) ''sealed''"
  have w: "writer_wf w (fs_disk s) rs" "list_all (\<lambda>r. verify_object_record c z r = Inr ()) rs"
    using clean by (simp_all add: chunk_with_def)
  have p: "is_open_path (cw_path w)"
    using run by (auto simp: cw_seal_and_publish_def sealed_path_for_def ok_iff simp del: seq_eff_ok_iff elim!: seq_okE split: if_split_asm)
  obtain s0 s1 cat1 where st: "path_exists ?sp s = (Inr False :: store_error + bool, s0)"
      "seal_file w ?sp (sealed_footer_for rs) s0 = (Inr (), s1)"
      "publish_sealed_metadata ops ?h (sealed_footer_for rs) cat = (Inr (), cat1)"
      "s' = s1" "cat' = cat1" "sealed = \<lparr>sc_path = ?sp, sc_header = ?h, sc_footer = sealed_footer_for rs\<rparr>"
    using run sealed_footer_of_writer [OF w(1)] p
    by (auto simp: cw_seal_and_publish_def sealed_path_for_def ok_iff Let_def simp del: seq_eff_ok_iff elim!: seq_okE
        split: if_split_asm prod.split_asm)
  show "sealed = \<lparr>sc_path = ?sp, sc_header = ?h, sc_footer = sealed_footer_for rs\<rparr>" by (rule st(6))
  have d0: "fs_disk s0 = fs_disk s"
    using st(1) by (auto simp: path_exists_def next_fault_def split: list.split_asm fault.split_asm)
  note f = seal_file_result [of c z w s0 rs g s1, unfolded d0, OF clean nm p st(2)]
  show "sealed_name (dk_durable (fs_disk s')) (cw_path w) (cw_file w)" using f st(4) by simp
  show "stable_of (fs_disk s') (cw_file w) = sealed_image ?h rs @ drop 64 g" using f st(4) by simp
  have "list_all fits rs" using w(1) by (simp add: writer_wf_def)
  then show "outcome (verify_sealed_chunk c z (sc_path sealed)) (fs_disk s') = Inr x \<longleftrightarrow> length g \<le> 64 \<and> x = sealed"
    using f st(4) w(2) open_sealed_path(1) [OF p] sealed_image_followed [of "fs_disk s1" ?sp "cw_file w" ?h rs "drop 64 g" c z x]
    by (simp add: st(6) sealed_name_def)
  obtain q where ap: "cat_apply ops (put_chunk (ch_generation ?h) (ch_chunk_id ?h)
       \<lparr>cm_state = Sealed, cm_size = sf_final_length (sealed_footer_for rs), cm_record_count = sf_record_count (sealed_footer_for rs)\<rparr> batch_new) cat
       = (Inr (), cat')"
    using st(3,5)
    by (auto simp: publish_sealed_metadata_def cat_io_def map_err_Inr_iff simp del: seq_eff_ok_iff elim!: seq_okE split: prod.split_asm)
  have "batch_wf (put_chunk g k m batch_new)" for g k m by (simp add: batch_wf_def batch_defs)
  from view_apply_chunk(1) [OF apply_result(3) [OF cat this ap refl]]
  show "v_chunks (view cat') (ch_generation ?h, ch_chunk_id ?h) =
      Some \<lparr>cm_state = Sealed, cm_size = sf_final_length (sealed_footer_for rs), cm_record_count = sf_record_count (sealed_footer_for rs)\<rparr>"
    by simp
qed

end

section \<open>Reconciliation on a disk without faults\<close>

text \<open>For a boolean result the simplifier does not find the instance of the general rule.\<close>

lemma seq_on_fst_False: "m s = (Inr False, s') \<Longrightarrow> seq_eff (on_fst m) f (s, t) = f False (s', t)"
  by (rule seq_eff_Inr) simp

lemma path_exists_healthy: "path_exists p (healthy d) = (Inr (dk_names d p \<noteq> None), healthy d)"
  by (simp add: path_exists_def next_fault_def)

lemma healthy_names_runs:
  "dk_names d a = Some i \<Longrightarrow> rename_file a b (healthy d) = (Inr (), healthy (d\<lparr>dk_names := (dk_names d)(a := None, b \<mapsto> i)\<rparr>))"
  "sync_dir dir (healthy d) = (Inr (), healthy (d\<lparr>dk_durable :=
     (\<lambda>p. if path_parent p = Some dir then dk_names d p else dk_durable d p)\<rparr>))"
  "dk_names d a = Some i \<Longrightarrow> open_file a (healthy d) = (Inr i, healthy d)"
  "file_len i (healthy d) = (Inr (word_of_nat (length (data_of d i))), healthy d)"
  by (simp_all add: rename_file_def sync_dir_def open_file_def file_len_def fallible_def next_fault_def cong: if_cong)

lemma attempt_healthy: "read_only i m \<Longrightarrow> attempt m (healthy d) = (Inr (outcome m d), healthy d)"
  using read_only_healthy [of i m d] by (simp add: attempt_def)

text \<open>What reopening a chunk leaves: the header and the records, all of it durable or as durable as before.\<close>

definition reopened :: "nat \<Rightarrow> object_record list \<Rightarrow> bytes \<Rightarrow> disk \<Rightarrow> disk" where
  "reopened i rs t d = (if t = [] then d else sync_inode i (truncated i rs d))"

lemma reopened_data:
  assumes "data_of d i = chunk_header_encode h @ body" and "split_records body = (rs, t)" and "i < length (dk_inodes d)"
  shows "data_of (reopened i rs t d) i = chunk_header_encode h @ encodings rs" and "dk_names (reopened i rs t d) = dk_names d"
    and "length (dk_inodes (reopened i rs t d)) = length (dk_inodes d)"
  using assms truncated_data [OF assms] split_records_sound(1) [OF assms(2)] by (simp_all add: reopened_def truncated_def)

lemma open_recovered_healthy:
  assumes "is_open_path p" and "dk_names d p = Some i" and "data_of d i = chunk_header_encode h @ body"
    and "length (data_of d i) < file_size_limit" and "split_records body = (rs, t)" and "i < length (dk_inodes d)"
    and "t \<noteq> sealed_footer_encode (sealed_footer_for rs) \<or> \<not> list_all (\<lambda>r. verify_object_record c z r = Inr ()) rs"
  shows "\<exists>w. cw_open_recovered c z p (healthy d) = (Inr (w, recovery_of h rs t), healthy (reopened i rs t d)) \<and>
    cw_header w = h \<and> cw_next_offset w = word_of_nat (64 + length (encodings rs)) \<and> cw_record_count w = word_of_nat (length rs)"
proof -
  obtain e where "outcome (verify_sealed_file c z i) d = Inl e"
    using verify_sealed_split [OF assms(4,3,5), of c z] assms(7) by (cases "outcome (verify_sealed_file c z i) d") auto
  then have "attempt (verify_sealed_file c z i) (healthy d) = (Inr (Inl e) :: store_error + _, healthy d)"
    by (simp add: attempt_healthy [OF verify_sealed_read_only(2)])
  moreover have "recover_file c z i (healthy d) = (Inr (recovery_of h rs t), healthy (reopened i rs t d))"
    unfolding reopened_def by (rule recover_file_healthy [OF assms(3,4,5)])
  moreover have "io (open_file p) (healthy d) = (Inr i, healthy d)" using healthy_names_runs(3) [OF assms(2)] by (simp add: io_def)
  moreover have "io (file_len i) (healthy (reopened i rs t d)) = (Inr (word_of_nat (64 + length (encodings rs))), healthy (reopened i rs t d))"
    using reopened_data(1) [OF assms(3,5,6)] by (simp add: io_def healthy_names_runs(4))
  ultimately show ?thesis using assms(1) by (simp add: cw_open_recovered_def recovery_of_def)
qed

definition renamed_chunk :: "path \<Rightarrow> nat \<Rightarrow> disk \<Rightarrow> disk" where
  "renamed_chunk p i d = (let names = (dk_names d)(p := None, with_extension p ''sealed'' \<mapsto> i) in
     d\<lparr>dk_names := names, dk_durable := (\<lambda>q. if path_parent q = path_parent p then names q else dk_durable d q)\<rparr>)"

lemma publish_sealed_live:
  assumes writable: "ensure_catalog_writable ops cat h = Inr ()"
    and live: "\<And>m. \<exists>cat'. cat_apply ops (put_chunk (ch_generation h) (ch_chunk_id h) m batch_new) cat = (Inr (), cat')"
  shows "\<exists>cat'. publish_sealed_metadata ops h f cat = (Inr (), cat')"
proof -
  have "(case cat_chunk ops cat (ch_generation h) (ch_chunk_id h) of
         Some m \<Rightarrow> if cm_state m = Retired then Inl (CatalogChunkStateConflict (ch_generation h) (ch_chunk_id h) (cm_state m)) else Inr ()
       | None \<Rightarrow> Inr ()) = Inr ()"
    using writable by (auto simp: ensure_catalog_writable_def split: option.splits if_splits)
  moreover obtain cat' where "cat_apply ops (put_chunk (ch_generation h) (ch_chunk_id h)
      \<lparr>cm_state = Sealed, cm_size = sf_final_length f, cm_record_count = sf_record_count f\<rparr> batch_new) cat = (Inr (), cat')"
    using live by (rule exE)
  ultimately show ?thesis by (simp add: publish_sealed_metadata_def cat_io_def)
qed

text \<open>Sealing succeeds when nothing fails and the footer fits the file.\<close>

lemma seal_healthy:
  assumes w: "writer_wf w d rs" and nm: "open_name (dk_names d) (cw_path w) (cw_file w)" and p: "is_open_path (cw_path w)"
    and room: "128 + length (encodings rs) < file_size_limit" and writable: "ensure_catalog_writable ops cat (cw_header w) = Inr ()"
    and live: "\<And>m. \<exists>cat'. cat_apply ops (put_chunk (ch_generation (cw_header w)) (ch_chunk_id (cw_header w)) m batch_new) cat = (Inr (), cat')"
  shows "\<exists>sealed d' cat'. cw_seal_and_publish ops w (healthy d, cat) = (Inr sealed, (healthy d', cat'))"
proof -
  let ?sp = "with_extension (cw_path w) ''sealed''" and ?f = "sealed_footer_for rs"
  have names: "dk_names d (cw_path w) = Some (cw_file w)" "dk_names d ?sp = None" using nm by (simp_all add: open_name_def)
  obtain dir where dir: "path_parent (cw_path w) = Some dir"
    using p by (cases "cw_path w") (auto simp: is_open_path_def path_extension_def path_parent_def)
  have off: "unat (cw_next_offset w) = 64 + length (encodings rs)" by (rule writer_wf_offset(1) [OF w])
  let ?d1 = "sync_inode (cw_file w) d"
  let ?d2 = "write_inode (cw_file w) (unat (cw_next_offset w)) (sealed_footer_encode ?f) ?d1"
  have wr: "write_all_at (cw_file w) (cw_next_offset w) (sealed_footer_encode ?f) (healthy ?d1) = (Inr (), healthy ?d2)"
    using room off by (simp add: write_all_at_def next_fault_def)
  let ?d3 = "sync_inode (cw_file w) ?d2"
  have "dk_names ?d3 (cw_path w) = Some (cw_file w)" using names by simp
  note rn = healthy_names_runs(1) [OF this, of ?sp]
  obtain d' where sf: "seal_file w ?sp ?f (healthy d) = (Inr (), healthy d')"
    using wr rn dir by (simp add: seal_file_def io_def healthy_runs(1) healthy_names_runs(2) chunk_parent_def)
  obtain cat' where pub: "publish_sealed_metadata ops (cw_header w) ?f cat = (Inr (), cat')"
    using publish_sealed_live [OF writable live] by blast
  have "checked_add (cw_next_offset w) 64 = Some (cw_next_offset w + 64)"
    using checked_add_of_nat(1) [of "cw_next_offset w" 64] off room by simp
  moreover have "path_exists ?sp (healthy d) = (Inr False :: store_error + bool, healthy d)" using names by (simp add: path_exists_healthy)
  ultimately show ?thesis
    using writable p sf pub sealed_footer_of_writer [OF w]
    by (simp add: cw_seal_and_publish_def sealed_path_for_def seq_on_fst_False Let_def)
qed

lemma reconcile_open_result:
  assumes p: "is_open_path p" and nm: "open_name (dk_names d) p i" and d: "disk_wf d"
    and data: "data_of d i = chunk_header_encode h @ body" and split: "split_records body = (rs, t)"
    and writable: "ensure_catalog_writable ops cat h = Inr ()"
    and live: "\<And>m. \<exists>cat'. cat_apply ops (put_chunk (ch_generation h) (ch_chunk_id h) m batch_new) cat = (Inr (), cat')"
  shows "if t = sealed_footer_encode (sealed_footer_for rs) \<and> list_all (\<lambda>r. verify_object_record c z r = Inr ()) rs
    then \<exists>cat'. reconcile_chunk c z ops p (healthy d, cat) =
      (Inr (ReconciledSealed \<lparr>sc_path = with_extension p ''sealed'', sc_header = h, sc_footer = sealed_footer_for rs\<rparr>),
       (healthy (renamed_chunk p i d), cat'))
    else \<exists>cat'. reconcile_chunk c z ops p (healthy d, cat) =
      (Inr (ReconciledOpen (recovery_of h rs t)), (healthy (reopened i rs t d), cat'))"
proof -
  let ?sp = "with_extension p ''sealed''" and ?seal = "t = sealed_footer_encode (sealed_footer_for rs) \<and> list_all (\<lambda>r. verify_object_record c z r = Inr ()) rs"
  have names: "dk_names d p = Some i" "dk_names d ?sp = None" using nm by (simp_all add: open_name_def)
  have i: "i < length (dk_inodes d)" by (rule disk_wf_names [OF d names(1)])
  have size: "length (data_of d i) < file_size_limit" using inode_wf_at [OF d i] by (simp add: inode_wf_def)
  obtain dir where dir: "path_parent p = Some dir" using p by (cases p) (auto simp: is_open_path_def path_extension_def path_parent_def)
  have exists: "both_exist p ?sp (healthy d) = (Inr False :: store_error + bool, healthy d)"
      "path_exists ?sp (healthy d) = (Inr False :: store_error + bool, healthy d)"
    using names by (simp_all add: both_exist_def path_exists_healthy seq_eff_def)
  have opened: "io (open_file p) (healthy d) = (Inr i, healthy d)" using healthy_names_runs(3) [OF names(1)] by (simp add: io_def)
  have att: "attempt (verify_sealed_file c z i) (healthy d) = (Inr (outcome (verify_sealed_file c z i) d) :: store_error + _, healthy d)"
    by (rule attempt_healthy [OF verify_sealed_read_only(2)])
  note runs = reconcile_chunk_def chunk_path_pair_of [OF p disjI1 [OF refl]] seq_lift_Inr prod.case
  show ?thesis
  proof (cases ?seal)
    case True
    have ver: "outcome (verify_sealed_file c z i) d = Inr \<lparr>vs_header = h, vs_footer = sealed_footer_for rs\<rparr>"
      using verify_sealed_split [OF size data split, of c z] True by blast
    obtain cat' where "publish_sealed_metadata ops h (sealed_footer_for rs) cat = (Inr (), cat')"
      using publish_sealed_live [OF writable live] by blast
    moreover have "io (rename_file p ?sp) (healthy d) = (Inr (), healthy (d\<lparr>dk_names := (dk_names d)(p := None, ?sp \<mapsto> i)\<rparr>))"
      using healthy_names_runs(1) [OF names(1)] by (simp add: io_def)
    moreover have "io (sync_dir dir) (healthy (d\<lparr>dk_names := (dk_names d)(p := None, ?sp \<mapsto> i)\<rparr>)) = (Inr (), healthy (renamed_chunk p i d))"
      using dir by (simp add: io_def healthy_names_runs(2) renamed_chunk_def cong: if_cong)
    ultimately have "reconcile_chunk c z ops p (healthy d, cat) =
        (Inr (ReconciledSealed \<lparr>sc_path = ?sp, sc_header = h, sc_footer = sealed_footer_for rs\<rparr>), (healthy (renamed_chunk p i d), cat'))"
      unfolding runs using exists opened att ver dir by (simp add: chunk_parent_def seq_on_fst_False)
    then show ?thesis using True by auto
  next
    case False
    obtain e where ver: "outcome (verify_sealed_file c z i) d = Inl e"
      using verify_sealed_split [OF size data split, of c z] False by (cases "outcome (verify_sealed_file c z i) d") auto
    have hdr: "read_chunk_header i (healthy d) = (Inr h, healthy d)"
      using data read_only_healthy [OF read_only_read_chunk_header] by (metis prefixI read_chunk_header_outcome)
    have rec: "recover_file c z i (healthy d) = (Inr (recovery_of h rs t), healthy (reopened i rs t d))"
      unfolding reopened_def by (rule recover_file_healthy [OF data size split])
    note rd = reopened_data [OF data split i]
    have sp2: "split_records (encodings rs) = (rs, [])"
      using split_records_unique [of rs "[]"] split_records_sound(2) [OF split] by simp
    have "[] \<noteq> sealed_footer_encode (sealed_footer_for rs)" using length_sealed_footer_encode by (metis list.size(3) zero_neq_numeral)
    then obtain w where w: "cw_open_recovered c z p (healthy (reopened i rs t d)) = (Inr (w, recovery_of h rs []), healthy (reopened i rs t d))"
        "cw_header w = h"
      using open_recovered_healthy [OF p, of "reopened i rs t d" i h "encodings rs" rs "[]" c z] rd names(1) sp2 size i
        split_records_sound(1) [OF split] data by (auto simp: reopened_def [of i rs "[]"])
    let ?m = "\<lparr>cm_state = Open, cm_size = cw_next_offset w, cm_record_count = cw_record_count w\<rparr>"
    obtain cat' where "cat_apply ops (put_chunk (ch_generation h) (ch_chunk_id h) ?m batch_new) cat = (Inr (), cat')"
      using live [of ?m] by (rule exE)
    then have "cw_publish_open ops w cat = (Inr (), cat')"
      using writable w(2) by (simp add: cw_publish_open_def cat_io_def)
    then have "reconcile_chunk c z ops p (healthy d, cat) = (Inr (ReconciledOpen (recovery_of h rs t)), (healthy (reopened i rs t d), cat'))"
      unfolding runs using exists opened att ver hdr writable rec w(1) by (simp add: seq_on_fst_False)
    then show ?thesis using False by auto
  qed
qed

end
