(* ===== verification/LocationRebuild.thy ===== *)
theory LocationRebuild
  imports SealLaws "HOL-Library.List_Lexorder" "HOL-Library.Product_Lexorder" "HOL-Library.Char_ord"
begin

text \<open>
  Rebuilding the object locations of a catalog from the chunk files
  (\<open>crates/reflink-forest-store/src/lib.rs\<close>): every chunk is scanned strictly, one location per
  content identifier is selected, every preserved alias is checked against the selected content, and
  only then is the catalog's location family replaced.
\<close>

section \<open>Data\<close>

record location_rebuild_report =
  lr_chunk_files :: u64
  lr_sealed_chunks :: u64
  lr_open_chunks :: u64
  lr_scanned_records :: u64
  lr_selected_locations :: u64
  lr_duplicate_records :: u64
  lr_preserved_aliases_verified :: u64
  lr_catalog_batches_written :: u64

definition report_default :: location_rebuild_report where
  "report_default = \<lparr>lr_chunk_files = 0, lr_sealed_chunks = 0, lr_open_chunks = 0, lr_scanned_records = 0,
     lr_selected_locations = 0, lr_duplicate_records = 0, lr_preserved_aliases_verified = 0, lr_catalog_batches_written = 0\<rparr>"

record rebuild_candidate =
  rc_entry :: object_location_entry
  rc_path :: path

datatype rebuild_chunk_state = RebuildOpen | RebuildSealed

record rebuild_chunk_scan =
  rcs_header :: chunk_header
  rcs_state :: rebuild_chunk_state
  rcs_records :: u64

record location_rebuild_preflight =
  pf_entries :: "rebuild_candidate list"
  pf_report :: location_rebuild_report

text \<open>A \<open>BTreeMap\<close> from the bytes of a content identifier.\<close>

type_synonym selection = "(bytes, rebuild_candidate) hash_map"

text \<open>\<open>checked_add(..).ok_or(OffsetOverflow)\<close> on a counter.\<close>

definition count :: "u64 \<Rightarrow> u64 \<Rightarrow> store_error + u64" where
  "count so_far n = ok_or (checked_add so_far n) OffsetOverflow"

section \<open>Scanning one chunk\<close>

definition collect_candidate :: "chunk_header \<Rightarrow> path \<Rightarrow> rebuild_candidate list record_visitor" where
  "collect_candidate header p offset record record_length candidates =
     and_then (ok_or (try_u64 (length (obj_payload record))) OffsetOverflow) (\<lambda>stored_length.
     Inr (candidates @ [\<lparr>rc_entry = \<lparr>ole_content_id = obj_content_id record,
        ole_location = location_of (ch_generation header) (ch_chunk_id header)
          \<lparr>rl_offset = offset, rl_record_length = record_length\<rparr> stored_length record\<rparr>, rc_path = p\<rparr>]))"

definition scan_chunk_for_location_rebuild ::
  "'h crypto \<Rightarrow> zstd \<Rightarrow> path \<Rightarrow> (fs, store_error, rebuild_chunk_scan \<times> rebuild_candidate list) eff" where
  "scan_chunk_for_location_rebuild c z p =
     seq_eff (io (open_file p)) (\<lambda>file.
     seq_eff (read_chunk_header file) (\<lambda>header.
     if is_sealed_path p then
       seq_eff (verify_sealed_file_with_visitor c z file (collect_candidate header p) []) (\<lambda>(verified, candidates).
       ret (\<lparr>rcs_header = header, rcs_state = RebuildSealed, rcs_records = sf_record_count (vs_footer verified)\<rparr>, candidates))
     else if \<not> is_open_path p then raise NotAnOpenChunk
     else
       seq_eff (attempt (verify_sealed_file c z file)) (\<lambda>sealed.
       if is_ok sealed then raise OpenChunkContainsSealedFooter else
       seq_eff (io (file_len file)) (\<lambda>end_offset.
       seq_eff (scan_records_with_visitor c z file end_offset True (collect_candidate header p) []) (\<lambda>(scan, candidates).
       ret (\<lparr>rcs_header = header, rcs_state = RebuildOpen, rcs_records = scn_records scan\<rparr>, candidates))))))"

section \<open>Selecting a location\<close>

definition rebuild_location_order :: "object_location \<Rightarrow> u32 \<times> u64 \<times> u64" where
  "rebuild_location_order location = (loc_generation location, loc_chunk_id location, loc_offset location)"

definition rebuild_location_precedes :: "object_location \<Rightarrow> object_location \<Rightarrow> u32 option \<Rightarrow> bool" where
  "rebuild_location_precedes candidate existing current_gen =
     (case current_gen of
        Some current \<Rightarrow>
          if loc_generation candidate = current \<and> loc_generation existing \<noteq> current then True
          else if loc_generation candidate \<noteq> current \<and> loc_generation existing = current then False
          else rebuild_location_order candidate < rebuild_location_order existing
      | None \<Rightarrow> rebuild_location_order candidate < rebuild_location_order existing)"

definition candidate_key :: "rebuild_candidate \<Rightarrow> bytes" where
  "candidate_key candidate = content_id_bytes (ole_content_id (rc_entry candidate))"

definition select_candidate ::
  "u32 option \<Rightarrow> rebuild_candidate \<Rightarrow> selection \<times> u64 \<Rightarrow> store_error + selection \<times> u64" where
  "select_candidate current_gen candidate = (\<lambda>(selected, duplicates).
     case hm_get selected (candidate_key candidate) of
       None \<Rightarrow> Inr (hm_insert (candidate_key candidate) candidate selected, duplicates)
     | Some current \<Rightarrow>
         and_then (count duplicates 1) (\<lambda>duplicates'.
         Inr (if rebuild_location_precedes (ole_location (rc_entry candidate)) (ole_location (rc_entry current)) current_gen
              then hm_insert (candidate_key candidate) candidate selected else selected, duplicates')))"

section \<open>Preserved aliases\<close>

text \<open>
  The object IDs calculated so far are kept.  \<open>hasher.finish()\<close> panics where the digest does not
  have the length of an object ID.
\<close>

type_synonym oid_cache = "(bytes \<times> hash_algorithm, git_oid) hash_map"

definition verify_preserved_alias ::
  "'h crypto \<Rightarrow> zstd \<Rightarrow> selection \<Rightarrow> oid_alias_entry \<Rightarrow> (fs \<times> oid_cache, store_error failure, unit) eff" where
  "verify_preserved_alias c z selected entry =
     (let key = content_id_bytes (oae_content_id entry); algorithm = oid_algorithm (oae_oid entry) in
     case hm_get selected key of
       None \<Rightarrow> raise (Fails (PreservedAliasMissingContent (oae_repository entry) (oae_oid entry) (oae_content_id entry)))
     | Some candidate \<Rightarrow>
         seq_eff (\<lambda>(s, calculated).
           case hm_get calculated (key, algorithm) of
             Some oid \<Rightarrow> (Inr oid, (s, calculated))
           | None \<Rightarrow>
               let location = ole_location (rc_entry candidate) in
               (case stream_decoded_record_at c z (git_oid_hasher_write c) (rc_path candidate) location
                       (s, git_oid_hasher_new c algorithm (loc_kind location) (loc_raw_length location)) of
                  (Inl e, (s', _)) \<Rightarrow> (Inl (Fails e), (s', calculated))
                | (Inr _, (s', hasher)) \<Rightarrow>
                    (case git_oid_hasher_finish c hasher of
                       Inl _ \<Rightarrow> (Inl (Panics (case algorithm of Sha1 \<Rightarrow> ''SHA-1 digest has a fixed length'' | Sha256 \<Rightarrow> ''SHA-256 digest has a fixed length'')), (s', calculated))
                     | Inr oid \<Rightarrow> (Inr oid, (s', hm_insert (key, algorithm) oid calculated))))) (\<lambda>actual.
         if actual \<noteq> oae_oid entry
         then raise (Fails (PreservedAliasContentMismatch (oae_repository entry) (oae_oid entry) (oae_content_id entry)))
         else ret ()))"

record alias_check =
  ac_calculated :: oid_cache
  ac_failure :: "store_error option"
  ac_verified :: u64

text \<open>The visitor keeps the first failure and lets the scan run on.\<close>

definition alias_visitor ::
  "'h crypto \<Rightarrow> zstd \<Rightarrow> selection \<Rightarrow> oid_alias_entry \<Rightarrow> (fs \<times> alias_check, catalog_error failure, unit) eff" where
  "alias_visitor c z selected entry = (\<lambda>(s, a).
     if ac_failure a \<noteq> None then (Inr (), (s, a)) else
     case verify_preserved_alias c z selected entry (s, ac_calculated a) of
       (Inl (Panics message), (s', calculated)) \<Rightarrow> (Inl (Panics message), (s', a\<lparr>ac_calculated := calculated\<rparr>))
     | (Inl (Fails e), (s', calculated)) \<Rightarrow> (Inr (), (s', a\<lparr>ac_calculated := calculated, ac_failure := Some e\<rparr>))
     | (Inr _, (s', calculated)) \<Rightarrow>
         (case checked_add (ac_verified a) 1 of
            None \<Rightarrow> (Inl (Fails (Backend ''alias count overflow'')), (s', a\<lparr>ac_calculated := calculated\<rparr>))
          | Some verified \<Rightarrow> (Inr (), (s', a\<lparr>ac_calculated := calculated, ac_verified := verified\<rparr>))))"

definition verify_preserved_aliases ::
  "'h crypto \<Rightarrow> zstd \<Rightarrow> 'c catalog_ops \<Rightarrow> 'c \<Rightarrow> selection \<Rightarrow> u64 \<Rightarrow> (fs, store_error failure, u64) eff" where
  "verify_preserved_aliases c z ops cat selected verified = (\<lambda>s.
     case visit_scan (map (map_err Fails) (cat_scan_oid_aliases ops cat)) (alias_visitor c z selected)
            (s, \<lparr>ac_calculated = [], ac_failure = None, ac_verified = verified\<rparr>) of
       (Inl (Panics message), (s', _)) \<Rightarrow> (Inl (Panics message), s')
     | (Inl (Fails e), (s', _)) \<Rightarrow> (Inl (Fails (Catalog e)), s')
     | (Inr _, (s', a)) \<Rightarrow>
         (case ac_failure a of Some e \<Rightarrow> (Inl (Fails e), s') | None \<Rightarrow> (Inr (ac_verified a), s')))"

section \<open>Preflight\<close>

record preflight_state =
  ps_report :: location_rebuild_report
  ps_identities :: "(u32 \<times> u64) list"
  ps_selected :: selection

definition count_chunk :: "rebuild_chunk_scan \<Rightarrow> location_rebuild_report \<Rightarrow> store_error + location_rebuild_report" where
  "count_chunk chunk report =
     and_then (count (lr_chunk_files report) 1) (\<lambda>chunk_files.
     and_then (case rcs_state chunk of
         RebuildOpen \<Rightarrow> and_then (count (lr_open_chunks report) 1) (\<lambda>n. Inr (report\<lparr>lr_open_chunks := n\<rparr>))
       | RebuildSealed \<Rightarrow> and_then (count (lr_sealed_chunks report) 1) (\<lambda>n. Inr (report\<lparr>lr_sealed_chunks := n\<rparr>))) (\<lambda>report.
     and_then (count (lr_scanned_records report) (rcs_records chunk)) (\<lambda>scanned.
     Inr (report\<lparr>lr_chunk_files := chunk_files, lr_scanned_records := scanned\<rparr>))))"

text \<open>What one chunk contributes.\<close>

definition add_chunk ::
  "u32 option \<Rightarrow> rebuild_chunk_scan \<Rightarrow> rebuild_candidate list \<Rightarrow> preflight_state \<Rightarrow> store_error + preflight_state" where
  "add_chunk current_gen chunk candidates st =
     (let identity = (ch_generation (rcs_header chunk), ch_chunk_id (rcs_header chunk)) in
     if identity \<in> set (ps_identities st) then Inl (DuplicateRebuildChunkIdentity (fst identity) (snd identity)) else
     and_then (count_chunk chunk (ps_report st)) (\<lambda>report.
     and_then (fold_result (select_candidate current_gen) candidates (ps_selected st, lr_duplicate_records report)) (\<lambda>(selected, duplicates).
     Inr \<lparr>ps_report = report\<lparr>lr_duplicate_records := duplicates\<rparr>, ps_identities = identity # ps_identities st,
          ps_selected = selected\<rparr>)))"

primrec preflight_chunks ::
  "'h crypto \<Rightarrow> zstd \<Rightarrow> u32 option \<Rightarrow> path list \<Rightarrow> preflight_state \<Rightarrow> (fs, store_error, preflight_state) eff" where
  "preflight_chunks c z current_gen [] st = ret st"
| "preflight_chunks c z current_gen (p # paths) st =
     seq_eff (scan_chunk_for_location_rebuild c z p) (\<lambda>(chunk, candidates).
     seq_eff (lift_result (add_chunk current_gen chunk candidates st)) (\<lambda>st'.
     preflight_chunks c z current_gen paths st'))"

definition preflight_object_location_rebuild ::
  "'h crypto \<Rightarrow> zstd \<Rightarrow> 'c catalog_ops \<Rightarrow> 'c \<Rightarrow> path list \<Rightarrow> (fs, store_error failure, location_rebuild_preflight) eff" where
  "preflight_object_location_rebuild c z ops cat paths =
     seq_eff (fails (preflight_chunks c z (current_generation ops cat) (remdups_adj (sort paths))
       \<lparr>ps_report = report_default, ps_identities = [], ps_selected = []\<rparr>)) (\<lambda>st.
     seq_eff (verify_preserved_aliases c z ops cat (ps_selected st) (lr_preserved_aliases_verified (ps_report st))) (\<lambda>verified.
     seq_eff (lift_result (ok_or (try_u64 (length (ps_selected st))) (Fails OffsetOverflow))) (\<lambda>selected_locations.
     ret \<lparr>pf_entries = map snd (sort_key fst (ps_selected st)),
          pf_report = (ps_report st)\<lparr>lr_preserved_aliases_verified := verified, lr_selected_locations := selected_locations\<rparr>\<rparr>)))"

section \<open>The rebuild\<close>

text \<open>\<open>chunks_of\<close> is \<open>slice::chunks\<close>.\<close>

primrec append_batches ::
  "'c catalog_ops \<Rightarrow> rebuild_candidate list list \<Rightarrow> location_rebuild_report \<Rightarrow> ('c, store_error, location_rebuild_report) eff" where
  "append_batches ops [] report = ret report"
| "append_batches ops (batch # batches) report =
     seq_eff (cat_io (cat_append_rebuilt ops (map rc_entry batch))) (\<lambda>_.
     seq_eff (lift_result (count (lr_catalog_batches_written report) 1)) (\<lambda>n.
     append_batches ops batches (report\<lparr>lr_catalog_batches_written := n\<rparr>)))"

definition rebuild_object_locations ::
  "'h crypto \<Rightarrow> zstd \<Rightarrow> 'c catalog_ops \<Rightarrow> path list \<Rightarrow> nat \<Rightarrow> (fs \<times> 'c, store_error failure, location_rebuild_report) eff" where
  "rebuild_object_locations c z ops paths maximum_batch_entries =
     (if maximum_batch_entries = 0 then raise (Fails InvalidLocationRebuildBatchSize) else
      seq_eff (ask (\<lambda>s. cat_rebuild_state ops (snd s))) (\<lambda>r.
      seq_eff (lift_result (map_err (\<lambda>e. Fails (Catalog e)) r)) (\<lambda>state.
      seq_eff (if state = InProgress then fails (on_snd (cat_io (cat_restart_rebuild ops))) else ret ()) (\<lambda>_.
      seq_eff (ask snd) (\<lambda>cat.
      seq_eff (on_fst (preflight_object_location_rebuild c z ops cat paths)) (\<lambda>preflight.
      seq_eff (if state = Idle then fails (on_snd (cat_io (cat_begin_rebuild ops))) else ret ()) (\<lambda>_.
      seq_eff (fails (on_snd (append_batches ops (chunks_of maximum_batch_entries (pf_entries preflight)) (pf_report preflight)))) (\<lambda>report.
      seq_eff (fails (on_snd (cat_io (cat_finish_rebuild ops)))) (\<lambda>_.
      ret report)))))))))"

end
