(* ===== verification/RebuildLaws.thy ===== *)
theory RebuildLaws
  imports LocationRebuild
begin

text \<open>
  What a location rebuild establishes.  \<open>chunk_holds\<close> says which records a chunk file holds; a
  preflight that succeeds has found exactly those of every file, selected the best location of each
  content identifier, and recalculated the object ID of every alias from the selected content.
\<close>

section \<open>What a chunk file holds\<close>

definition chunk_holds :: "'h crypto \<Rightarrow> zstd \<Rightarrow> disk \<Rightarrow> path \<Rightarrow> chunk_header \<Rightarrow> object_record list \<Rightarrow> bool" where
  "chunk_holds c z d p h rs \<longleftrightarrow> list_all fits rs \<and> list_all (\<lambda>r. verify_object_record c z r = Inr ()) rs \<and>
     (\<exists>i. dk_names d p = Some i \<and>
       (is_sealed_path p \<and> data_of d i = sealed_image h rs \<or> is_open_path p \<and> data_of d i = chunk_front h rs))"

lemma chunk_header_front:
  assumes "chunk_header_encode h @ x = chunk_header_encode h' @ y"
  shows "h = h' \<and> x = y"
proof -
  have "Inr h = (Inr h' :: format_error + chunk_header)"
    using chunk_header_decode_encode [of h x] chunk_header_decode_encode [of h' y] unfolding assms by (rule trans [OF sym])
  then show ?thesis using assms by simp
qed

lemma chunk_holds_split:
  assumes "chunk_holds c z d p h rs"
  shows "\<exists>i t. dk_names d p = Some i \<and> data_of d i = chunk_header_encode h @ encodings rs @ t \<and> split_records (encodings rs @ t) = (rs, t)"
proof -
  have rs: "list_all fits rs" using assms by (simp add: chunk_holds_def)
  have "whole_record (sealed_footer_encode (sealed_footer_for rs)) = None" by (rule whole_record_short) simp
  note split = split_records_unique [OF rs this] split_records_unique [OF rs whole_record_Nil]
  show ?thesis using assms split by (auto simp: chunk_holds_def sealed_image_def chunk_front_def)
qed

lemma chunk_holds_unique:
  assumes "chunk_holds c z d p h rs" and "chunk_holds c z d p h' rs'"
  shows "h = h' \<and> rs = rs'"
proof -
  obtain i t where a: "dk_names d p = Some i" "data_of d i = chunk_header_encode h @ encodings rs @ t" "split_records (encodings rs @ t) = (rs, t)"
    using chunk_holds_split [OF assms(1)] by blast
  obtain j t' where b: "dk_names d p = Some j" "data_of d j = chunk_header_encode h' @ encodings rs' @ t'" "split_records (encodings rs' @ t') = (rs', t')"
    using chunk_holds_split [OF assms(2)] by blast
  have "data_of d i = chunk_header_encode h' @ encodings rs' @ t'" using b(2) a(1) b(1) by simp
  from trans [OF a(2) [symmetric] this] have e: "h = h' \<and> encodings rs @ t = encodings rs' @ t'" by (rule chunk_header_front)
  have "(rs, t) = (rs', t')"
    by (rule trans [OF trans [OF a(3) [symmetric] arg_cong [where f = split_records, OF conjunct2 [OF e]]] b(3)])
  then show ?thesis using e by blast
qed

section \<open>Candidates\<close>

primrec candidates_at :: "chunk_header \<Rightarrow> path \<Rightarrow> u64 \<Rightarrow> object_record list \<Rightarrow> rebuild_candidate list" where
  "candidates_at h p off [] = []"
| "candidates_at h p off (r # rs) =
     \<lparr>rc_entry = \<lparr>ole_content_id = obj_content_id r, ole_location = object_location_at h off r\<rparr>, rc_path = p\<rparr>
       # candidates_at h p (off + word_of_nat (length (record_bytes r))) rs"

lemma visit_collect:
  "list_all fits rs \<Longrightarrow> visit_records (collect_candidate h p) off rs cs = Inr (cs @ candidates_at h p off rs)"
proof (induction rs arbitrary: off cs)
  case (Cons r rs)
  then have "try_u64 (length (obj_payload r)) = Some (word_of_nat (length (obj_payload r)))"
    using fits_payload [of r] by (simp add: try_u64_def)
  then show ?case using Cons by (simp add: collect_candidate_def object_location_at_def)
qed simp

lemma length_candidates_at [simp]: "length (candidates_at h p off rs) = length rs"
  by (induction rs arbitrary: off) simp_all

lemma candidates_at_append:
  "candidates_at h p off (rs @ ss) = candidates_at h p off rs @ candidates_at h p (off + word_of_nat (length (encodings rs))) ss"
  by (induction rs arbitrary: off) (simp_all add: add.assoc)

lemma candidates_at_split:
  "x \<in> set (candidates_at h p off rs) \<Longrightarrow> \<exists>rs1 r rs2. rs = rs1 @ r # rs2 \<and>
     x = \<lparr>rc_entry = \<lparr>ole_content_id = obj_content_id r,
       ole_location = object_location_at h (off + word_of_nat (length (encodings rs1))) r\<rparr>, rc_path = p\<rparr>"
proof (induction rs arbitrary: off)
  case (Cons a rs)
  then consider (here) "x = \<lparr>rc_entry = \<lparr>ole_content_id = obj_content_id a, ole_location = object_location_at h off a\<rparr>, rc_path = p\<rparr>"
    | (later) "x \<in> set (candidates_at h p (off + word_of_nat (length (record_bytes a))) rs)" by auto
  then show ?case
  proof cases
    case here
    then show ?thesis by (intro exI [of _ "[]"] exI [of _ a] exI [of _ rs]) simp
  next
    case later
    from Cons.IH [OF this] obtain rs1 r rs2 where y: "rs = rs1 @ r # rs2" "x = \<lparr>rc_entry = \<lparr>ole_content_id = obj_content_id r,
       ole_location = object_location_at h (off + word_of_nat (length (record_bytes a)) + word_of_nat (length (encodings rs1))) r\<rparr>, rc_path = p\<rparr>"
      by blast
    then show ?thesis by (intro exI [of _ "a # rs1"] exI [of _ r] exI [of _ rs2]) (simp add: add.assoc)
  qed
qed simp

text \<open>A candidate can be read where it was found.\<close>

lemma candidate_read:
  assumes "disk_wf d" and "chunk_holds c z d p h rs" and "x \<in> set (candidates_at h p 64 rs)"
  shows "\<exists>r. outcome (read_record_at c z (rc_path x) (ole_location (rc_entry x))) d = Inr r \<and>
    obj_content_id r = ole_content_id (rc_entry x) \<and> r \<in> set rs"
proof -
  obtain rs1 r rs2 where x: "rs = rs1 @ r # rs2" "x = \<lparr>rc_entry = \<lparr>ole_content_id = obj_content_id r,
       ole_location = object_location_at h (64 + word_of_nat (length (encodings rs1))) r\<rparr>, rc_path = p\<rparr>"
    using candidates_at_split [OF assms(3)] by blast
  obtain i where i: "dk_names d p = Some i" "prefix (chunk_front h rs) (data_of d i)"
    using assms(2) by (auto simp: chunk_holds_def sealed_image_def chunk_front_def)
  have "prefix (chunk_front h (rs1 @ [r])) (data_of d i)"
    using i(2) x(1) chunk_front_append [of h "rs1 @ [r]" rs2] append_prefixD by fastforce
  then show ?thesis using front_read [OF assms(1) i(1), of h rs1 r c z] assms(2) x by (simp add: chunk_holds_def)
qed

section \<open>Scanning one chunk\<close>

lemma scan_chunk_quiet:
  assumes "scan_chunk_for_location_rebuild c z p s = (q, s')"
  shows "fs_disk s' = fs_disk s"
proof -
  note ro = keeps_read_only [where P = "\<lambda>x. x = d" for d]
  have "keeps (\<lambda>s. fs_disk s = d) (scan_chunk_for_location_rebuild c z p)" for d
    unfolding scan_chunk_for_location_rebuild_def
    by (intro keeps_seq_eff keeps_if keeps_case_prod keeps_ret keeps_raise keeps_attempt ro [OF read_only_io [OF read_only_file_ops(1)]]
        ro [OF read_only_io [OF read_only_file_ops(2)]] ro [OF read_only_read_chunk_header] ro [OF verify_sealed_read_only(1)]
        ro [OF verify_sealed_read_only(2)] ro [OF scan_records_read_only(1)])
  then show ?thesis using assms by (auto dest: keepsD)
qed

lemma scan_chunk_result:
  assumes wf: "disk_wf (fs_disk s)" and run: "scan_chunk_for_location_rebuild c z p s = (Inr (chunk, candidates), s')"
  shows "\<exists>rs. chunk_holds c z (fs_disk s) p (rcs_header chunk) rs \<and> candidates = candidates_at (rcs_header chunk) p 64 rs \<and>
    unat (rcs_records chunk) = length rs"
proof -
  let ?d = "fs_disk s"
  obtain i s1 h s2 where st: "open_file p s = (Inr i, s1)" "read_chunk_header i s1 = (Inr h, s2)"
    using run
    by (auto simp: scan_chunk_for_location_rebuild_def io_def map_err_Inr_iff simp del: seq_eff_ok_iff elim!: seq_okE split: prod.split_asm)
  note O = read_onlyD [OF read_only_file_ops(1) st(1)]
  note H = read_onlyD [OF read_only_read_chunk_header st(2)]
  have i: "dk_names ?d p = Some i" using O(3) by (auto split: option.splits)
  then have size: "length (data_of ?d i) < file_size_limit"
    using inode_wf_at [OF wf disk_wf_names [OF wf]] by (simp add: inode_wf_def)
  have h: "prefix (chunk_header_encode h) (data_of ?d i)" using H(3) O(1) by (simp add: read_chunk_header_outcome)
  have d: "fs_disk s2 = ?d" using O(1) H(1) by simp
  show ?thesis
  proof (cases "is_sealed_path p")
    case True
    then obtain v where v: "verify_sealed_file_with_visitor c z i (collect_candidate h p) [] s2 = (Inr (v, candidates), s')"
        "chunk = \<lparr>rcs_header = h, rcs_state = RebuildSealed, rcs_records = sf_record_count (vs_footer v)\<rparr>"
      using run st
      by (auto simp: scan_chunk_for_location_rebuild_def io_def simp del: seq_eff_ok_iff elim!: seq_okE split: prod.split_asm)
    obtain rs where rs: "data_of ?d i = sealed_image (vs_header v) rs" "vs_footer v = sealed_footer_for rs" "list_all fits rs"
        "list_all (\<lambda>r. verify_object_record c z r = Inr ()) rs" "visit_records (collect_candidate h p) 64 rs [] = Inr candidates"
      using read_onlyD(3) [OF verify_sealed_read_only(1) v(1) refl] unfolding d verify_sealed_file_iff [OF size] by blast
    obtain x where "data_of ?d i = chunk_header_encode h @ x" using h by (rule prefixE)
    from trans [OF this [symmetric] rs(1) [unfolded sealed_image_def]] have "vs_header v = h" using chunk_header_front by blast
    moreover have "length rs < u64_limit" using records_short [OF rs(3)] size rs(1) by simp
    ultimately show ?thesis
      using rs v(2) i True by (intro exI [of _ rs]) (auto simp: chunk_holds_def visit_collect sealed_footer_for_def unat_u64_of_nat)
  next
    case False
    then obtain s3 n s4 scan where v: "is_open_path p" "fs_disk s3 = ?d" "file_len i s3 = (Inr n, s4)"
        "scan_records_with_visitor c z i n True (collect_candidate h p) [] s4 = (Inr (scan, candidates), s')"
        "chunk = \<lparr>rcs_header = h, rcs_state = RebuildOpen, rcs_records = scn_records scan\<rparr>"
      using run st d
      by (auto simp: scan_chunk_for_location_rebuild_def io_def attempt_def map_err_Inr_iff simp del: seq_eff_ok_iff elim!: seq_okE
          dest!: read_onlyD(1) [OF verify_sealed_read_only(2)] split: prod.split_asm if_split_asm)
    note L = read_onlyD [OF read_only_file_ops(2) v(3)]
    have n: "unat n = length (data_of ?d i)" using L(3) v(2) size by (auto simp: unat_u64_of_nat)
    have "64 \<le> length (data_of ?d i)" using prefix_length_le [OF h] by simp
    then obtain rs where rs: "drop 64 (data_of ?d i) = encodings rs" "list_all fits rs" "list_all (\<lambda>r. verify_object_record c z r = Inr ()) rs"
        "visit_records (collect_candidate h p) 64 rs [] = Inr candidates" "scn_records scan = word_of_nat (length rs)"
      using read_onlyD(3) [OF scan_records_read_only(1) v(4) refl] scan_records_strict [of n ?d i c z "collect_candidate h p" "[]" scan candidates]
        L(1) v(2) n by auto
    obtain x where x: "data_of ?d i = chunk_header_encode h @ x" using h by (rule prefixE)
    have "data_of ?d i = chunk_front h rs" using rs(1) by (simp add: x chunk_front_def)
    moreover have "length rs < u64_limit" using records_short [OF rs(2)] size unfolding rs(1) [symmetric] by simp
    ultimately show ?thesis
      using rs v(1,5) i by (intro exI [of _ rs]) (auto simp: chunk_holds_def visit_collect unat_u64_of_nat)
  qed
qed

section \<open>Selection\<close>

text \<open>Locations of the current generation come first, then the lexicographic order of generation, chunk and offset.\<close>

definition location_rank :: "u32 option \<Rightarrow> object_location \<Rightarrow> bool \<times> u32 \<times> u64 \<times> u64" where
  "location_rank current_gen location = (current_gen \<noteq> Some (loc_generation location), rebuild_location_order location)"

lemma precedes_iff_rank: "rebuild_location_precedes a b g \<longleftrightarrow> location_rank g a < location_rank g b"
  by (cases g) (auto simp: rebuild_location_precedes_def location_rank_def less_prod_def')

abbreviation candidate_rank :: "u32 option \<Rightarrow> rebuild_candidate \<Rightarrow> bool \<times> u32 \<times> u64 \<times> u64" where
  "candidate_rank g x \<equiv> location_rank g (ole_location (rc_entry x))"

text \<open>The selection holds the best of the candidates of every content identifier.\<close>

definition selection_of :: "u32 option \<Rightarrow> selection \<Rightarrow> rebuild_candidate list \<Rightarrow> bool" where
  "selection_of g sel cs \<longleftrightarrow> hm_wf sel \<and>
     (\<forall>k x. hm_get sel k = Some x \<longrightarrow> x \<in> set cs \<and> candidate_key x = k) \<and>
     (\<forall>x \<in> set cs. \<exists>y. hm_get sel (candidate_key x) = Some y \<and> candidate_rank g y \<le> candidate_rank g x)"

lemma length_hm_insert: "length (hm_insert k v m) = (if hm_get m k = None then Suc (length m) else length m)"
  unfolding hm_insert_def hm_get_def by (induction m) auto

lemma select_candidate_result:
  assumes sel: "selection_of g sel cs" and run: "select_candidate g x (sel, n) = Inr (sel', n')"
  shows "selection_of g sel' (cs @ [x]) \<and> unat n' + length sel' = unat n + length sel + 1"
proof (cases "hm_get sel (candidate_key x)")
  case None
  then have "sel' = hm_insert (candidate_key x) x sel" "n' = n" using run by (simp_all add: select_candidate_def)
  then show ?thesis using sel None by (auto simp: selection_of_def length_hm_insert)
next
  case (Some y)
  then have n: "unat n' = unat n + 1"
      and s: "sel' = (if candidate_rank g x < candidate_rank g y then hm_insert (candidate_key x) x sel else sel)"
    using run by (auto simp: select_candidate_def count_def ok_iff precedes_iff_rank dest!: checked_add_unat simp del: checked_add_Some_iff)
  have "length sel' = length sel" using Some by (simp add: s length_hm_insert)
  moreover have "selection_of g sel' (cs @ [x])"
  proof (cases "candidate_rank g x < candidate_rank g y")
    case True
    have "\<exists>b. hm_get sel' (candidate_key a) = Some b \<and> candidate_rank g b \<le> candidate_rank g a" if "a \<in> set (cs @ [x])" for a
    proof (cases "candidate_key a = candidate_key x")
      case eq: True
      have "a = x \<or> candidate_rank g y \<le> candidate_rank g a"
        using that sel Some eq by (auto simp: selection_of_def)
      then show ?thesis using True eq by (auto simp: s)
    next
      case False
      then show ?thesis using that sel by (auto simp: s selection_of_def)
    qed
    then show ?thesis using sel True by (auto simp: s selection_of_def)
  next
    case False
    then show ?thesis using sel Some by (auto simp: s selection_of_def not_less)
  qed
  ultimately show ?thesis using n by simp
qed

lemma select_all_result:
  assumes "selection_of g sel cs" and "fold_result (select_candidate g) xs (sel, n) = Inr (sel', n')"
  shows "selection_of g sel' (cs @ xs) \<and> unat n' + length sel' = unat n + length sel + length xs"
  using assms
proof (induction xs arbitrary: sel n cs)
  case (Cons x xs)
  then obtain sel1 n1 where x: "select_candidate g x (sel, n) = Inr (sel1, n1)"
      "fold_result (select_candidate g) xs (sel1, n1) = Inr (sel', n')" by (auto simp: ok_iff)
  note r = select_candidate_result [OF Cons.prems(1) x(1)]
  show ?case using Cons.IH [OF conjunct1 [OF r] x(2)] r by simp
qed simp

section \<open>The preflight\<close>

abbreviation chunk_identity :: "chunk_header \<Rightarrow> u32 \<times> u64" where
  "chunk_identity h \<equiv> (ch_generation h, ch_chunk_id h)"

text \<open>The headers and the candidates of a list of chunk files.\<close>

primrec gathered ::
  "'h crypto \<Rightarrow> zstd \<Rightarrow> disk \<Rightarrow> path list \<Rightarrow> chunk_header list \<Rightarrow> rebuild_candidate list \<Rightarrow> bool" where
  "gathered c z d [] hs cs \<longleftrightarrow> hs = [] \<and> cs = []"
| "gathered c z d (p # ps) hs cs \<longleftrightarrow> (\<exists>h hs' rs cs'. hs = h # hs' \<and> cs = candidates_at h p 64 rs @ cs' \<and>
     chunk_holds c z d p h rs \<and> gathered c z d ps hs' cs')"

lemma gathered_iff:
  assumes "gathered c z d ps hs cs"
  shows "x \<in> set cs \<longleftrightarrow> (\<exists>p \<in> set ps. \<exists>h rs. chunk_holds c z d p h rs \<and> x \<in> set (candidates_at h p 64 rs))"
    and "p \<in> set ps \<Longrightarrow> \<exists>h rs. chunk_holds c z d p h rs \<and> h \<in> set hs"
proof -
  show "p \<in> set ps \<Longrightarrow> \<exists>h rs. chunk_holds c z d p h rs \<and> h \<in> set hs"
    using assms by (induction ps arbitrary: hs cs) (fastforce)+
  show "x \<in> set cs \<longleftrightarrow> (\<exists>p \<in> set ps. \<exists>h rs. chunk_holds c z d p h rs \<and> x \<in> set (candidates_at h p 64 rs))"
    using assms
  proof (induction ps arbitrary: hs cs)
    case (Cons p ps)
    then obtain h hs' rs cs' where x: "cs = candidates_at h p 64 rs @ cs'" "chunk_holds c z d p h rs" "gathered c z d ps hs' cs'" by auto
    have "x \<in> set (candidates_at h p 64 rs) \<longleftrightarrow> (\<exists>h rs. chunk_holds c z d p h rs \<and> x \<in> set (candidates_at h p 64 rs))"
      using x(2) chunk_holds_unique [OF x(2)] by blast
    then show ?case using Cons.IH [OF x(3)] unfolding x(1) by (simp only: set_append Un_iff list.set insert_iff bex_simps)
  qed simp
qed

lemma count_chunk_result:
  assumes "count_chunk chunk report = Inr report'"
  shows "unat (lr_chunk_files report') = unat (lr_chunk_files report) + 1 \<and>
    unat (lr_open_chunks report') + unat (lr_sealed_chunks report') = unat (lr_open_chunks report) + unat (lr_sealed_chunks report) + 1 \<and>
    unat (lr_scanned_records report') = unat (lr_scanned_records report) + unat (rcs_records chunk) \<and>
    lr_duplicate_records report' = lr_duplicate_records report \<and>
    lr_preserved_aliases_verified report' = lr_preserved_aliases_verified report \<and>
    lr_catalog_batches_written report' = lr_catalog_batches_written report"
  using assms
  by (auto simp: count_chunk_def count_def and_then_Inr_iff ok_or_Inr_iff dest!: checked_add_unat split: rebuild_chunk_state.split_asm)

text \<open>What holds of the state of a preflight that has seen the candidates \<open>cs\<close> in the chunks \<open>hs\<close>.\<close>

definition preflight_inv :: "u32 option \<Rightarrow> chunk_header list \<Rightarrow> rebuild_candidate list \<Rightarrow> preflight_state \<Rightarrow> bool" where
  "preflight_inv g hs cs st \<longleftrightarrow> selection_of g (ps_selected st) cs \<and> distinct (map chunk_identity hs) \<and>
     set (ps_identities st) = set (map chunk_identity hs) \<and>
     unat (lr_chunk_files (ps_report st)) = length hs \<and>
     unat (lr_open_chunks (ps_report st)) + unat (lr_sealed_chunks (ps_report st)) = length hs \<and> unat (lr_scanned_records (ps_report st)) = length cs \<and>
     unat (lr_duplicate_records (ps_report st)) + length (ps_selected st) = length cs \<and>
     lr_preserved_aliases_verified (ps_report st) = 0 \<and> lr_catalog_batches_written (ps_report st) = 0"

lemma add_chunk_result:
  assumes inv: "preflight_inv g hs cs st" and n: "unat (rcs_records chunk) = length xs"
    and run: "add_chunk g chunk xs st = Inr st'"
  shows "preflight_inv g (hs @ [rcs_header chunk]) (cs @ xs) st'"
proof -
  let ?id = "chunk_identity (rcs_header chunk)"
  obtain report sel n' where st: "?id \<notin> set (ps_identities st)" "count_chunk chunk (ps_report st) = Inr report"
      "fold_result (select_candidate g) xs (ps_selected st, lr_duplicate_records report) = Inr (sel, n')"
      "st' = \<lparr>ps_report = report\<lparr>lr_duplicate_records := n'\<rparr>, ps_identities = ?id # ps_identities st, ps_selected = sel\<rparr>"
    using run by (auto simp: add_chunk_def Let_def and_then_Inr_iff split: if_splits prod.splits)
  note r = count_chunk_result [OF st(2)]
  have "selection_of g (ps_selected st) cs" using inv by (simp add: preflight_inv_def)
  note s = select_all_result [OF this st(3)]
  show ?thesis using inv r s st(1) n unfolding preflight_inv_def st(4) by auto
qed

lemma preflight_chunks_result:
  assumes "disk_wf (fs_disk s)" and "preflight_inv g hs cs st" and "preflight_chunks c z g ps st s = (q, s')"
  shows "fs_disk s' = fs_disk s" and "q = Inr st' \<Longrightarrow> \<exists>hs' cs'. gathered c z (fs_disk s) ps hs' cs' \<and> preflight_inv g (hs @ hs') (cs @ cs') st'"
proof -
  have "fs_disk s' = fs_disk s \<and> (q = Inr st' \<longrightarrow> (\<exists>hs' cs'. gathered c z (fs_disk s) ps hs' cs' \<and> preflight_inv g (hs @ hs') (cs @ cs') st'))"
    using assms
  proof (induction ps arbitrary: s st hs cs)
    case (Cons p ps)
    obtain q1 s1 where one: "scan_chunk_for_location_rebuild c z p s = (q1, s1)" by fastforce
    note quiet = scan_chunk_quiet [OF one]
    show ?case
    proof (cases q1)
      case (Inl e)
      then show ?thesis using Cons.prems(3) one quiet by auto
    next
      case (Inr y)
      obtain chunk xs where y: "y = (chunk, xs)" by fastforce
      obtain rs where rs: "chunk_holds c z (fs_disk s) p (rcs_header chunk) rs" "xs = candidates_at (rcs_header chunk) p 64 rs"
          "unat (rcs_records chunk) = length rs"
        using scan_chunk_result [OF Cons.prems(1)] one Inr y by blast
      show ?thesis
      proof (cases "add_chunk g chunk xs st")
        case e: (Inl e)
        then show ?thesis using Cons.prems(3) one quiet Inr y by auto
      next
        case st1: (Inr st1)
        have "preflight_inv g (hs @ [rcs_header chunk]) (cs @ xs) st1"
          by (rule add_chunk_result [OF Cons.prems(2) _ st1]) (simp add: rs)
        moreover have "preflight_chunks c z g ps st1 s1 = (q, s')" using Cons.prems(3) one Inr y st1 by simp
        ultimately have "fs_disk s' = fs_disk s1 \<and> (q = Inr st' \<longrightarrow> (\<exists>hs' cs'. gathered c z (fs_disk s1) ps hs' cs' \<and>
            preflight_inv g ((hs @ [rcs_header chunk]) @ hs') ((cs @ xs) @ cs') st'))"
          using Cons.prems(1) quiet by (intro Cons.IH) simp_all
        moreover have "gathered c z (fs_disk s) ps hs' cs' \<Longrightarrow> gathered c z (fs_disk s) (p # ps) (rcs_header chunk # hs') (xs @ cs')" for hs' cs'
          using rs(1,2) by auto
        ultimately show ?thesis using quiet by (metis append.assoc append_Cons append_Nil)
      qed
    qed
  qed auto
  then show "fs_disk s' = fs_disk s" and "q = Inr st' \<Longrightarrow> \<exists>hs' cs'. gathered c z (fs_disk s) ps hs' cs' \<and> preflight_inv g (hs @ hs') (cs @ cs') st'"
    by blast+
qed

section \<open>Preserved aliases\<close>

text \<open>\<open>oid\<close> is the object ID of the content selected under \<open>key\<close>.\<close>

definition verified_oid :: "'h crypto \<Rightarrow> zstd \<Rightarrow> disk \<Rightarrow> selection \<Rightarrow> bytes \<Rightarrow> hash_algorithm \<Rightarrow> git_oid \<Rightarrow> bool" where
  "verified_oid c z d sel key alg oid \<longleftrightarrow> (\<exists>x r raw. hm_get sel key = Some x \<and>
     outcome (read_record_at c z (rc_path x) (ole_location (rc_entry x))) d = Inr r \<and>
     decode_object_payload c z r = Inr raw \<and> git_oid_for_object c alg (obj_kind r) raw = Inr oid)"

definition readable :: "'h crypto \<Rightarrow> zstd \<Rightarrow> disk \<Rightarrow> selection \<Rightarrow> bool" where
  "readable c z d sel \<longleftrightarrow> (\<forall>key x. hm_get sel key = Some x \<longrightarrow>
     (\<exists>r. outcome (read_record_at c z (rc_path x) (ole_location (rc_entry x))) d = Inr r \<and>
       content_id_bytes (obj_content_id r) = key))"

definition cache_ok :: "'h crypto \<Rightarrow> zstd \<Rightarrow> disk \<Rightarrow> selection \<Rightarrow> oid_cache \<Rightarrow> bool" where
  "cache_ok c z d sel cache \<longleftrightarrow> (\<forall>key alg oid. hm_get cache (key, alg) = Some oid \<longrightarrow> verified_oid c z d sel key alg oid)"

lemma streamed_oid:
  assumes c: "crypto_ok c" and wf: "disk_wf (fs_disk s)"
    and read: "outcome (read_record_at c z p loc) (fs_disk s) = Inr r"
    and run: "stream_decoded_record_at c z (git_oid_hasher_write c) p loc (s, git_oid_hasher_new c alg (loc_kind loc) (loc_raw_length loc)) = (Inr m, (s', hasher))"
  shows "\<exists>raw oid. decode_object_payload c z r = Inr raw \<and> git_oid_for_object c alg (obj_kind r) raw = Inr oid \<and> git_oid_hasher_finish c hasher = Inr oid"
proof -
  let ?d = "fs_disk s"
  obtain i h r' ps where st: "dk_names ?d p = Some i"
      "decode_record (drop (unat (loc_offset loc)) (data_of ?d i)) = Inr (r', unat (loc_record_length loc))"
      "loc = object_location_at h (loc_offset loc) r'"
      "accepted (git_oid_hasher_write c) (git_oid_hasher_new c alg (loc_kind loc) (loc_raw_length loc)) ps hasher"
      "decode_object_payload c z r' = Inr (concat ps)"
    using oid_hasher.stream_decoded_record_at_sound [OF c wf run] by blast
  obtain j where j: "outcome (open_location p loc) ?d = Inr j"
      "whole_record (drop (unat (loc_offset loc)) (data_of ?d j)) = Some (r, unat (loc_record_length loc))"
    using read unfolding read_record_at_parts [OF wf] by blast
  have "j = i" using j(1) st(1) unfolding open_location_iff [OF wf] by simp
  then have "r' = r" using j(2) st(2) by (simp add: whole_record_def split: if_splits)
  moreover have kind: "loc_kind loc = obj_kind r'" "loc_raw_length loc = obj_raw_length r'"
    using st(3) by (metis location_of_def object_location.select_convs object_location_at_def)+
  moreover have "length (concat ps) = unat (obj_raw_length r')" by (rule decode_object_payload_sound(1) [OF c st(5)])
  then have len: "obj_raw_length r' = word_of_nat (length (concat ps))" "length (concat ps) < u64_limit" by simp_all
  have "git_oid_hasher_finish c hasher = git_oid_for_object c alg (obj_kind r') (concat ps)"
    by (rule git_oid_hasher_parts [OF c len(2)]) (use st(4) kind len(1) in simp)
  moreover obtain oid where "git_oid_for_object c alg (obj_kind r') (concat ps) = Inr oid" by (rule git_oid_for_object_ok [OF c])
  ultimately show ?thesis using st(5) by auto
qed

lemma verify_preserved_alias_result:
  assumes c: "crypto_ok c" and wf: "disk_wf (fs_disk s)" and rd: "readable c z (fs_disk s) sel" and ok: "cache_ok c z (fs_disk s) sel cache"
    and run: "verify_preserved_alias c z sel e (s, cache) = (q, (s', cache'))"
  shows "fs_disk s' = fs_disk s" and "cache_ok c z (fs_disk s) sel cache'" and "q \<noteq> Inl (Panics m)"
    and "q = Inr u \<Longrightarrow> verified_oid c z (fs_disk s) sel (content_id_bytes (oae_content_id e)) (oid_algorithm (oae_oid e)) (oae_oid e)"
proof -
  let ?d = "fs_disk s" and ?key = "content_id_bytes (oae_content_id e)" and ?alg = "oid_algorithm (oae_oid e)"
  have "fs_disk s' = ?d \<and> cache_ok c z ?d sel cache' \<and> (\<forall>m. q \<noteq> Inl (Panics m)) \<and>
    (\<forall>u. q = Inr u \<longrightarrow> verified_oid c z ?d sel ?key ?alg (oae_oid e))"
  proof (cases "hm_get sel ?key")
    case None
    then show ?thesis using run ok by (auto simp: verify_preserved_alias_def Let_def)
  next
    case (Some x)
    show ?thesis
    proof (cases "hm_get cache (?key, ?alg)")
      case cached: (Some oid)
      then show ?thesis
        using run ok Some by (auto simp: verify_preserved_alias_def Let_def seq_eff_def cache_ok_def split: if_splits)
    next
      case None
      let ?loc = "ole_location (rc_entry x)"
      let ?run = "stream_decoded_record_at c z (git_oid_hasher_write c) (rc_path x) ?loc
        (s, git_oid_hasher_new c ?alg (loc_kind ?loc) (loc_raw_length ?loc))"
      obtain q1 s1 hasher where st: "?run = (q1, (s1, hasher))" by (metis prod_cases3)
      have d: "fs_disk s1 = ?d" by (rule oid_hasher.stream_decoded_quiet [OF st])
      show ?thesis
      proof (cases q1)
        case (Inl err)
        then show ?thesis using run ok Some None st d by (auto simp: verify_preserved_alias_def Let_def seq_eff_def)
      next
        case (Inr m)
        obtain r where r: "outcome (read_record_at c z (rc_path x) ?loc) ?d = Inr r" using rd Some by (auto simp: readable_def)
        obtain raw oid where o: "decode_object_payload c z r = Inr raw" "git_oid_for_object c ?alg (obj_kind r) raw = Inr oid"
            "git_oid_hasher_finish c hasher = Inr oid"
          using streamed_oid [OF c wf r st [unfolded Inr]] by blast
        then have v: "verified_oid c z ?d sel ?key ?alg oid" using Some r by (auto simp: verified_oid_def)
        have run': "s' = s1" "cache' = hm_insert (?key, ?alg) oid cache"
            "q = (if oid \<noteq> oae_oid e then Inl (Fails (PreservedAliasContentMismatch (oae_repository e) (oae_oid e) (oae_content_id e))) else Inr ())"
          using run Some None st Inr o(3) by (auto simp: verify_preserved_alias_def Let_def seq_eff_def split: if_splits)
        have "cache_ok c z ?d sel cache'" using ok v by (auto simp: run' cache_ok_def)
        then show ?thesis using v d by (auto simp: run')
      qed
    qed
  qed
  then show "fs_disk s' = ?d" and "cache_ok c z ?d sel cache'" and "q \<noteq> Inl (Panics m)"
    and "q = Inr u \<Longrightarrow> verified_oid c z ?d sel ?key ?alg (oae_oid e)" by blast+
qed

definition alias_inv :: "'h crypto \<Rightarrow> zstd \<Rightarrow> disk \<Rightarrow> selection \<Rightarrow> oid_alias_entry list \<Rightarrow> fs \<times> alias_check \<Rightarrow> bool" where
  "alias_inv c z d sel es sa \<longleftrightarrow> fs_disk (fst sa) = d \<and> cache_ok c z d sel (ac_calculated (snd sa)) \<and>
     (ac_failure (snd sa) = None \<longrightarrow> unat (ac_verified (snd sa)) = length es \<and>
       (\<forall>e \<in> set es. verified_oid c z d sel (content_id_bytes (oae_content_id e)) (oid_algorithm (oae_oid e)) (oae_oid e)))"

lemma alias_visitor_result:
  assumes c: "crypto_ok c" and wf: "disk_wf d" and rd: "readable c z d sel" and inv: "alias_inv c z d sel es sa"
    and run: "alias_visitor c z sel e sa = (q, sa')"
  shows "fs_disk (fst sa') = d" and "q \<noteq> Inl (Panics m)" and "q = Inr u \<Longrightarrow> alias_inv c z d sel (es @ [e]) sa'"
proof -
  obtain s a where sa: "sa = (s, a)" by fastforce
  have d: "fs_disk s = d" "cache_ok c z d sel (ac_calculated a)" using inv by (simp_all add: alias_inv_def sa)
  have "fs_disk (fst sa') = d \<and> (\<forall>m. q \<noteq> Inl (Panics m)) \<and> (\<forall>u. q = Inr u \<longrightarrow> alias_inv c z d sel (es @ [e]) sa')"
  proof (cases "ac_failure a")
    case (Some f)
    then show ?thesis using run d by (auto simp: alias_visitor_def sa alias_inv_def)
  next
    case None
    obtain q1 s1 cache1 where one: "verify_preserved_alias c z sel e (s, ac_calculated a) = (q1, (s1, cache1))" by (metis prod_cases3)
    note v = verify_preserved_alias_result [OF c _ _ _ one, unfolded d, OF wf rd d(2)]
    consider (failed) f where "q1 = Inl (Fails f)" | (fine) "q1 = Inr ()" by (metis failure.exhaust v(3) old.unit.exhaust sum.exhaust)
    then show ?thesis
    proof cases
      case failed
      then show ?thesis using run None one v(1,2) by (auto simp: alias_visitor_def sa alias_inv_def)
    next
      case fine
      then show ?thesis
        using run None one v(1,2) v(4) [OF fine] inv
        by (auto simp: alias_visitor_def sa alias_inv_def dest: checked_add_unat simp del: checked_add_Some_iff split: option.split_asm)
    qed
  qed
  then show "fs_disk (fst sa') = d" and "q \<noteq> Inl (Panics m)" and "q = Inr u \<Longrightarrow> alias_inv c z d sel (es @ [e]) sa'" by blast+
qed

lemma visit_aliases_result:
  assumes c: "crypto_ok c" and wf: "disk_wf d" and rd: "readable c z d sel" and inv: "alias_inv c z d sel es sa"
    and run: "visit_scan (map Inr fs) (alias_visitor c z sel) sa = (q, sa')"
  shows "fs_disk (fst sa') = d \<and> (\<forall>m. q \<noteq> Inl (Panics m)) \<and> (\<forall>u. q = Inr u \<longrightarrow> alias_inv c z d sel (es @ fs) sa')"
  using inv run
proof (induction fs arbitrary: es sa)
  case Nil
  then show ?case by (auto simp: alias_inv_def)
next
  case (Cons e fs)
  obtain q1 sa1 where one: "alias_visitor c z sel e sa = (q1, sa1)" by (metis surj_pair)
  note v = alias_visitor_result [OF c wf rd Cons.prems(1) one]
  show ?case
  proof (cases q1)
    case (Inl f)
    then show ?thesis using Cons.prems(2) one v(1,2) by auto
  next
    case (Inr u)
    then have "visit_scan (map Inr fs) (alias_visitor c z sel) sa1 = (q, sa')" using Cons.prems(2) one by simp
    from Cons.IH [OF v(3) [OF Inr] this] show ?thesis by simp
  qed
qed

section \<open>The rebuild\<close>

text \<open>
  What the object locations of a catalog are after a rebuild: every one can be read from one of the
  files, and of every record of every file the content identifier has a location at least as good.
\<close>

definition rebuilt ::
  "'h crypto \<Rightarrow> zstd \<Rightarrow> u32 option \<Rightarrow> disk \<Rightarrow> path list \<Rightarrow> (content_id \<rightharpoonup> object_location) \<Rightarrow> bool" where
  "rebuilt c z g d paths objects \<longleftrightarrow>
     (\<forall>cid loc. objects cid = Some loc \<longrightarrow>
       (\<exists>p \<in> set paths. \<exists>r. outcome (read_record_at c z p loc) d = Inr r \<and> obj_content_id r = cid)) \<and>
     (\<forall>p \<in> set paths. \<exists>h rs. chunk_holds c z d p h rs \<and>
       (\<forall>x \<in> set (candidates_at h p 64 rs). \<exists>loc. objects (ole_content_id (rc_entry x)) = Some loc \<and>
         location_rank g loc \<le> candidate_rank g x))"

text \<open>Every alias of the catalog names an object whose content has that object ID.\<close>

definition aliases_verified ::
  "'h crypto \<Rightarrow> zstd \<Rightarrow> disk \<Rightarrow> path list \<Rightarrow> (repo_id \<times> git_oid \<rightharpoonup> content_id) \<Rightarrow> (content_id \<rightharpoonup> object_location) \<Rightarrow> bool" where
  "aliases_verified c z d paths aliases objects \<longleftrightarrow>
     (\<forall>repo oid cid. aliases (repo, oid) = Some cid \<longrightarrow>
       (\<exists>loc. objects cid = Some loc \<and> (\<exists>p \<in> set paths. \<exists>r raw. outcome (read_record_at c z p loc) d = Inr r \<and>
         decode_object_payload c z r = Inr raw \<and> git_oid_for_object c (oid_algorithm oid) (obj_kind r) raw = Inr oid)))"

lemma selection_entries:
  assumes sel: "selection_of g sel cs" and g: "gathered c z d ps hs cs" and wf: "disk_wf d"
  defines "entries \<equiv> map rc_entry (map snd (sort_key fst sel))"
  shows "entry_map entries cid = map_option (\<lambda>x. ole_location (rc_entry x)) (hm_get sel (content_id_bytes cid))"
    and "list_all (\<lambda>e. content_id_wf (ole_content_id e)) entries" and "readable c z d sel"
proof -
  have hw: "hm_wf sel" using sel by (simp add: selection_of_def)
  have found: "\<exists>p \<in> set ps. \<exists>h rs. chunk_holds c z d p h rs \<and> x \<in> set (candidates_at h p 64 rs) \<and> candidate_key x = k"
    if "hm_get sel k = Some x" for k x
    using that sel gathered_iff(1) [OF g, of x] by (auto simp: selection_of_def)
  have key: "ole_content_id (rc_entry x) = ContentId k" if "hm_get sel k = Some x" for k x
    using found [OF that] unfolding candidate_key_def by (metis content_id.collapse)
  show "readable c z d sel"
    unfolding readable_def
  proof (intro allI impI)
    fix k x
    assume kx: "hm_get sel k = Some x"
    then obtain p h rs where "chunk_holds c z d p h rs" "x \<in> set (candidates_at h p 64 rs)" using found by blast
    from candidate_read [OF wf this] show "\<exists>r. outcome (read_record_at c z (rc_path x) (ole_location (rc_entry x))) d = Inr r \<and>
        content_id_bytes (obj_content_id r) = k" using key [OF kx] by auto
  qed
  have "list_all (\<lambda>e. content_id_wf (ole_content_id e)) (map rc_entry (map snd sel))"
    unfolding list_all_iff
  proof
    fix e
    assume "e \<in> set (map rc_entry (map snd sel))"
    then obtain k x where x: "hm_get sel k = Some x" "e = rc_entry x" using hm_entries [OF hw] by auto
    then obtain p h rs where h: "chunk_holds c z d p h rs" "x \<in> set (candidates_at h p 64 rs)" using found by blast
    from candidate_read [OF wf this] obtain r where "r \<in> set rs" "obj_content_id r = ole_content_id e" using x(2) by auto
    then show "content_id_wf (ole_content_id e)" using h(1) by (auto simp: chunk_holds_def list_all_iff fits_def object_record_wf_def)
  qed
  then show "list_all (\<lambda>e. content_id_wf (ole_content_id e)) entries" by (simp add: entries_def list_all_iff)
  have pairs: "map (\<lambda>e. (ole_content_id e, ole_location e)) entries = map (\<lambda>(k, x). (ContentId k, ole_location (rc_entry x))) (sort_key fst sel)"
    using hm_entries [OF hw] key by (auto simp: entries_def)
  have "map_of (map (\<lambda>(k, x). (ContentId k, f x)) al) (ContentId b) = map_option f (map_of al b)" for al b and f :: "rebuild_candidate \<Rightarrow> object_location"
    by (induction al) auto
  then have "entry_map entries (ContentId (content_id_bytes cid)) =
      map_option (\<lambda>x. ole_location (rc_entry x)) (map_of (sort_key fst sel) (content_id_bytes cid))"
    unfolding entry_map_def pairs .
  moreover have "map_of (sort_key fst sel) = map_of sel"
    using hw by (intro map_of_eqI) (auto simp: hm_wf_def map_of_eq_Some_iff distinct_map)
  ultimately show "entry_map entries cid = map_option (\<lambda>x. ole_location (rc_entry x)) (hm_get sel (content_id_bytes cid))"
    by (simp add: hm_get_def)
qed

lemma append_batches_prefix:
  assumes "append_batches ops bs report cat = (q, cat')"
  shows "\<exists>n r. append_all ops (take n (map (map rc_entry) bs)) cat = (r, cat') \<and>
    (\<forall>report'. q = Inr report' \<longrightarrow> n = length bs \<and> r = Inr () \<and>
      unat (lr_catalog_batches_written report') = unat (lr_catalog_batches_written report) + length bs \<and>
      report' = report\<lparr>lr_catalog_batches_written := lr_catalog_batches_written report'\<rparr>)"
  using assms
proof (induction bs arbitrary: report cat)
  case (Cons b bs)
  obtain r1 cat1 where one: "cat_append_rebuilt ops (map rc_entry b) cat = (r1, cat1)" by fastforce
  show ?case
  proof (cases "\<exists>e. r1 = Inl e")
    case True
    then show ?thesis using Cons.prems one by (intro exI [of _ 1]) (auto simp: cat_io_def)
  next
    case False
    then have r1: "r1 = Inr ()" by (cases r1) auto
    show ?thesis
    proof (cases "checked_add (lr_catalog_batches_written report) 1")
      case None
      then show ?thesis using Cons.prems one r1 by (intro exI [of _ 1]) (auto simp: cat_io_def count_def)
    next
      case (Some k)
      then have "append_batches ops bs (report\<lparr>lr_catalog_batches_written := k\<rparr>) cat1 = (q, cat')"
        using Cons.prems one r1 by (simp add: cat_io_def count_def)
      from Cons.IH [OF this] obtain n r where n: "append_all ops (take n (map (map rc_entry) bs)) cat1 = (r, cat')"
          "\<forall>report'. q = Inr report' \<longrightarrow> n = length bs \<and> r = Inr () \<and> unat (lr_catalog_batches_written report') = unat k + length bs \<and>
            report' = report\<lparr>lr_catalog_batches_written := lr_catalog_batches_written report'\<rparr>" by auto
      have "append_all ops (take (Suc n) (map (map rc_entry) (b # bs))) cat = (r, cat')" using n(1) one r1 by simp
      then show ?thesis using n(2) checked_add_unat [OF Some] by (intro exI [of _ "Suc n"] exI [of _ r]) auto
    qed
  qed
qed (auto intro: exI [of _ 0])

lemma fails_apply: "fails m s = (case m s of (r, t) \<Rightarrow> (map_err Fails r, t))"
  by (simp add: fails_def)

definition report_exact :: "path list \<Rightarrow> rebuild_candidate list \<Rightarrow> nat \<Rightarrow> location_rebuild_report \<Rightarrow> bool" where
  "report_exact ps cs selected report \<longleftrightarrow> unat (lr_chunk_files report) = card (set ps) \<and>
     unat (lr_scanned_records report) = length cs \<and> unat (lr_selected_locations report) = selected \<and>
     unat (lr_duplicate_records report) + selected = length cs"

lemma gathered_length: "gathered c z d ps hs cs \<Longrightarrow> length hs = length ps"
  by (induction ps arbitrary: hs cs) auto

lemma sorted_paths:
  "set (remdups_adj (sort ps)) = set ps" "length (remdups_adj (sort ps)) = card (set (ps :: path list))"
  "distinct (remdups_adj (sort ps))"
proof -
  show s: "set (remdups_adj (sort ps)) = set ps" by simp
  have "sorted xs \<Longrightarrow> distinct_adj xs \<Longrightarrow> distinct xs" for xs :: "path list"
  proof (induction xs rule: induct_list012)
    case (3 x y zs)
    then have "x < y" "\<forall>w \<in> set zs. y \<le> w" by auto
    then show ?case using 3 by auto
  qed simp_all
  then show d: "distinct (remdups_adj (sort ps))" by simp
  then show "length (remdups_adj (sort ps)) = card (set ps)" using distinct_card s by metis
qed

context catalog
begin

lemma current_generation_view:
  assumes "invar cat" and "invar cat'" and "v_meta (view cat') = v_meta (view cat)"
  shows "current_generation ops cat' = current_generation ops cat"
  using assms by (simp add: current_generation_def meta)

lemma verify_aliases_result:
  assumes c: "crypto_ok c" and wf: "disk_wf (fs_disk s)" and rd: "readable c z (fs_disk s) sel" and cat: "invar cat"
    and run: "verify_preserved_aliases c z ops cat sel 0 s = (q, s')"
  shows "fs_disk s' = fs_disk s" and "q \<noteq> Inl (Panics m)"
    and "q = Inr n \<Longrightarrow> v_aliases (view cat) (repo, oid) = Some cid \<Longrightarrow>
      verified_oid c z (fs_disk s) sel (content_id_bytes cid) (oid_algorithm oid) oid"
proof -
  obtain es where es: "cat_scan_oid_aliases ops cat = map Inr es"
      "\<And>e. e \<in> set es \<longleftrightarrow> v_aliases (view cat) (oae_repository e, oae_oid e) = Some (oae_content_id e)"
    using scan_oid_aliases [OF cat] by (auto simp: enumerates_def)
  have scan: "map (map_err Fails) (cat_scan_oid_aliases ops cat) = (map Inr es :: (catalog_error failure + oid_alias_entry) list)"
    by (simp add: es(1))
  let ?a = "\<lparr>ac_calculated = [], ac_failure = None, ac_verified = 0\<rparr>"
  have "alias_inv c z (fs_disk s) sel [] (s, ?a)" by (simp add: alias_inv_def cache_ok_def)
  moreover obtain q1 s1 a1 where visit: "visit_scan (map Inr es) (alias_visitor c z sel) (s, ?a) = (q1, (s1, a1))" by (metis prod_cases3)
  ultimately have v: "fs_disk s1 = fs_disk s" "\<And>m. q1 \<noteq> Inl (Panics m)" "\<And>u. q1 = Inr u \<Longrightarrow> alias_inv c z (fs_disk s) sel es (s1, a1)"
    using visit_aliases_result [OF c wf rd] by fastforce+
  have run': "(q, s') = (case q1 of
      Inl (Panics m) \<Rightarrow> (Inl (Panics m), s1) | Inl (Fails e) \<Rightarrow> (Inl (Fails (Catalog e)), s1)
    | Inr _ \<Rightarrow> (case ac_failure a1 of Some e \<Rightarrow> (Inl (Fails e), s1) | None \<Rightarrow> (Inr (ac_verified a1), s1)))"
    using run by (simp add: verify_preserved_aliases_def scan visit split: sum.splits failure.splits option.splits)
  then show "fs_disk s' = fs_disk s" and "q \<noteq> Inl (Panics m)"
    using v(1,2) by (auto split: sum.splits failure.splits option.splits)
  assume "q = Inr n" and a: "v_aliases (view cat) (repo, oid) = Some cid"
  then have "q1 = Inr ()" "ac_failure a1 = None" using run' by (auto split: sum.splits failure.splits option.splits)
  then have all: "\<forall>e \<in> set es. verified_oid c z (fs_disk s) sel (content_id_bytes (oae_content_id e)) (oid_algorithm (oae_oid e)) (oae_oid e)"
    using v(3) by (simp add: alias_inv_def)
  have "\<lparr>oae_repository = repo, oae_oid = oid, oae_content_id = cid\<rparr> \<in> set es" using a by (simp add: es(2))
  from bspec [OF all this] show "verified_oid c z (fs_disk s) sel (content_id_bytes cid) (oid_algorithm oid) oid" by simp
qed

lemma preflight_result:
  assumes c: "crypto_ok c" and wf: "disk_wf (fs_disk s)" and cat: "invar cat"
    and run: "preflight_object_location_rebuild c z ops cat paths s = (q, s')"
  shows "fs_disk s' = fs_disk s" and "q \<noteq> Inl (Panics m)"
    and "q = Inr pf \<Longrightarrow> \<exists>hs cs sel. gathered c z (fs_disk s) (remdups_adj (sort paths)) hs cs \<and> distinct (map chunk_identity hs) \<and>
      selection_of (current_generation ops cat) sel cs \<and> pf_entries pf = map snd (sort_key fst sel) \<and>
      report_exact paths cs (length sel) (pf_report pf) \<and>
      (\<forall>repo oid cid. v_aliases (view cat) (repo, oid) = Some cid \<longrightarrow>
        verified_oid c z (fs_disk s) sel (content_id_bytes cid) (oid_algorithm oid) oid)"
proof -
  let ?g = "current_generation ops cat" and ?ps = "remdups_adj (sort paths)"
  let ?st = "\<lparr>ps_report = report_default, ps_identities = [], ps_selected = []\<rparr>"
  obtain q1 s1 where one: "preflight_chunks c z ?g ?ps ?st s = (q1, s1)" by fastforce
  have "preflight_inv ?g [] [] ?st" by (simp add: preflight_inv_def selection_of_def report_default_def)
  note P = preflight_chunks_result [OF wf this one]
  have "fs_disk s' = fs_disk s \<and> (\<forall>m. q \<noteq> Inl (Panics m)) \<and> (\<forall>pf. q = Inr pf \<longrightarrow>
      (\<exists>hs cs sel. gathered c z (fs_disk s) ?ps hs cs \<and> distinct (map chunk_identity hs) \<and>
      selection_of ?g sel cs \<and> pf_entries pf = map snd (sort_key fst sel) \<and> report_exact paths cs (length sel) (pf_report pf) \<and>
      (\<forall>repo oid cid. v_aliases (view cat) (repo, oid) = Some cid \<longrightarrow>
        verified_oid c z (fs_disk s) sel (content_id_bytes cid) (oid_algorithm oid) oid)))"
  proof (cases q1)
    case (Inl e)
    then have "q = Inl (Fails e)" "s' = s1"
      using run one by (simp_all add: preflight_object_location_rebuild_def fails_apply seq_eff_def)
    then show ?thesis using P(1) by simp
  next
    case (Inr st)
    obtain hs cs where hc: "gathered c z (fs_disk s) ?ps hs cs" "preflight_inv ?g hs cs st" using P(2) [OF Inr] by auto
    have sel: "selection_of ?g (ps_selected st) cs" and zero: "lr_preserved_aliases_verified (ps_report st) = 0"
      using hc(2) by (simp_all add: preflight_inv_def)
    obtain q2 s2 where two: "verify_preserved_aliases c z ops cat (ps_selected st) 0 s1 = (q2, s2)" by fastforce
    have wf1: "disk_wf (fs_disk s1)" "readable c z (fs_disk s1) (ps_selected st)"
      using P(1) wf selection_entries(3) [OF sel hc(1) wf] by simp_all
    note V = verify_aliases_result [OF c wf1 cat two, unfolded P(1)]
    have run': "(q, s') = (case q2 of Inl e \<Rightarrow> (Inl e, s2) | Inr n \<Rightarrow> (case try_u64 (length (ps_selected st)) of
        None \<Rightarrow> (Inl (Fails OffsetOverflow), s2)
      | Some k \<Rightarrow> (Inr \<lparr>pf_entries = map snd (sort_key fst (ps_selected st)),
          pf_report = (ps_report st)\<lparr>lr_preserved_aliases_verified := n, lr_selected_locations := k\<rparr>\<rparr>, s2)))"
      using run one Inr two
      by (cases q2; cases "try_u64 (length (ps_selected st))")
         (auto simp: preflight_object_location_rebuild_def fails_apply seq_eff_def zero)
    have "report_exact paths cs (length (ps_selected st)) (pf_report pf)" if "q = Inr pf" for pf
      using that run' hc gathered_length [OF hc(1)] sorted_paths(2) [of paths] try_u64_unat [of "length (ps_selected st)"]
      by (auto simp: report_exact_def preflight_inv_def split: sum.splits option.splits)
    moreover have "\<exists>n. q2 = Inr n \<and> pf_entries pf = map snd (sort_key fst (ps_selected st))" if "q = Inr pf" for pf
      using that run' by (auto split: sum.splits option.splits)
    moreover have "distinct (map chunk_identity hs)" using hc(2) by (simp add: preflight_inv_def)
    ultimately have "\<exists>hs cs sel. gathered c z (fs_disk s) ?ps hs cs \<and> distinct (map chunk_identity hs) \<and>
      selection_of ?g sel cs \<and> pf_entries pf = map snd (sort_key fst sel) \<and> report_exact paths cs (length sel) (pf_report pf) \<and>
      (\<forall>repo oid cid. v_aliases (view cat) (repo, oid) = Some cid \<longrightarrow>
        verified_oid c z (fs_disk s) sel (content_id_bytes cid) (oid_algorithm oid) oid)" if "q = Inr pf" for pf
      using that V(3) hc(1) sel by (intro exI [of _ hs] exI [of _ cs] exI [of _ "ps_selected st"]) blast
    moreover have "fs_disk s' = fs_disk s" "q \<noteq> Inl (Panics m)" for m
      using run' V(1,2) by (auto split: sum.splits option.splits)
    ultimately show ?thesis by blast
  qed
  then show "fs_disk s' = fs_disk s" and "q \<noteq> Inl (Panics m)"
    and "q = Inr pf \<Longrightarrow> \<exists>hs cs sel. gathered c z (fs_disk s) ?ps hs cs \<and> distinct (map chunk_identity hs) \<and>
      selection_of ?g sel cs \<and> pf_entries pf = map snd (sort_key fst sel) \<and> report_exact paths cs (length sel) (pf_report pf) \<and>
      (\<forall>repo oid cid. v_aliases (view cat) (repo, oid) = Some cid \<longrightarrow>
        verified_oid c z (fs_disk s) sel (content_id_bytes cid) (oid_algorithm oid) oid)" by blast+
qed

lemma append_and_finish_result:
  assumes cat: "invar cat" and reb: "v_rebuilding (view cat)" "v_objects (view cat) = Map.empty"
    and wf: "list_all (\<lambda>e. content_id_wf (ole_content_id e)) (map rc_entry entries)" and n: "0 < n"
    and run: "seq_eff (fails (on_snd (append_batches ops (chunks_of n entries) report))) (\<lambda>report.
      seq_eff (fails (on_snd (cat_io (cat_finish_rebuild ops)))) (\<lambda>_. ret report)) (s, cat) = (q, (s', cat'))"
  shows "s' = s" and "invar cat'" and "q \<noteq> Inl (Panics m)" and "q = Inl e \<Longrightarrow> \<exists>m. view cat' = (view cat)\<lparr>v_objects := m\<rparr>"
    and "q = Inr report' \<Longrightarrow> view cat' = (view cat)\<lparr>v_objects := entry_map (map rc_entry entries), v_rebuilding := False\<rparr> \<and>
      (\<exists>k. unat k = unat (lr_catalog_batches_written report) + length (chunks_of n entries) \<and> report' = report\<lparr>lr_catalog_batches_written := k\<rparr>)"
proof -
  let ?ess = "map (map rc_entry) (chunks_of n entries)"
  obtain q1 cat1 where one: "append_batches ops (chunks_of n entries) report cat = (q1, cat1)" by fastforce
  obtain k r where k: "append_all ops (take k ?ess) cat = (r, cat1)"
      "\<forall>report'. q1 = Inr report' \<longrightarrow> k = length (chunks_of n entries) \<and> r = Inr () \<and>
        unat (lr_catalog_batches_written report') = unat (lr_catalog_batches_written report) + length (chunks_of n entries) \<and>
        report' = report\<lparr>lr_catalog_batches_written := lr_catalog_batches_written report'\<rparr>"
    using append_batches_prefix [OF one] by blast
  have conc: "concat ?ess = map rc_entry entries" using n by (simp add: map_concat [symmetric])
  have "list_all (list_all (\<lambda>e. content_id_wf (ole_content_id e))) ?ess"
    using wf unfolding conc [symmetric] by (auto simp: list_all_iff)
  then have "list_all (list_all (\<lambda>e. content_id_wf (ole_content_id e))) (take k ?ess)"
    unfolding list.pred_set using set_take_subset [of k ?ess] by blast
  note A = append_all_result [OF cat reb(1) this k(1)]
  obtain q2 cat2 where two: "cat_finish_rebuild ops cat1 = (q2, cat2)" by fastforce
  note F = refines_stepD [OF finish_refines conjunct1 [OF A]]
  show "s' = s" and "invar cat'" and "q \<noteq> Inl (Panics m)"
    using run one two A F(1) [OF two] by (cases q1; cases q2; auto simp: seq_eff_def fails_apply cat_io_def)+
  show "q = Inl e \<Longrightarrow> \<exists>m. view cat' = (view cat)\<lparr>v_objects := m\<rparr>"
    using run one two A F(3) [of _ cat2] by (cases q1; cases q2) (auto simp: seq_eff_def fails_apply cat_io_def)
  assume q: "q = Inr report'"
  then have st: "q1 = Inr report'" "q2 = Inr ()" "cat' = cat2"
    using run one two by (cases q1; cases q2; auto simp: seq_eff_def fails_apply cat_io_def)+
  have "view cat1 = (view cat)\<lparr>v_objects := entry_map (map rc_entry entries)\<rparr>"
    using A k(2) st(1) reb(2) by (simp add: conc [symmetric])
  moreover have "view_finish (view cat1) = Inr (view cat')" using F(2) two st by simp
  ultimately have "view cat' = (view cat)\<lparr>v_objects := entry_map (map rc_entry entries), v_rebuilding := False\<rparr>"
    using reb(1) by (simp add: view_finish_def)
  then show "view cat' = (view cat)\<lparr>v_objects := entry_map (map rc_entry entries), v_rebuilding := False\<rparr> \<and>
      (\<exists>k. unat k = unat (lr_catalog_batches_written report) + length (chunks_of n entries) \<and> report' = report\<lparr>lr_catalog_batches_written := k\<rparr>)"
    using k(2) st(1) by blast
qed

end

lemma rebuilt_selection:
  assumes g: "gathered c z d (remdups_adj (sort paths)) hs cs" and sel: "selection_of g sel cs" and wf: "disk_wf d"
    and v: "\<forall>repo oid cid. aliases (repo, oid) = Some cid \<longrightarrow> verified_oid c z d sel (content_id_bytes cid) (oid_algorithm oid) oid"
  defines "objects \<equiv> entry_map (map rc_entry (map snd (sort_key fst sel)))"
  shows "rebuilt c z g d paths objects" and "aliases_verified c z d paths aliases objects"
proof -
  note E = selection_entries [OF sel g wf, folded objects_def]
  have path: "rc_path x \<in> set paths" if "hm_get sel k = Some x" for k x
  proof -
    have "x \<in> set cs" using that sel by (simp add: selection_of_def)
    then obtain p h rs where "p \<in> set paths" "x \<in> set (candidates_at h p 64 rs)"
      using gathered_iff(1) [OF g] sorted_paths(1) [of paths] by blast
    then show ?thesis using candidates_at_split by fastforce
  qed
  show "rebuilt c z g d paths objects"
    unfolding rebuilt_def
  proof (intro conjI allI impI ballI)
    fix cid loc
    assume "objects cid = Some loc"
    then obtain x where x: "hm_get sel (content_id_bytes cid) = Some x" "loc = ole_location (rc_entry x)" unfolding E(1) by auto
    with E(3) obtain r where "outcome (read_record_at c z (rc_path x) loc) d = Inr r" "content_id_bytes (obj_content_id r) = content_id_bytes cid"
      by (auto simp: readable_def)
    then show "\<exists>p \<in> set paths. \<exists>r. outcome (read_record_at c z p loc) d = Inr r \<and> obj_content_id r = cid"
      using path [OF x(1)] content_id.expand by blast
  next
    fix p
    assume p: "p \<in> set paths"
    then obtain h rs where h: "chunk_holds c z d p h rs" using gathered_iff(2) [OF g, of p] sorted_paths(1) [of paths] by blast
    have "\<exists>loc. objects (ole_content_id (rc_entry x)) = Some loc \<and> location_rank g loc \<le> candidate_rank g x"
      if "x \<in> set (candidates_at h p 64 rs)" for x
    proof -
      have "x \<in> set cs" using gathered_iff(1) [OF g, of x] h that p sorted_paths(1) [of paths] by blast
      then obtain y where "hm_get sel (candidate_key x) = Some y" "candidate_rank g y \<le> candidate_rank g x"
        using sel by (auto simp: selection_of_def)
      then show ?thesis by (simp add: E(1) candidate_key_def)
    qed
    then show "\<exists>h rs. chunk_holds c z d p h rs \<and> (\<forall>x \<in> set (candidates_at h p 64 rs). \<exists>loc.
        objects (ole_content_id (rc_entry x)) = Some loc \<and> location_rank g loc \<le> candidate_rank g x)" using h by blast
  qed
  show "aliases_verified c z d paths aliases objects"
    unfolding aliases_verified_def
  proof (intro allI impI)
    fix repo oid cid
    assume "aliases (repo, oid) = Some cid"
    with v have "verified_oid c z d sel (content_id_bytes cid) (oid_algorithm oid) oid" by blast
    then obtain x r raw where x: "hm_get sel (content_id_bytes cid) = Some x"
        "outcome (read_record_at c z (rc_path x) (ole_location (rc_entry x))) d = Inr r"
        "decode_object_payload c z r = Inr raw" "git_oid_for_object c (oid_algorithm oid) (obj_kind r) raw = Inr oid"
      by (auto simp: verified_oid_def)
    show "\<exists>loc. objects cid = Some loc \<and> (\<exists>p \<in> set paths. \<exists>r raw. outcome (read_record_at c z p loc) d = Inr r \<and>
        decode_object_payload c z r = Inr raw \<and> git_oid_for_object c (oid_algorithm oid) (obj_kind r) raw = Inr oid)"
      using x path [OF x(1)] by (auto simp: E(1))
  qed
qed

context catalog
begin

text \<open>Both ways into the rebuild leave an empty location family behind the marker.\<close>

lemma rebuild_tail_result:
  assumes c: "crypto_ok c" and wf: "disk_wf (fs_disk s)" and cat: "invar cat" and n: "0 < n"
    and pf: "preflight_object_location_rebuild c z ops cat paths s = (Inr pf, s1)"
    and cat1: "invar cat1" "view cat1 = (view cat)\<lparr>v_objects := Map.empty, v_rebuilding := True\<rparr>"
    and run: "seq_eff (fails (on_snd (append_batches ops (chunks_of n (pf_entries pf)) (pf_report pf)))) (\<lambda>report.
      seq_eff (fails (on_snd (cat_io (cat_finish_rebuild ops)))) (\<lambda>_. ret report)) (s1, cat1) = (q, (s', cat'))"
  shows "fs_disk s' = fs_disk s \<and> invar cat' \<and> (\<forall>m. q \<noteq> Inl (Panics m)) \<and>
    (\<forall>e. q = Inl e \<longrightarrow> (\<exists>m. view cat' = (view cat)\<lparr>v_objects := m, v_rebuilding := True\<rparr>)) \<and>
    (\<forall>report. q = Inr report \<longrightarrow> (\<exists>objects hs cs. gathered c z (fs_disk s) (remdups_adj (sort paths)) hs cs \<and> view cat' = (view cat)\<lparr>v_objects := objects, v_rebuilding := False\<rparr> \<and>
      rebuilt c z (current_generation ops cat) (fs_disk s) paths objects \<and>
      aliases_verified c z (fs_disk s) paths (v_aliases (view cat)) objects \<and>
      report_exact paths cs (card (dom objects)) report))"
proof -
  note P = preflight_result [OF c wf cat pf]
  obtain hs cs sel where sel: "gathered c z (fs_disk s) (remdups_adj (sort paths)) hs cs"
      "selection_of (current_generation ops cat) sel cs" "pf_entries pf = map snd (sort_key fst sel)"
      "report_exact paths cs (length sel) (pf_report pf)"
      "\<forall>repo oid cid. v_aliases (view cat) (repo, oid) = Some cid \<longrightarrow>
        verified_oid c z (fs_disk s) sel (content_id_bytes cid) (oid_algorithm oid) oid"
    using P(3) by blast
  let ?objects = "entry_map (map rc_entry (pf_entries pf))"
  note E = selection_entries [OF sel(2,1) wf, folded sel(3)]
  note R = rebuilt_selection [OF sel(1,2) wf sel(5), folded sel(3)]
  have reb: "v_rebuilding (view cat1)" "v_objects (view cat1) = Map.empty" by (simp_all add: cat1(2))
  note A = append_and_finish_result [OF cat1(1) reb E(2) n run]
  have "report_exact paths cs (card (dom ?objects)) report" if q: "q = Inr report" for report
  proof -
    have "hm_wf sel" using sel(2) by (simp add: selection_of_def)
    then have "card (fst ` set sel) = length sel" by (metis distinct_card hm_wf_def length_map list.set_map)
    moreover have "dom ?objects = ContentId ` (fst ` set sel)"
    proof (intro set_eqI)
      fix cid
      show "cid \<in> dom ?objects \<longleftrightarrow> cid \<in> ContentId ` (fst ` set sel)"
        unfolding domIff E(1) hm_get_def by (cases cid) (force simp: map_of_eq_None_iff)
    qed
    ultimately have "card (dom ?objects) = length sel" by (simp add: card_image inj_on_def)
    then show ?thesis using A(5) [OF q] sel(4) by (auto simp: report_exact_def)
  qed
  moreover have "fs_disk s' = fs_disk s" "invar cat'" "q \<noteq> Inl (Panics m)" for m using A(1,2,3) P(1) by simp_all
  moreover have "\<exists>m. view cat' = (view cat)\<lparr>v_objects := m, v_rebuilding := True\<rparr>" if q: "q = Inl e" for e
  proof -
    obtain m where "view cat' = (view cat1)\<lparr>v_objects := m\<rparr>" using A(4) [OF q] by blast
    then have "view cat' = (view cat)\<lparr>v_objects := m, v_rebuilding := True\<rparr>" by (simp add: cat1(2))
    then show ?thesis by blast
  qed
  moreover have "view cat' = (view cat)\<lparr>v_objects := ?objects, v_rebuilding := False\<rparr>" if "q = Inr report" for report
    using A(5) [OF that] by (simp add: cat1(2))
  ultimately show ?thesis using R sel(1) by blast
qed

lemma rebuild_object_locations_result:
  assumes c: "crypto_ok c" and wf: "disk_wf (fs_disk s)" and cat: "invar cat"
    and run: "rebuild_object_locations c z ops paths n (s, cat) = (q, (s', cat'))"
  shows "fs_disk s' = fs_disk s \<and> invar cat' \<and> (\<forall>m. q \<noteq> Inl (Panics m)) \<and>
    (\<forall>e. q = Inl e \<longrightarrow> view cat' = view cat \<or> (\<exists>m. view cat' = (view cat)\<lparr>v_objects := m, v_rebuilding := True\<rparr>)) \<and>
    (\<forall>report. q = Inr report \<longrightarrow> (\<exists>objects hs cs. gathered c z (fs_disk s) (remdups_adj (sort paths)) hs cs \<and> view cat' = (view cat)\<lparr>v_objects := objects, v_rebuilding := False\<rparr> \<and>
      rebuilt c z (current_generation ops cat) (fs_disk s) paths objects \<and>
      aliases_verified c z (fs_disk s) paths (v_aliases (view cat)) objects \<and>
      report_exact paths cs (card (dom objects)) report))"
proof (cases "n = 0")
  case True
  then show ?thesis using run cat by (auto simp: rebuild_object_locations_def)
next
  case False
  then have n: "0 < n" by simp
  let ?tail = "\<lambda>pf. seq_eff (fails (on_snd (append_batches ops (chunks_of n (pf_entries pf)) (pf_report pf)))) (\<lambda>report.
      seq_eff (fails (on_snd (cat_io (cat_finish_rebuild ops)))) (\<lambda>_. ret report))"
  show ?thesis
  proof (cases "v_rebuilding (view cat)")
    case idle: False
    obtain q1 s1 where pf: "preflight_object_location_rebuild c z ops cat paths s = (q1, s1)" by fastforce
    obtain q2 cat1 where beg: "cat_begin_rebuild ops cat = (q2, cat1)" by fastforce
    note P = preflight_result [OF c wf cat pf]
    note B = refines_stepD [OF begin_refines cat]
    have run': "(q, (s', cat')) = (case q1 of Inl e \<Rightarrow> (Inl e, (s1, cat)) | Inr p \<Rightarrow>
        (case q2 of Inl e \<Rightarrow> (Inl (Fails (Catalog e)), (s1, cat1)) | Inr _ \<Rightarrow> ?tail p (s1, cat1)))"
      using run False idle pf beg
      by (cases q1; cases q2) (simp_all add: rebuild_object_locations_def rebuild_state [OF cat] seq_eff_def fails_apply cat_io_def)
    show ?thesis
    proof (cases "\<exists>p. q1 = Inr p \<and> q2 = Inr ()")
      case True
      then obtain p where p: "q1 = Inr p" "q2 = Inr ()" by blast
      have "view cat1 = (view cat)\<lparr>v_objects := Map.empty, v_rebuilding := True\<rparr>"
        using B(2) [OF beg [unfolded p]] idle by (simp add: view_begin_def)
      moreover have "?tail p (s1, cat1) = (q, (s', cat'))" using run' p by simp
      ultimately show ?thesis using rebuild_tail_result [OF c wf cat n pf [unfolded p] B(1) [OF beg]] by blast
    next
      case other: False
      have "fs_disk s' = fs_disk s \<and> invar cat' \<and> view cat' = view cat \<and> (\<exists>e. q = Inl e \<and> (\<forall>m. e \<noteq> Panics m))"
      proof (cases q1)
        case (Inl e)
        then show ?thesis using run' P(1,2) cat by simp
      next
        case (Inr p)
        then obtain e where e: "q2 = Inl e" using other by (cases q2) auto
        then have "view cat1 = view cat" "invar cat1" using B(1,3) beg by blast+
        then show ?thesis using run' P(1) Inr e by simp
      qed
      then show ?thesis by auto
    qed
  next
    case busy: True
    obtain q2 cat1 where res: "cat_restart_rebuild ops cat = (q2, cat1)" by fastforce
    note B = refines_stepD [OF restart_refines cat]
    show ?thesis
    proof (cases q2)
      case (Inl e)
      then have "q = Inl (Fails (Catalog e))" "s' = s" "cat' = cat1"
        using run False busy res by (simp_all add: rebuild_object_locations_def rebuild_state [OF cat] seq_eff_def fails_apply cat_io_def)
      then show ?thesis using B(1) [OF res] B(3) [OF res [unfolded Inl]] by simp
    next
      case (Inr u)
      have "(view cat)\<lparr>v_rebuilding := True\<rparr> = view cat" using busy by (cases "view cat") simp
      moreover have "view cat1 = (view cat)\<lparr>v_objects := Map.empty\<rparr>"
        using B(2) [OF res [unfolded Inr]] busy by (auto simp: view_restart_def)
      ultimately have v: "view cat1 = (view cat)\<lparr>v_objects := Map.empty, v_rebuilding := True\<rparr>" by (metis catalog_view.update_convs(1,2) catalog_view.surjective)
      have cat1: "invar cat1" by (rule B(1) [OF res])
      have same: "current_generation ops cat1 = current_generation ops cat" "v_aliases (view cat1) = v_aliases (view cat)"
        by (rule current_generation_view [OF cat cat1]) (simp_all add: v)
      obtain q1 s1 where pf: "preflight_object_location_rebuild c z ops cat1 paths s = (q1, s1)" by fastforce
      note P = preflight_result [OF c wf cat1 pf]
      have run': "(q, (s', cat')) = (case q1 of Inl e \<Rightarrow> (Inl e, (s1, cat1)) | Inr p \<Rightarrow> ?tail p (s1, cat1))"
        using run False busy pf res Inr
        by (cases q1) (simp_all add: rebuild_object_locations_def rebuild_state [OF cat] seq_eff_def fails_apply cat_io_def)
      show ?thesis
      proof (cases q1)
        case e: (Inl e)
        then have "q = Inl e" "s' = s1" "cat' = cat1" using run' by simp_all
        then show ?thesis using P(1,2) e cat1 v by auto
      next
        case p: (Inr p)
        have "view cat1 = (view cat1)\<lparr>v_objects := Map.empty, v_rebuilding := True\<rparr>" by (simp add: v)
        note T = rebuild_tail_result [OF c wf cat1 n pf [unfolded p] cat1 this, of q s' cat']
        have upd: "(view cat1)\<lparr>v_objects := m, v_rebuilding := b\<rparr> = (view cat)\<lparr>v_objects := m, v_rebuilding := b\<rparr>" for m b
          by (simp add: v)
        have "?tail p (s1, cat1) = (q, (s', cat'))" using run' p by simp
        from T [OF this, unfolded same upd] show ?thesis by blast
      qed
    qed
  qed
qed

end

end
