(* ===== verification/RebuildProgress.thy ===== *)
theory RebuildProgress
  imports RebuildLaws
begin

text \<open>
  When a location rebuild succeeds: the disk and the catalog raise no faults, every chunk file holds
  records, no chunk is given twice under two paths, and every alias is backed by records whose
  content has the object ID of the alias.
\<close>

section \<open>Chunks\<close>

text \<open>On a disk without faults a chunk that holds records is scanned.\<close>

lemma scan_chunk_complete:
  assumes wf: "disk_wf d" and h: "chunk_holds c z d p h rs"
  shows "\<exists>state. scan_chunk_for_location_rebuild c z p (healthy d) =
    (Inr (\<lparr>rcs_header = h, rcs_state = state, rcs_records = word_of_nat (length rs)\<rparr>, candidates_at h p 64 rs), healthy d)"
proof -
  have rs: "list_all fits rs" "list_all (\<lambda>r. verify_object_record c z r = Inr ()) rs" using h by (simp_all add: chunk_holds_def)
  obtain i where i: "dk_names d p = Some i"
      "is_sealed_path p \<and> data_of d i = sealed_image h rs \<or> is_open_path p \<and> data_of d i = chunk_front h rs"
    using h by (auto simp: chunk_holds_def)
  have size: "length (data_of d i) < file_size_limit"
    using inode_wf_at [OF wf disk_wf_names [OF wf i(1)]] by (simp add: inode_wf_def)
  have "prefix (chunk_header_encode h) (data_of d i)" using i(2) by (auto simp: sealed_image_def chunk_front_def)
  then have "outcome (read_chunk_header i) d = Inr h" by (simp add: read_chunk_header_outcome)
  then have hd: "read_chunk_header i (healthy d) = (Inr h, healthy d)" by (simp add: read_only_healthy [OF read_only_read_chunk_header])
  have op: "io (open_file p) (healthy d) = (Inr i, healthy d)" using healthy_names_runs(3) [OF i(1)] by (simp add: io_def)
  have visit: "visit_records (collect_candidate h p) 64 rs [] = Inr (candidates_at h p 64 rs)" using visit_collect [OF rs(1)] by simp
  show ?thesis
  proof (cases "is_sealed_path p")
    case True
    then have data: "data_of d i = sealed_image h rs" using i(2) by (auto simp: is_sealed_path_def is_open_path_def)
    let ?v = "\<lparr>vs_header = h, vs_footer = sealed_footer_for rs\<rparr>"
    have "outcome (verify_sealed_file_with_visitor c z i (collect_candidate h p) []) d = Inr (?v, candidates_at h p 64 rs)"
      unfolding verify_sealed_file_iff [OF size] using data rs visit by auto
    then have v: "verify_sealed_file_with_visitor c z i (collect_candidate h p) [] (healthy d) = (Inr (?v, candidates_at h p 64 rs), healthy d)"
      by (simp add: read_only_healthy [OF verify_sealed_read_only(1)])
    have "scan_chunk_for_location_rebuild c z p (healthy d) = (Inr (\<lparr>rcs_header = h, rcs_state = RebuildSealed,
        rcs_records = word_of_nat (length rs)\<rparr>, candidates_at h p 64 rs), healthy d)"
      using op hd v True by (simp add: scan_chunk_for_location_rebuild_def sealed_footer_for_def)
    then show ?thesis by blast
  next
    case False
    then have data: "data_of d i = chunk_front h rs" and p: "is_open_path p" using i(2) by auto
    have "split_records (encodings rs) = (rs, [])" using split_records_unique [OF rs(1) whole_record_Nil] by simp
    moreover have "[] \<noteq> sealed_footer_encode f" for f by (metis length_sealed_footer_encode list.size(3) zero_neq_numeral)
    ultimately have "outcome (verify_sealed_file c z i) d \<noteq> Inr vs" for vs
      by (simp add: verify_sealed_split [OF size data [unfolded chunk_front_def], of rs "[]" c z vs])
    then have "\<not> is_ok (outcome (verify_sealed_file c z i) d)" by (cases "outcome (verify_sealed_file c z i) d") auto
    moreover have "attempt (verify_sealed_file c z i) (healthy d) = (Inr (outcome (verify_sealed_file c z i) d) :: store_error + _, healthy d)"
      by (rule attempt_healthy [OF verify_sealed_read_only(2)])
    moreover have len: "io (file_len i) (healthy d) = (Inr (word_of_nat (length (data_of d i))), healthy d)"
      using healthy_names_runs(4) by (simp add: io_def)
    let ?e = "word_of_nat (length (data_of d i)) :: u64"
    let ?scan = "\<lparr>scn_records = word_of_nat (length rs), scn_end = ?e, scn_checksum = crc32c_update crc32c_new (encodings rs)\<rparr>"
    have e: "unat ?e = length (data_of d i)" using size by (intro unat_u64_of_nat) simp
    have "outcome (scan_records_with_visitor c z i ?e True (collect_candidate h p) []) d = Inr (?scan, candidates_at h p 64 rs)"
      by (subst scan_records_strict) (use e data rs visit in \<open>auto simp: chunk_front_def\<close>)
    then have "scan_records_with_visitor c z i ?e True (collect_candidate h p) [] (healthy d) = (Inr (?scan, candidates_at h p 64 rs), healthy d)"
      by (simp add: read_only_healthy [OF scan_records_read_only(1)])
    ultimately have "scan_chunk_for_location_rebuild c z p (healthy d) = (Inr (\<lparr>rcs_header = h, rcs_state = RebuildOpen,
        rcs_records = word_of_nat (length rs)\<rparr>, candidates_at h p 64 rs), healthy d)"
      using op hd len False p by (simp add: scan_chunk_for_location_rebuild_def)
    then show ?thesis by blast
  qed
qed

lemma count_complete: "unat k + unat n < u64_limit \<Longrightarrow> \<exists>m. count k n = Inr m"
  by (simp add: count_def checked_add_def)

lemma select_all_complete:
  "unat n + length xs < u64_limit \<Longrightarrow> \<exists>r. fold_result (select_candidate g) xs (sel, n) = Inr r"
proof (induction xs arbitrary: sel n)
  case (Cons x xs)
  have "\<exists>sel1 n1. select_candidate g x (sel, n) = Inr (sel1, n1) \<and> unat n1 \<le> unat n + 1"
  proof (cases "hm_get sel (candidate_key x)")
    case None
    then show ?thesis by (simp add: select_candidate_def)
  next
    case (Some y)
    have "checked_add n 1 = Some (n + 1)" using Cons.prems by (simp add: checked_add_def)
    then show ?thesis using Some checked_add_unat [of n 1 "n + 1"] by (simp add: select_candidate_def count_def)
  qed
  then obtain sel1 n1 where one: "select_candidate g x (sel, n) = Inr (sel1, n1)" "unat n1 \<le> unat n + 1" by blast
  then show ?case using Cons.IH [of n1 sel1] Cons.prems by simp
qed simp

lemma add_chunk_complete:
  assumes inv: "preflight_inv g hs cs st" and fresh: "chunk_identity (rcs_header chunk) \<notin> set (map chunk_identity hs)"
    and n: "unat (rcs_records chunk) = length xs" and small: "length hs + 1 < u64_limit" "length cs + length xs < u64_limit"
  shows "\<exists>st'. add_chunk g chunk xs st = Inr st'"
proof -
  let ?r = "ps_report st"
  have b: "unat (lr_chunk_files ?r) + unat (1 :: u64) < u64_limit" "unat (lr_open_chunks ?r) + unat (1 :: u64) < u64_limit"
      "unat (lr_sealed_chunks ?r) + unat (1 :: u64) < u64_limit" "unat (lr_scanned_records ?r) + unat (rcs_records chunk) < u64_limit"
      "unat (lr_duplicate_records ?r) + length xs < u64_limit"
    using inv small n by (auto simp: preflight_inv_def)
  have "\<exists>report. count_chunk chunk ?r = Inr report \<and> lr_duplicate_records report = lr_duplicate_records ?r"
    using count_complete [OF b(1)] count_complete [OF b(2)] count_complete [OF b(3)] count_complete [OF b(4)]
    by (auto simp: count_chunk_def split: rebuild_chunk_state.split)
  then obtain report where "count_chunk chunk ?r = Inr report" "lr_duplicate_records report = lr_duplicate_records ?r" by blast
  moreover obtain sel n' where "fold_result (select_candidate g) xs (ps_selected st, lr_duplicate_records ?r) = Inr (sel, n')"
    using select_all_complete [OF b(5), of g "ps_selected st"] by auto
  moreover have "chunk_identity (rcs_header chunk) \<notin> set (ps_identities st)" using inv fresh by (simp add: preflight_inv_def)
  ultimately show ?thesis by (simp add: add_chunk_def Let_def)
qed

lemma preflight_chunks_complete:
  assumes wf: "disk_wf d" and g: "gathered c z d ps hs' cs'" and inv: "preflight_inv g hs cs st"
    and ids: "distinct (map chunk_identity (hs @ hs'))" and small: "length hs + length hs' < u64_limit" "length cs + length cs' < u64_limit"
  shows "\<exists>st'. preflight_chunks c z g ps st (healthy d) = (Inr st', healthy d) \<and> preflight_inv g (hs @ hs') (cs @ cs') st'"
  using g inv ids small
proof (induction ps arbitrary: hs cs st hs' cs')
  case (Cons p ps)
  then obtain h hs1 rs cs1 where p: "hs' = h # hs1" "cs' = candidates_at h p 64 rs @ cs1" "chunk_holds c z d p h rs" "gathered c z d ps hs1 cs1"
    by auto
  obtain state where scan: "scan_chunk_for_location_rebuild c z p (healthy d) =
      (Inr (\<lparr>rcs_header = h, rcs_state = state, rcs_records = word_of_nat (length rs)\<rparr>, candidates_at h p 64 rs), healthy d)"
    using scan_chunk_complete [OF wf p(3)] by blast
  let ?chunk = "\<lparr>rcs_header = h, rcs_state = state, rcs_records = word_of_nat (length rs) :: u64\<rparr>"
  have n: "unat (rcs_records ?chunk) = length (candidates_at h p 64 rs)" using Cons.prems(5) p(2) by (simp add: unat_u64_of_nat)
  obtain st1 where add: "add_chunk g ?chunk (candidates_at h p 64 rs) st = Inr st1"
    using add_chunk_complete [OF Cons.prems(2) _ n] Cons.prems(3,4,5) p(1,2) by auto
  from add_chunk_result [OF Cons.prems(2) n add] have "preflight_inv g (hs @ [h]) (cs @ candidates_at h p 64 rs) st1" by simp
  from Cons.IH [OF p(4) this] Cons.prems(3,4,5) p(1,2) obtain st'
    where "preflight_chunks c z g ps st1 (healthy d) = (Inr st', healthy d)" "preflight_inv g (hs @ hs') (cs @ cs') st'" by auto
  then show ?case using scan add by (auto intro!: exI [of _ st'])
qed auto

lemma verify_preserved_alias_complete:
  assumes c: "crypto_ok c" and wf: "disk_wf d" and ok: "cache_ok c z d sel cache"
    and v: "verified_oid c z d sel (content_id_bytes (oae_content_id e)) (oid_algorithm (oae_oid e)) (oae_oid e)"
  shows "\<exists>cache'. verify_preserved_alias c z sel e (healthy d, cache) = (Inr (), (healthy d, cache'))"
proof -
  let ?key = "content_id_bytes (oae_content_id e)" and ?alg = "oid_algorithm (oae_oid e)"
  obtain x r raw where x: "hm_get sel ?key = Some x" "outcome (read_record_at c z (rc_path x) (ole_location (rc_entry x))) d = Inr r"
      "decode_object_payload c z r = Inr raw" "git_oid_for_object c ?alg (obj_kind r) raw = Inr (oae_oid e)"
    using v by (auto simp: verified_oid_def)
  show ?thesis
  proof (cases "hm_get cache (?key, ?alg)")
    case (Some oid)
    then have "verified_oid c z d sel ?key ?alg oid" using ok by (simp add: cache_ok_def)
    then have "oid = oae_oid e" using x by (auto simp: verified_oid_def)
    then show ?thesis using Some x(1) by (simp add: verify_preserved_alias_def Let_def seq_eff_def)
  next
    case None
    let ?loc = "ole_location (rc_entry x)"
    obtain hasher where st: "stream_decoded_record_at c z (git_oid_hasher_write c) (rc_path x) ?loc
        (healthy d, git_oid_hasher_new c ?alg (loc_kind ?loc) (loc_raw_length ?loc)) = (Inr (record_meta r), (healthy d, hasher))"
      using oid_hasher.streaming_complete(2) [OF c wf x(2)] by blast
    have "git_oid_hasher_finish c hasher = Inr (oae_oid e)"
      using streamed_oid [OF c _ _ st, of r] wf x by simp
    then show ?thesis using x(1) None st by (simp add: verify_preserved_alias_def Let_def seq_eff_def)
  qed
qed

lemma visit_aliases_complete:
  assumes c: "crypto_ok c" and wf: "disk_wf d" and rd: "readable c z d sel" and inv: "alias_inv c z d sel es (healthy d, a)"
    and fine: "ac_failure a = None" and small: "length es + length fs < u64_limit"
    and all: "\<forall>e \<in> set fs. verified_oid c z d sel (content_id_bytes (oae_content_id e)) (oid_algorithm (oae_oid e)) (oae_oid e)"
  shows "\<exists>a'. visit_scan (map Inr fs) (alias_visitor c z sel) (healthy d, a) = (Inr (), (healthy d, a')) \<and> ac_failure a' = None"
  using inv fine small all
proof (induction fs arbitrary: es a)
  case (Cons e fs)
  have ok: "cache_ok c z d sel (ac_calculated a)" and n: "unat (ac_verified a) = length es"
    using Cons.prems(1,2) by (simp_all add: alias_inv_def)
  obtain cache' where one: "verify_preserved_alias c z sel e (healthy d, ac_calculated a) = (Inr (), (healthy d, cache'))"
    using verify_preserved_alias_complete [OF c wf ok] Cons.prems(4) by auto
  have "checked_add (ac_verified a) 1 = Some (ac_verified a + 1)" using n Cons.prems(3) by (simp add: checked_add_def)
  then have step: "alias_visitor c z sel e (healthy d, a) = (Inr (), (healthy d, a\<lparr>ac_calculated := cache', ac_verified := ac_verified a + 1\<rparr>))"
    using one Cons.prems(2) by (simp add: alias_visitor_def)
  have "alias_inv c z d sel (es @ [e]) (healthy d, a\<lparr>ac_calculated := cache', ac_verified := ac_verified a + 1\<rparr>)"
    by (rule alias_visitor_result(3) [OF c wf rd Cons.prems(1) step refl])
  from Cons.IH [OF this] show ?case using step Cons.prems(2-4) by simp
qed simp

text \<open>A catalog whose mutating methods succeed whenever their abstract counterparts do.\<close>

definition steady :: "'c catalog_ops \<Rightarrow> ('c \<Rightarrow> bool) \<Rightarrow> ('c \<Rightarrow> catalog_view) \<Rightarrow> bool" where
  "steady ops invar view \<longleftrightarrow> (\<forall>cat. invar cat \<longrightarrow>
     (is_ok (view_begin (view cat)) \<longrightarrow> is_ok (fst (cat_begin_rebuild ops cat))) \<and>
     (is_ok (view_restart (view cat)) \<longrightarrow> is_ok (fst (cat_restart_rebuild ops cat))) \<and>
     (\<forall>es. is_ok (view_append es (view cat)) \<longrightarrow> is_ok (fst (cat_append_rebuilt ops es cat))) \<and>
     (is_ok (view_finish (view cat)) \<longrightarrow> is_ok (fst (cat_finish_rebuild ops cat))))"

lemma im_steady: "steady im_ops im_wf im_view"
  by (auto simp: steady_def im_ops_def im_op_defs view_begin_def view_restart_def view_append_def view_finish_def is_ok_iff ok_iff
      split: sum.splits)

lemma gathered_exists: "\<forall>p \<in> set ps. \<exists>h rs. chunk_holds c z d p h rs \<Longrightarrow> \<exists>hs cs. gathered c z d ps hs cs"
proof (induction ps)
  case (Cons p ps)
  then obtain h rs hs cs where "chunk_holds c z d p h rs" "gathered c z d ps hs cs" by auto
  then have "gathered c z d (p # ps) (h # hs) (candidates_at h p 64 rs @ cs)" by auto
  then show ?case by blast
next
  case Nil
  have "gathered c z d [] [] []" by simp
  then show ?case by blast
qed

text \<open>
  The chunk files are intact, no two of them are the same chunk, and the content of every alias is in
  one of them and has the alias's object ID.
\<close>

definition aliases_backed ::
  "'h crypto \<Rightarrow> zstd \<Rightarrow> disk \<Rightarrow> path list \<Rightarrow> (repo_id \<times> git_oid \<rightharpoonup> content_id) \<Rightarrow> bool" where
  "aliases_backed c z d paths aliases \<longleftrightarrow> (\<forall>repo oid cid. aliases (repo, oid) = Some cid \<longrightarrow>
     (\<exists>p \<in> set paths. \<exists>h rs. chunk_holds c z d p h rs \<and> cid \<in> obj_content_id ` set rs) \<and>
     (\<forall>p \<in> set paths. \<forall>h rs r. chunk_holds c z d p h rs \<longrightarrow> r \<in> set rs \<longrightarrow> obj_content_id r = cid \<longrightarrow>
       (\<exists>raw. decode_object_payload c z r = Inr raw \<and> git_oid_for_object c (oid_algorithm oid) (obj_kind r) raw = Inr oid)))"

lemma candidates_content: "ole_content_id ` rc_entry ` set (candidates_at h p off rs) = obj_content_id ` set rs"
  by (induction rs arbitrary: off) auto

lemma backed_verified:
  assumes wf: "disk_wf d" and g: "gathered c z d (remdups_adj (sort paths)) hs cs" and sel: "selection_of g sel cs"
    and b: "aliases_backed c z d paths aliases" and a: "aliases (repo, oid) = Some cid"
  shows "verified_oid c z d sel (content_id_bytes cid) (oid_algorithm oid) oid"
proof -
  obtain p h rs where p: "p \<in> set paths" "chunk_holds c z d p h rs" "cid \<in> obj_content_id ` set rs"
    using b a unfolding aliases_backed_def by blast
  then have "cid \<in> ole_content_id ` rc_entry ` set (candidates_at h p 64 rs)" by (simp add: candidates_content)
  then obtain x where x: "x \<in> set (candidates_at h p 64 rs)" "ole_content_id (rc_entry x) = cid" by blast
  have "x \<in> set cs" using gathered_iff(1) [OF g, of x] p(1,2) x(1) sorted_paths(1) [of paths] by blast
  then obtain y where y: "hm_get sel (content_id_bytes cid) = Some y" using sel x(2) by (auto simp: selection_of_def candidate_key_def)
  then have "y \<in> set cs" "candidate_key y = content_id_bytes cid" using sel by (auto simp: selection_of_def)
  then obtain q h' rs' where q: "q \<in> set paths" "chunk_holds c z d q h' rs'" "y \<in> set (candidates_at h' q 64 rs')"
      and "ole_content_id (rc_entry y) = cid"
    using gathered_iff(1) [OF g, of y] sorted_paths(1) [of paths] content_id.expand unfolding candidate_key_def by blast
  then obtain r where r: "outcome (read_record_at c z (rc_path y) (ole_location (rc_entry y))) d = Inr r" "obj_content_id r = cid" "r \<in> set rs'"
    using candidate_read [OF wf q(2,3)] by auto
  then obtain raw where "decode_object_payload c z r = Inr raw" "git_oid_for_object c (oid_algorithm oid) (obj_kind r) raw = Inr oid"
    using b a q(1,2) unfolding aliases_backed_def by blast
  then show ?thesis using y r(1) by (auto simp: verified_oid_def)
qed

lemma selection_distinct:
  assumes sel: "selection_of g sel cs"
  shows "distinct (map ole_content_id (map rc_entry (map snd (sort_key fst sel))))"
proof -
  have wf: "distinct (map fst sel)" using sel by (simp add: selection_of_def hm_wf_def)
  have key: "candidate_key (snd x) = fst x" if "x \<in> set sel" for x
    using that sel wf map_of_is_SomeI [of sel "fst x" "snd x"] by (simp add: selection_of_def hm_get_def)
  have "distinct (map fst (sort_key fst sel))" using wf by (metis distinct_map distinct_sort inj_on_def set_sort)
  also have "map fst (sort_key fst sel) = map content_id_bytes (map ole_content_id (map rc_entry (map snd (sort_key fst sel))))"
    using key by (simp add: candidate_key_def)
  finally show ?thesis unfolding distinct_map [of content_id_bytes] by blast
qed

lemma enumerated_aliases:
  assumes "enumerates alias_order (\<lambda>e. m (oae_repository e, oae_oid e) = Some (oae_content_id e)) es"
  shows "length es = card (dom m)"
proof -
  let ?k = "\<lambda>e. (oae_repository e, oae_oid e)"
  have "distinct es" and mem: "\<And>e. e \<in> set es \<longleftrightarrow> m (?k e) = Some (oae_content_id e)"
    using assms strict_sorted_iff [of "map alias_order es"] by (auto simp: enumerates_def distinct_map)
  moreover have "inj_on ?k (set es)" by (intro inj_onI) (auto simp: mem intro: oid_alias_entry.equality)
  moreover have "dom m = ?k ` set es"
  proof (intro set_eqI iffI)
    fix k assume "k \<in> dom m"
    then obtain cid where "m k = Some cid" by blast
    then have "\<lparr>oae_repository = fst k, oae_oid = snd k, oae_content_id = cid\<rparr> \<in> set es" by (simp add: mem)
    then show "k \<in> ?k ` set es" by force
  qed (auto simp: mem)
  ultimately show ?thesis by (simp add: card_image distinct_card)
qed

context catalog
begin

lemma preflight_complete:
  assumes c: "crypto_ok c" and wf: "disk_wf d" and cat: "invar cat"
    and g: "gathered c z d (remdups_adj (sort paths)) hs cs" and ids: "distinct (map chunk_identity hs)"
    and small: "length hs < u64_limit" "length cs < u64_limit" "card (dom (v_aliases (view cat))) < u64_limit"
    and b: "aliases_backed c z d paths (v_aliases (view cat))"
  shows "\<exists>pf. preflight_object_location_rebuild c z ops cat paths (healthy d) = (Inr pf, healthy d) \<and>
    length (pf_entries pf) \<le> length cs \<and> distinct (map ole_content_id (map rc_entry (pf_entries pf))) \<and>
    list_all (\<lambda>e. content_id_wf (ole_content_id e)) (map rc_entry (pf_entries pf)) \<and> lr_catalog_batches_written (pf_report pf) = 0"
proof -
  let ?g = "current_generation ops cat" and ?ps = "remdups_adj (sort paths)"
  let ?st = "\<lparr>ps_report = report_default, ps_identities = [], ps_selected = []\<rparr>"
  have "preflight_inv ?g [] [] ?st" by (simp add: preflight_inv_def selection_of_def report_default_def)
  from preflight_chunks_complete [OF wf g this] ids small(1,2) obtain st
    where one: "preflight_chunks c z ?g ?ps ?st (healthy d) = (Inr st, healthy d)" and inv: "preflight_inv ?g hs cs st" by auto
  have sel: "selection_of ?g (ps_selected st) cs" and zero: "lr_preserved_aliases_verified (ps_report st) = 0"
      and len: "length (ps_selected st) \<le> length cs" "lr_catalog_batches_written (ps_report st) = 0"
    using inv by (auto simp: preflight_inv_def)
  obtain es where es: "cat_scan_oid_aliases ops cat = map Inr es"
      "\<And>e. e \<in> set es \<longleftrightarrow> v_aliases (view cat) (oae_repository e, oae_oid e) = Some (oae_content_id e)"
      "length es = card (dom (v_aliases (view cat)))"
    using scan_oid_aliases [OF cat] enumerated_aliases by (auto simp: enumerates_def)
  let ?a = "\<lparr>ac_calculated = [], ac_failure = None, ac_verified = 0\<rparr>"
  have "alias_inv c z d (ps_selected st) [] (healthy d, ?a)" by (simp add: alias_inv_def cache_ok_def)
  moreover have "\<forall>e \<in> set es. verified_oid c z d (ps_selected st) (content_id_bytes (oae_content_id e)) (oid_algorithm (oae_oid e)) (oae_oid e)"
    using backed_verified [OF wf g sel b] es(2) by blast
  ultimately obtain a where "visit_scan (map Inr es) (alias_visitor c z (ps_selected st)) (healthy d, ?a) = (Inr (), (healthy d, a))" "ac_failure a = None"
    using visit_aliases_complete [OF c wf selection_entries(3) [OF sel g wf], of "[]" ?a es] small(3) es(3) by auto
  then have two: "verify_preserved_aliases c z ops cat (ps_selected st) 0 (healthy d) = (Inr (ac_verified a), healthy d)"
    by (simp add: verify_preserved_aliases_def es(1) comp_def)
  have "try_u64 (length (ps_selected st)) = Some (word_of_nat (length (ps_selected st)))" using len small(2) by (simp add: try_u64_def)
  then show ?thesis using one two zero len selection_distinct [OF sel] selection_entries(2) [OF sel g wf]
    by (simp add: preflight_object_location_rebuild_def fails_apply seq_eff_def comp_assoc)
qed

lemma append_batches_complete:
  assumes st: "steady ops invar view" and cat: "invar cat" and reb: "v_rebuilding (view cat)"
    and wf: "list_all (\<lambda>e. content_id_wf (ole_content_id e)) (map rc_entry (concat bs))"
    and new: "distinct (map ole_content_id (map rc_entry (concat bs)))" "\<forall>e \<in> set (map rc_entry (concat bs)). v_objects (view cat) (ole_content_id e) = None"
    and small: "unat (lr_catalog_batches_written report) + length bs < u64_limit"
  shows "\<exists>report' cat'. append_batches ops bs report cat = (Inr report', cat') \<and> invar cat' \<and> v_rebuilding (view cat')"
  using cat reb wf new small
proof (induction bs arbitrary: report cat)
  case (Cons b bs)
  let ?es = "map rc_entry b"
  have new: "distinct (map ole_content_id ?es)" "\<forall>e \<in> set ?es. v_objects (view cat) (ole_content_id e) = None"
    using Cons.prems(4,5) by simp_all
  have "is_ok (view_append ?es (view cat))" unfolding view_append_def using Cons.prems(2) new by (simp add: is_ok_iff ok_iff reject_duplicates_ok)
  then have "is_ok (fst (cat_append_rebuilt ops ?es cat))" using st Cons.prems(1) unfolding steady_def by blast
  then obtain cat1 where one: "cat_append_rebuilt ops ?es cat = (Inr (), cat1)"
    by (cases "cat_append_rebuilt ops ?es cat") (auto simp: is_ok_iff)
  have "list_all (\<lambda>e. content_id_wf (ole_content_id e)) ?es" using Cons.prems(3) by (simp add: list_all_iff)
  note ref = refines_stepD [OF append_refines [OF this] Cons.prems(1)]
  have "view cat1 = (view cat)\<lparr>v_objects := v_objects (view cat) ++ entry_map ?es\<rparr>" by (rule view_append_Inr(4) [OF ref(2) [OF one]])
  then have v: "invar cat1" "v_rebuilding (view cat1)" "v_objects (view cat1) = v_objects (view cat) ++ entry_map ?es"
    using ref(1) [OF one] Cons.prems(2) by simp_all
  have "ole_content_id e \<notin> dom (entry_map ?es) \<and> v_objects (view cat) (ole_content_id e) = None" if "e \<in> set (map rc_entry (concat bs))" for e
    using Cons.prems(4,5) that unfolding dom_entry_map by auto
  then have free: "\<forall>e \<in> set (map rc_entry (concat bs)). v_objects (view cat1) (ole_content_id e) = None"
    unfolding v(3) map_add_None domIff by blast
  have n: "unat (lr_catalog_batches_written report) + 1 < u64_limit" using Cons.prems(6) by simp
  let ?report = "report\<lparr>lr_catalog_batches_written := lr_catalog_batches_written report + 1\<rparr>"
  have cnt: "count (lr_catalog_batches_written report) 1 = Inr (lr_catalog_batches_written report + 1)"
      "unat (lr_catalog_batches_written ?report) = unat (lr_catalog_batches_written report) + 1"
    using checked_add_of_nat [OF n] by (simp_all add: count_def)
  have "\<exists>report' cat'. append_batches ops bs ?report cat1 = (Inr report', cat') \<and> invar cat' \<and> v_rebuilding (view cat')"
    by (rule Cons.IH) (use v(1,2) free cnt(2) Cons.prems(3,4,6) in simp_all)
  then show ?case using one cnt(1) by (simp add: cat_io_def)
qed simp

lemma rebuild_tail_complete:
  assumes st: "steady ops invar view" and cat: "invar cat" and reb: "v_rebuilding (view cat)" "v_objects (view cat) = Map.empty"
    and wf: "list_all (\<lambda>e. content_id_wf (ole_content_id e)) (map rc_entry entries)"
    and new: "distinct (map ole_content_id (map rc_entry entries))" and n: "0 < n"
    and small: "lr_catalog_batches_written report = 0" "length entries < u64_limit"
  shows "\<exists>report' cat'. seq_eff (fails (on_snd (append_batches ops (chunks_of n entries) report))) (\<lambda>report.
      seq_eff (fails (on_snd (cat_io (cat_finish_rebuild ops)))) (\<lambda>_. ret report)) (s, cat) = (Inr report', (s, cat'))"
proof -
  have "length (chunks_of n entries) \<le> length entries" by (rule length_chunks_of)
  then obtain report1 cat1 where one: "append_batches ops (chunks_of n entries) report cat = (Inr report1, cat1)" "invar cat1" "v_rebuilding (view cat1)"
    using append_batches_complete [OF st cat reb(1), of "chunks_of n entries" report] wf new reb(2) n small by auto
  then have "is_ok (fst (cat_finish_rebuild ops cat1))" using st by (simp add: steady_def view_finish_def)
  then obtain cat2 where "cat_finish_rebuild ops cat1 = (Inr (), cat2)"
    by (cases "cat_finish_rebuild ops cat1") (auto simp: is_ok_iff)
  then show ?thesis using one(1) by (simp add: fails_apply cat_io_def)
qed

text \<open>A rebuild that finds the marker set starts over; both ways into it succeed.\<close>

lemma rebuild_object_locations_complete:
  assumes c: "crypto_ok c" and wf: "disk_wf d" and st: "steady ops invar view" and cat: "invar cat" and n: "0 < n"
    and g: "gathered c z d (remdups_adj (sort paths)) hs cs" and ids: "distinct (map chunk_identity hs)"
    and small: "length hs < u64_limit" "length cs < u64_limit" "card (dom (v_aliases (view cat))) < u64_limit"
    and b: "aliases_backed c z d paths (v_aliases (view cat))"
  shows "\<exists>report cat'. rebuild_object_locations c z ops paths n (healthy d, cat) = (Inr report, (healthy d, cat'))"
proof (cases "v_rebuilding (view cat)")
  case False
  obtain pf where pf: "preflight_object_location_rebuild c z ops cat paths (healthy d) = (Inr pf, healthy d)" "length (pf_entries pf) \<le> length cs"
      "distinct (map ole_content_id (map rc_entry (pf_entries pf)))" "list_all (\<lambda>e. content_id_wf (ole_content_id e)) (map rc_entry (pf_entries pf))"
      "lr_catalog_batches_written (pf_report pf) = 0"
    using preflight_complete [OF c wf cat g ids small b] by blast
  have "is_ok (fst (cat_begin_rebuild ops cat))" using st cat False by (simp add: steady_def view_begin_def)
  then obtain cat1 where one: "cat_begin_rebuild ops cat = (Inr (), cat1)"
    by (cases "cat_begin_rebuild ops cat") (auto simp: is_ok_iff)
  note ref = refines_stepD [OF begin_refines cat]
  have v: "invar cat1" "v_rebuilding (view cat1)" "v_objects (view cat1) = Map.empty"
    using ref(1) [OF one] ref(2) [OF one] False by (auto simp: view_begin_def dest: sym)
  obtain report cat2 where "seq_eff (fails (on_snd (append_batches ops (chunks_of n (pf_entries pf)) (pf_report pf)))) (\<lambda>report.
      seq_eff (fails (on_snd (cat_io (cat_finish_rebuild ops)))) (\<lambda>_. ret report)) (healthy d, cat1) = (Inr report, (healthy d, cat2))"
    using rebuild_tail_complete [OF st v pf(4,3) n pf(5)] pf(2) small(2) by fastforce
  then show ?thesis using pf(1) one False n
    by (simp add: rebuild_object_locations_def rebuild_state [OF cat] fails_apply cat_io_def seq_eff_def)
next
  case True
  have "is_ok (fst (cat_restart_rebuild ops cat))" using st cat True by (simp add: steady_def view_restart_def)
  then obtain cat1 where one: "cat_restart_rebuild ops cat = (Inr (), cat1)"
    by (cases "cat_restart_rebuild ops cat") (auto simp: is_ok_iff)
  note ref = refines_stepD [OF restart_refines cat]
  have v: "invar cat1" "v_rebuilding (view cat1)" "v_objects (view cat1) = Map.empty" "v_aliases (view cat1) = v_aliases (view cat)"
    using ref(1) [OF one] ref(2) [OF one] True by (auto simp: view_restart_def dest: sym)
  obtain pf where pf: "preflight_object_location_rebuild c z ops cat1 paths (healthy d) = (Inr pf, healthy d)" "length (pf_entries pf) \<le> length cs"
      "distinct (map ole_content_id (map rc_entry (pf_entries pf)))" "list_all (\<lambda>e. content_id_wf (ole_content_id e)) (map rc_entry (pf_entries pf))"
      "lr_catalog_batches_written (pf_report pf) = 0"
    using preflight_complete [OF c wf v(1) g ids] small b v(4) by auto
  obtain report cat2 where "seq_eff (fails (on_snd (append_batches ops (chunks_of n (pf_entries pf)) (pf_report pf)))) (\<lambda>report.
      seq_eff (fails (on_snd (cat_io (cat_finish_rebuild ops)))) (\<lambda>_. ret report)) (healthy d, cat1) = (Inr report, (healthy d, cat2))"
    using rebuild_tail_complete [OF st v(1,2,3) pf(4,3) n pf(5)] pf(2) small(2) by fastforce
  then show ?thesis using pf(1) one True n
    by (simp add: rebuild_object_locations_def rebuild_state [OF cat] fails_apply cat_io_def seq_eff_def)
qed

end

end
