(* ===== verification/Rotation.thy ===== *)
theory Rotation
  imports SealLaws
begin

text \<open>
  The rotating writer, the writer gate and the writers that hold it
  (\<open>crates/reflink-forest-store/src/lib.rs\<close>).  The rotating writer keeps its chunks within a target
  size and gives every larger record a chunk of its own; it never splits a record.
\<close>

section \<open>The rotating writer\<close>

record rotating_chunk_writer =
  rw_directory :: path
  rw_generation :: u32
  rw_target_size :: u64
  rw_created_unix_secs :: u64
  rw_next_chunk_id :: u64
  rw_active :: "chunk_writer option"

record rotated_record_location =
  rot_generation :: u32
  rot_chunk_id :: u64
  rot_location :: record_location
  rot_dedicated_oversized :: bool

text \<open>\<open>format!("{chunk_id:016x}.open")\<close>.\<close>

definition lower_hex :: "nat \<Rightarrow> char" where
  "lower_hex n = ''0123456789abcdef'' ! n"

definition open_chunk_name :: "u64 \<Rightarrow> string" where
  "open_chunk_name chunk_id = map (\<lambda>i. lower_hex (unat chunk_id div 16 ^ i mod 16)) (rev [0..<16]) @ ''.open''"

definition NO_ACTIVE_CHUNK :: string where
  "NO_ACTIVE_CHUNK = ''rotating writer always has an active chunk outside a failed rotation''"

text \<open>A method call on the active chunk.\<close>

definition active_mut ::
  "((chunk_writer \<times> fs) \<times> 'c, store_error, 'a) eff \<Rightarrow> ((rotating_chunk_writer \<times> fs) \<times> 'c, store_error failure, 'a) eff" where
  "active_mut m = (\<lambda>((w, s), c).
     case rw_active w of
       None \<Rightarrow> (Inl (Panics NO_ACTIVE_CHUNK), ((w, s), c))
     | Some a \<Rightarrow> (case m ((a, s), c) of (r, ((a', s'), c')) \<Rightarrow>
         (map_err Fails r, ((w\<lparr>rw_active := Some a'\<rparr>, s'), c'))))"

text \<open>A call that does not touch the writer itself.\<close>

definition on_store :: "(fs \<times> 'c, store_error, 'a) eff \<Rightarrow> ((rotating_chunk_writer \<times> fs) \<times> 'c, store_error failure, 'a) eff" where
  "on_store m = (\<lambda>((w, s), c). case m (s, c) of (r, (s', c')) \<Rightarrow> (map_err Fails r, ((w, s'), c')))"

definition update_writer :: "(rotating_chunk_writer \<Rightarrow> rotating_chunk_writer) \<Rightarrow> ((rotating_chunk_writer \<times> fs) \<times> 'c, 'e, unit) eff" where
  "update_writer f = (\<lambda>((w, s), c). (Inr (), ((f w, s), c)))"

definition rw_create_next :: "'c catalog_ops \<Rightarrow> ((rotating_chunk_writer \<times> fs) \<times> 'c, store_error failure, unit) eff" where
  "rw_create_next ops =
     seq_eff (ask (\<lambda>s. fst (fst s))) (\<lambda>w.
     let chunk_id = rw_next_chunk_id w in
     seq_eff (lift_result (ok_or (checked_add chunk_id 1) (Fails OffsetOverflow))) (\<lambda>next_chunk_id.
     seq_eff (update_writer (\<lambda>w. w\<lparr>rw_next_chunk_id := next_chunk_id\<rparr>)) (\<lambda>_.
     seq_eff (on_store (cw_create_and_publish ops (path_join (rw_directory w) (open_chunk_name chunk_id))
       \<lparr>ch_generation = rw_generation w, ch_chunk_id = chunk_id, ch_created_unix_secs = rw_created_unix_secs w, ch_flags = 0\<rparr>)) (\<lambda>writer.
     update_writer (\<lambda>w. w\<lparr>rw_active := Some writer\<rparr>)))))"

definition rw_seal_current :: "'c catalog_ops \<Rightarrow> ((rotating_chunk_writer \<times> fs) \<times> 'c, store_error failure, sealed_chunk) eff" where
  "rw_seal_current ops =
     seq_eff (ask (\<lambda>s. rw_active (fst (fst s)))) (\<lambda>active.
     seq_eff (update_writer (\<lambda>w. w\<lparr>rw_active := None\<rparr>)) (\<lambda>_.
     seq_eff (lift_result (ok_or active (Panics NO_ACTIVE_CHUNK))) (\<lambda>writer.
     on_store (cw_seal_and_publish ops writer))))"

definition rw_create ::
  "'c catalog_ops \<Rightarrow> path \<Rightarrow> u32 \<Rightarrow> u64 \<Rightarrow> u64 \<Rightarrow> u64 \<Rightarrow> (fs \<times> 'c, store_error failure, rotating_chunk_writer) eff" where
  "rw_create ops directory generation first_chunk_id target_len created_unix_secs =
     seq_eff (lift_result (ok_or (checked_add (word_of_nat CHUNK_HEADER_LEN) (word_of_nat SEALED_CHUNK_FOOTER_LEN))
       (Fails OffsetOverflow))) (\<lambda>minimum.
     if target_len < minimum then raise (Fails RotationTargetTooSmall) else
     seq_eff (fails (on_fst (io (create_dir_all directory)))) (\<lambda>_ (s, c).
       case rw_create_next ops ((\<lparr>rw_directory = directory, rw_generation = generation, rw_target_size = target_len,
           rw_created_unix_secs = created_unix_secs, rw_next_chunk_id = first_chunk_id, rw_active = None\<rparr>, s), c) of
         (r, ((writer, s'), c')) \<Rightarrow> (and_then r (\<lambda>_. Inr writer), (s', c'))))"

text \<open>The length of a sealed chunk that holds one record.\<close>

definition minimum_record_chunk :: "u64 \<Rightarrow> u64 option" where
  "minimum_record_chunk encoded_len =
     (case checked_add (word_of_nat CHUNK_HEADER_LEN) encoded_len of
        None \<Rightarrow> None | Some len \<Rightarrow> checked_add len (word_of_nat SEALED_CHUNK_FOOTER_LEN))"

text \<open>Whether appending \<open>encoded_len\<close> bytes and a footer takes the active chunk beyond the target.\<close>

definition would_exceed_target :: "u64 \<Rightarrow> u64 \<Rightarrow> chunk_writer \<Rightarrow> store_error + bool" where
  "would_exceed_target target_len encoded_len active =
     and_then (ok_or (case checked_add (cw_next_offset active) encoded_len of
         None \<Rightarrow> None | Some len \<Rightarrow> checked_add len (word_of_nat SEALED_CHUNK_FOOTER_LEN)) OffsetOverflow) (\<lambda>len.
     Inr (target_len < len \<and> cw_record_count active \<noteq> 0))"

text \<open>Seals the active chunk and starts the next one.\<close>

definition rotate_if :: "'c catalog_ops \<Rightarrow> bool \<Rightarrow> ((rotating_chunk_writer \<times> fs) \<times> 'c, store_error failure, unit) eff" where
  "rotate_if ops due = (if due then seq_eff (rw_seal_current ops) (\<lambda>_. rw_create_next ops) else ret ())"

definition rw_append_and_index ::
  "'h crypto \<Rightarrow> zstd \<Rightarrow> 'c catalog_ops \<Rightarrow> repo_id \<Rightarrow> object_record
    \<Rightarrow> ((rotating_chunk_writer \<times> fs) \<times> 'c, store_error failure, rotated_record_location option) eff" where
  "rw_append_and_index c z ops repo record =
     seq_eff (ask (\<lambda>s. (rw_generation (fst (fst s)), rw_target_size (fst (fst s)), snd s))) (\<lambda>(generation, target_len, catalog).
     if cat_object_location ops catalog (obj_content_id record) \<noteq> None then
       seq_eff (active_mut (ask (\<lambda>s. ch_chunk_id (cw_header (fst (fst s)))))) (\<lambda>chunk_id.
       seq_eff (active_mut (cw_append_and_index c z ops repo generation chunk_id record)) (\<lambda>location.
       ret (map_option (\<lambda>l. \<lparr>rot_generation = generation, rot_chunk_id = chunk_id, rot_location = l,
         rot_dedicated_oversized = False\<rparr>) location)))
     else
       seq_eff (lift_result (map_err (\<lambda>e. Fails (Format e)) (encode_record record))) (\<lambda>encoded.
       seq_eff (lift_result (ok_or (try_u64 (length encoded)) (Fails OffsetOverflow))) (\<lambda>encoded_len.
       seq_eff (lift_result (ok_or (minimum_record_chunk encoded_len) (Fails OffsetOverflow))) (\<lambda>minimum.
       let oversized = target_len < minimum in
       seq_eff (active_mut (seq_eff (ask (\<lambda>s. would_exceed_target target_len encoded_len (fst (fst s)))) lift_result)) (\<lambda>exceed.
       seq_eff (rotate_if ops exceed) (\<lambda>_.
       seq_eff (active_mut (ask (\<lambda>s. ch_chunk_id (cw_header (fst (fst s)))))) (\<lambda>chunk_id.
       seq_eff (active_mut (cw_append_and_index c z ops repo generation chunk_id record)) (\<lambda>appended.
       seq_eff (lift_result (ok_or appended (Panics ''record was checked absent from the catalog before append''))) (\<lambda>location.
       seq_eff (rotate_if ops oversized) (\<lambda>_.
       ret (Some \<lparr>rot_generation = generation, rot_chunk_id = chunk_id, rot_location = location,
         rot_dedicated_oversized = oversized\<rparr>)))))))))))"

definition rw_finish :: "'c catalog_ops \<Rightarrow> ((rotating_chunk_writer \<times> fs) \<times> 'c, store_error failure, sealed_chunk) eff" where
  "rw_finish ops = rw_seal_current ops"

section \<open>The gate\<close>

text \<open>
  The lock behind \<open>ColdStoreWriterGate\<close>: how many permits are out, whether a checkpoint holds it, and
  whether one panicked while holding it.  \<open>None\<close> is a call that blocks.
\<close>

record writer_gate =
  gate_permits :: nat
  gate_frozen :: bool
  gate_poisoned :: bool

definition gate_new :: writer_gate where
  "gate_new = \<lparr>gate_permits = 0, gate_frozen = False, gate_poisoned = False\<rparr>"

definition acquire_writer :: "writer_gate \<Rightarrow> (store_error + writer_gate) option" where
  "acquire_writer g =
     (if gate_frozen g then None
      else if gate_poisoned g then Some (Inl WriterGatePoisoned)
      else Some (Inr (g\<lparr>gate_permits := gate_permits g + 1\<rparr>)))"

definition freeze_for_checkpoint :: "writer_gate \<Rightarrow> (store_error + writer_gate) option" where
  "freeze_for_checkpoint g =
     (if gate_frozen g \<or> gate_permits g \<noteq> 0 then None
      else if gate_poisoned g then Some (Inl WriterGatePoisoned)
      else Some (Inr (g\<lparr>gate_frozen := True\<rparr>)))"

definition quiesce_and_sync :: "store_error + unit" where
  "quiesce_and_sync = Inr ()"

definition drop_permit :: "writer_gate \<Rightarrow> writer_gate" where
  "drop_permit g = g\<lparr>gate_permits := gate_permits g - 1\<rparr>"

definition drop_guard :: "bool \<Rightarrow> writer_gate \<Rightarrow> writer_gate" where
  "drop_guard panicking g = g\<lparr>gate_frozen := False, gate_poisoned := gate_poisoned g \<or> panicking\<rparr>"

text \<open>The writers that hold a permit for the whole of an operation.\<close>

definition gated :: "('s, 'e, 'a) eff \<Rightarrow> (store_error \<Rightarrow> 'e) \<Rightarrow> writer_gate \<times> 's \<Rightarrow> (('e + 'a) \<times> writer_gate \<times> 's) option" where
  "gated m err = (\<lambda>(g, s).
     case acquire_writer g of
       None \<Rightarrow> None
     | Some (Inl e) \<Rightarrow> Some (Inl (err e), (g, s))
     | Some (Inr g') \<Rightarrow> (case m s of (r, s') \<Rightarrow> Some (r, (drop_permit g', s'))))"

definition gcw_create_and_publish where
  "gcw_create_and_publish ops p header = gated (cw_create_and_publish ops p header) (\<lambda>e. e)"

definition gcw_open_recovered where
  "gcw_open_recovered c z p = gated (cw_open_recovered c z p) (\<lambda>e. e)"

definition gcw_append_and_index where
  "gcw_append_and_index c z ops repo generation chunk_id record =
     gated (cw_append_and_index c z ops repo generation chunk_id record) (\<lambda>e. e)"

definition gcw_seal_and_publish where
  "gcw_seal_and_publish ops w = gated (cw_seal_and_publish ops w) (\<lambda>e. e)"

definition grw_create where
  "grw_create ops directory generation first_chunk_id target_len created_unix_secs =
     gated (rw_create ops directory generation first_chunk_id target_len created_unix_secs) Fails"

definition grw_append_and_index where
  "grw_append_and_index c z ops repo record = gated (rw_append_and_index c z ops repo record) Fails"

definition grw_finish where
  "grw_finish ops = gated (rw_finish ops) Fails"

end
