(* ===== verification/RotationLaws.thy ===== *)
theory RotationLaws
  imports Rotation
begin

text \<open>
  What the rotating writer keeps to, for every schedule of faults: no chunk it publishes grows beyond
  the target unless it holds a single record, and it panics only after a rotation has failed.  The
  gate keeps writers out of a frozen tier.
\<close>

section \<open>Effects on a part of the state\<close>

lemma active_mut_Some:
  assumes "rw_active w = Some a" and "m ((a, s), cat) = (r, ((a', s'), cat'))"
  shows "active_mut m ((w, s), cat) = (map_err Fails r, ((w\<lparr>rw_active := Some a'\<rparr>, s'), cat'))"
  using assms by (simp add: active_mut_def)

lemma active_same: "rw_active w = Some a \<Longrightarrow> w\<lparr>rw_active := Some a\<rparr> = w"
  by (cases w) simp

lemma active_ask: "rw_active w = Some a \<Longrightarrow> active_mut (ask f) ((w, s), cat) = (Inr (f ((a, s), cat)), ((w, s), cat))"
  by (simp add: active_mut_def active_same)

lemma active_check:
  "rw_active w = Some a \<Longrightarrow> active_mut (seq_eff (ask f) lift_result) ((w, s), cat) = (map_err Fails (f ((a, s), cat)), ((w, s), cat))"
  by (simp add: active_mut_def active_same seq_eff_def)

lemma seq_active_ask:
  "rw_active w = Some a \<Longrightarrow> seq_eff (active_mut (ask f)) k ((w, s), cat) = k (f ((a, s), cat)) ((w, s), cat)"
  by (rule seq_eff_Inr) (rule active_ask)

lemma seq_active_check:
  "rw_active w = Some a \<Longrightarrow> seq_eff (active_mut (seq_eff (ask f) lift_result)) k ((w, s), cat) =
    (case f ((a, s), cat) of Inl e \<Rightarrow> (Inl (Fails e), ((w, s), cat)) | Inr x \<Rightarrow> k x ((w, s), cat))"
  by (simp add: seq_eff_def [of "active_mut m" for m] active_check split: sum.split)

lemma active_mut_None: "rw_active w = None \<Longrightarrow> active_mut m ((w, s), cat) = (Inl (Panics NO_ACTIVE_CHUNK), ((w, s), cat))"
  by (simp add: active_mut_def)

lemma on_store_apply [simp]: "on_store m ((w, s), cat) = (case m (s, cat) of (r, (s', cat')) \<Rightarrow> (map_err Fails r, ((w, s'), cat')))"
  by (simp add: on_store_def)

lemma update_writer_apply [simp]: "update_writer f ((w, s), cat) = (Inr (), ((f w, s), cat))"
  by (simp add: update_writer_def)

section \<open>What appending does to a chunk writer\<close>

text \<open>Without any assumption on the files: the writer stays as it is, or it has advanced by one record.\<close>

definition advanced :: "nat \<Rightarrow> chunk_writer \<Rightarrow> chunk_writer \<Rightarrow> bool" where
  "advanced n w w' \<longleftrightarrow> cw_header w' = cw_header w \<and> cw_path w' = cw_path w \<and> cw_file w' = cw_file w \<and>
     unat (cw_next_offset w') = unat (cw_next_offset w) + n \<and>
     (unat (cw_record_count w') = unat (cw_record_count w) + 1 \<or> cw_record_count w' = cw_record_count w \<and> cw_record_count w = - 1)"

lemma cw_append_shape:
  assumes "cw_append c z r (w, s) = (q, (w', s'))" and "encode_record r = Inr encoded"
  shows "w' = w \<or> advanced (length encoded) w w'"
proof -
  have max: "checked_add k 1 = None \<Longrightarrow> k = - 1" for k :: u64
  proof -
    assume "checked_add k 1 = None"
    then have "\<not> unat k + 1 < u64_limit" by (auto simp: checked_add_def split: if_splits)
    then have "unat k + 1 = u64_limit" using unat_less_u64_limit [of k] by linarith
    then have "unat (k + 1) = 0" by (simp add: unat_word_ariths)
    then show "k = - 1" by (simp add: unat_eq_zero eq_neg_iff_add_eq_0)
  qed
  show ?thesis
    using assms
    by (auto simp: cw_append_def seq_eff_def advanced_def max try_u64_unat checked_add_unat
        split: sum.split_asm prod.split_asm option.split_asm if_split_asm elim!: ok_or.elims
        dest!: checked_add_unat try_u64_unat simp del: checked_add_Some_iff try_u64_Some_iff)
qed

section \<open>The size of chunks\<close>

text \<open>A chunk fits the target once it is sealed, or it holds at most one record.\<close>

definition writer_bounded :: "u64 \<Rightarrow> chunk_writer \<Rightarrow> bool" where
  "writer_bounded target w \<longleftrightarrow> 64 \<le> unat (cw_next_offset w) \<and> (cw_record_count w = 0 \<longrightarrow> cw_next_offset w = 64) \<and>
     (unat (cw_next_offset w) + 64 \<le> unat target \<or> unat (cw_record_count w) \<le> 1)"

definition metadata_bounded :: "u64 \<Rightarrow> chunk_metadata \<Rightarrow> bool" where
  "metadata_bounded target m \<longleftrightarrow> unat (cm_record_count m) \<le> 1 \<or>
     unat (cm_size m) + (if cm_state m = Open then 64 else 0) \<le> unat target"

definition generation_bounded :: "u32 \<Rightarrow> u64 \<Rightarrow> catalog_view \<Rightarrow> bool" where
  "generation_bounded g target v \<longleftrightarrow> (\<forall>k m. v_chunks v (g, k) = Some m \<longrightarrow> metadata_bounded target m)"

definition rotating_wf :: "u32 \<Rightarrow> u64 \<Rightarrow> rotating_chunk_writer \<Rightarrow> bool" where
  "rotating_wf g target w \<longleftrightarrow> rw_generation w = g \<and> rw_target_size w = target \<and>
     (\<forall>a. rw_active w = Some a \<longrightarrow> ch_generation (cw_header a) = g \<and>
       unat (ch_chunk_id (cw_header a)) < unat (rw_next_chunk_id w) \<and> writer_bounded target a)"

definition rotation_inv ::
  "('c \<Rightarrow> bool) \<Rightarrow> ('c \<Rightarrow> catalog_view) \<Rightarrow> u32 \<Rightarrow> u64 \<Rightarrow> (rotating_chunk_writer \<times> fs) \<times> 'c \<Rightarrow> bool" where
  "rotation_inv invar view g target st \<longleftrightarrow> invar (snd st) \<and> 128 \<le> unat target \<and>
     rotating_wf g target (fst (fst st)) \<and> generation_bounded g target (view (snd st))"

lemma advanced_bounded:
  assumes a: "advanced n w w'" and w: "writer_bounded target w" and fits: "unat (cw_next_offset w) + n + 64 \<le> unat target \<or> cw_record_count w = 0"
  shows "writer_bounded target w'"
proof -
  have "unat (cw_record_count w') = unat (cw_record_count w) + 1 \<or> cw_record_count w' = - 1 \<and> cw_record_count w = - 1"
    using a by (auto simp: advanced_def)
  then have "cw_record_count w' \<noteq> 0" "cw_record_count w = 0 \<Longrightarrow> unat (cw_record_count w') = 1" by auto
  then show ?thesis using a w fits by (auto simp: writer_bounded_def advanced_def)
qed

lemma seal_footer_bounded:
  assumes "writer_bounded target w" and "checked_add (cw_next_offset w) 64 = Some n"
  shows "unat n \<le> unat target \<or> unat (cw_record_count w) \<le> 1"
  using assms checked_add_unat [OF assms(2)] by (auto simp: writer_bounded_def)

lemma seal_result_footer:
  assumes "cw_seal_and_publish ops w sc = (Inr sealed, sc')" and "writer_bounded target w"
  shows "unat (sf_final_length (sc_footer sealed)) \<le> unat target \<or> unat (sf_record_count (sc_footer sealed)) \<le> 1"
  using assms(1) seal_footer_bounded [OF assms(2)]
  by (auto simp: cw_seal_and_publish_def Let_def ok_or_Inr_iff simp del: seq_eff_ok_iff elim!: seq_okE split: if_split_asm)

lemma seq_lift_Inl: "seq_eff (lift_result (Inl e)) f = raise e"
  by (simp add: fun_eq_iff)

lemma keeps_files: "keeps (\<lambda>sc. P (snd sc)) (on_fst m)"
  by (auto simp: keeps_def on_fst_def split: prod.splits)

lemma keeps_catalog: "keeps P m \<Longrightarrow> keeps (\<lambda>sc. P (snd sc)) (on_snd m)"
  by (force simp: keeps_def on_snd_def split: prod.splits)

text \<open>A catalog that differs from \<open>v\<close> in the chunks alone, all of them within bounds.\<close>

definition chunks_bounded ::
  "('c \<Rightarrow> bool) \<Rightarrow> ('c \<Rightarrow> catalog_view) \<Rightarrow> u32 \<Rightarrow> u64 \<Rightarrow> catalog_view \<Rightarrow> 'c \<Rightarrow> bool" where
  "chunks_bounded invar view g target v cat \<longleftrightarrow> invar cat \<and> (\<exists>m. view cat = v\<lparr>v_chunks := m\<rparr>) \<and>
     generation_bounded g target (view cat)"

context catalog
begin

lemma keeps_put_chunk:
  assumes "metadata_bounded target m"
  shows "keeps (chunks_bounded invar view g target v) (cat_io (cat_apply ops (put_chunk h k m batch_new)))"
  unfolding keeps_def
proof (intro allI impI)
  fix cat
  assume i: "chunks_bounded invar view g target v cat"
  then have cat: "invar cat" by (simp add: chunks_bounded_def)
  obtain q cat' where run: "cat_apply ops (put_chunk h k m batch_new) cat = (q, cat')" by fastforce
  have "batch_wf (put_chunk h k m batch_new)" by (simp add: batch_wf_def batch_defs)
  note r = apply_result [OF cat this run]
  have "chunks_bounded invar view g target v cat'"
    using i r(1,2) view_apply_chunk(1) [OF r(3)] assms by (cases q) (auto simp: chunks_bounded_def generation_bounded_def)
  then show "chunks_bounded invar view g target v (snd (cat_io (cat_apply ops (put_chunk h k m batch_new)) cat))"
    using run by (simp add: cat_io_def)
qed

lemma keeps_publish_open_bounded:
  assumes "writer_bounded target w"
  shows "keeps (chunks_bounded invar view g target v) (cw_publish_open ops w)"
  unfolding cw_publish_open_def
  by (intro keeps_seq_eff keeps_ask keeps_lift_result keeps_put_chunk) (use assms in \<open>auto simp: metadata_bounded_def writer_bounded_def\<close>)

lemma keeps_publish_sealed_bounded:
  assumes "unat (sf_final_length f) \<le> unat target \<or> unat (sf_record_count f) \<le> 1"
  shows "keeps (chunks_bounded invar view g target v) (publish_sealed_metadata ops h f)"
  unfolding publish_sealed_metadata_def
  by (intro keeps_seq_eff keeps_ask keeps_lift_result keeps_put_chunk) (use assms in \<open>auto simp: metadata_bounded_def\<close>)

lemma keeps_seal_bounded:
  assumes "writer_bounded target w"
  shows "keeps (\<lambda>sc. chunks_bounded invar view g target v (snd sc)) (cw_seal_and_publish ops w)"
proof (cases "checked_add (cw_next_offset w) (word_of_nat SEALED_CHUNK_FOOTER_LEN)")
  case None
  show ?thesis
    unfolding cw_seal_and_publish_def None ok_or.simps seq_lift_Inl
    by (intro keeps_seq_eff keeps_ask keeps_lift_result keeps_if keeps_raise keeps_files)
next
  case (Some n)
  then have f: "unat n \<le> unat target \<or> unat (cw_record_count w) \<le> 1" by (intro seal_footer_bounded [OF assms]) simp
  show ?thesis
    unfolding cw_seal_and_publish_def Some ok_or.simps seq_lift_Inr Let_def
    by (intro keeps_seq_eff keeps_ask keeps_lift_result keeps_if keeps_raise keeps_ret keeps_catalog keeps_publish_sealed_bounded
        keeps_files) (use f in simp)
qed

lemma keeps_other_chunk:
  assumes "key \<noteq> (ch_generation (cw_header w), ch_chunk_id (cw_header w))"
  shows "keeps (\<lambda>cat. invar cat \<and> v_chunks (view cat) key = m) (cw_publish_open ops w)"
proof -
  have "keeps (\<lambda>cat. invar cat \<and> v_chunks (view cat) key = m) (cat_io (cat_apply ops (put_chunk (ch_generation (cw_header w)) (ch_chunk_id (cw_header w)) x batch_new)))" for x
    unfolding keeps_def
  proof (intro allI impI)
    fix cat
    assume i: "invar cat \<and> v_chunks (view cat) key = m"
    let ?b = "put_chunk (ch_generation (cw_header w)) (ch_chunk_id (cw_header w)) x batch_new"
    obtain q cat' where run: "cat_apply ops ?b cat = (q, cat')" by fastforce
    have "batch_wf ?b" by (simp add: batch_wf_def batch_defs)
    note r = apply_result [OF conjunct1 [OF i] this run]
    have "v_chunks (view cat') key = m" using i r(2) view_apply_chunk(1) [OF r(3)] assms by (cases q) auto
    then show "invar (snd (cat_io (cat_apply ops ?b) cat)) \<and> v_chunks (view (snd (cat_io (cat_apply ops ?b) cat))) key = m"
      using r(1) run by (simp add: cat_io_def)
  qed
  then show ?thesis unfolding cw_publish_open_def by (intro keeps_seq_eff keeps_ask keeps_lift_result)
qed

lemma create_and_publish_result:
  assumes cat: "chunks_bounded invar view g target v cat" and t: "128 \<le> unat target"
    and run: "cw_create_and_publish ops p h (s, cat) = (q, (s', cat'))"
  shows "chunks_bounded invar view g target v cat'"
    and "q = Inr w \<Longrightarrow> cw_header w = h \<and> cw_path w = p \<and> cw_next_offset w = 64 \<and> cw_record_count w = 0"
    and "key \<noteq> (ch_generation h, ch_chunk_id h) \<Longrightarrow> v_chunks (view cat') key = v_chunks (view cat) key"
proof -
  obtain q1 s1 where one: "cw_create p h s = (q1, s1)" by fastforce
  have new: "cw_header w = h \<and> cw_path w = p \<and> cw_next_offset w = 64 \<and> cw_record_count w = 0" if "q1 = Inr w" for w
    using one that by (auto simp: cw_create_def io_def simp del: seq_eff_ok_iff elim!: seq_okE split: if_split_asm prod.split_asm)
  have "chunks_bounded invar view g target v cat' \<and>
    (\<forall>w. q = Inr w \<longrightarrow> cw_header w = h \<and> cw_path w = p \<and> cw_next_offset w = 64 \<and> cw_record_count w = 0) \<and>
    (\<forall>key. key \<noteq> (ch_generation h, ch_chunk_id h) \<longrightarrow> v_chunks (view cat') key = v_chunks (view cat) key)"
  proof (cases q1)
    case (Inl e)
    then show ?thesis using run one cat by (auto simp: cw_create_and_publish_def seq_eff_def)
  next
    case (Inr w)
    obtain q2 where two: "cw_publish_open ops w cat = (q2, cat')" and q: "\<And>x. q = Inr x \<Longrightarrow> x = w"
      using run one Inr by (auto simp: cw_create_and_publish_def seq_eff_def split: prod.split_asm sum.split_asm)
    have "writer_bounded target w" using new [OF Inr] t by (simp add: writer_bounded_def)
    from keepsD [OF keeps_publish_open_bounded [OF this] cat two] have "chunks_bounded invar view g target v cat'" .
    moreover have "v_chunks (view cat') key = v_chunks (view cat) key" if "key \<noteq> (ch_generation h, ch_chunk_id h)" for key
      using keepsD [OF keeps_other_chunk [of key w "v_chunks (view cat) key"] _ two] that new [OF Inr] cat by (simp add: chunks_bounded_def)
    ultimately show ?thesis using new [OF Inr] q by blast
  qed
  then show "chunks_bounded invar view g target v cat'"
    and "q = Inr w \<Longrightarrow> cw_header w = h \<and> cw_path w = p \<and> cw_next_offset w = 64 \<and> cw_record_count w = 0"
    and "key \<noteq> (ch_generation h, ch_chunk_id h) \<Longrightarrow> v_chunks (view cat') key = v_chunks (view cat) key" by blast+
qed

lemma seal_publishes:
  assumes cat: "invar cat" and run: "cw_seal_and_publish ops w (s, cat) = (Inr sealed, (s', cat'))"
  shows "v_chunks (view cat') (ch_generation (cw_header w), ch_chunk_id (cw_header w)) =
    Some \<lparr>cm_state = Sealed, cm_size = sf_final_length (sc_footer sealed), cm_record_count = cw_record_count w\<rparr>"
proof -
  let ?h = "cw_header w"
  have ap: "cat_apply ops (put_chunk (ch_generation ?h) (ch_chunk_id ?h)
      \<lparr>cm_state = Sealed, cm_size = sf_final_length (sc_footer sealed), cm_record_count = cw_record_count w\<rparr> batch_new) cat = (Inr (), cat')"
    using run
    by (auto simp: cw_seal_and_publish_def publish_sealed_metadata_def Let_def cat_io_def map_err_Inr_iff simp del: seq_eff_ok_iff elim!: seq_okE
        split: prod.split_asm if_split_asm)
  have "batch_wf (put_chunk g k m batch_new)" for g k m by (simp add: batch_wf_def batch_defs)
  from view_apply_chunk(1) [OF apply_result(3) [OF cat this ap refl]] show ?thesis by simp
qed

lemma seal_current_result:
  assumes inv: "rotation_inv invar view g target ((w, s), cat)" and run: "rw_seal_current ops ((w, s), cat) = (q, ((w', s'), cat'))"
  shows "rotation_inv invar view g target ((w', s'), cat')" and "w' = w\<lparr>rw_active := None\<rparr>"
    and "chunks_bounded invar view g target (view cat) cat'"
    and "q = Inl (Panics m) \<Longrightarrow> rw_active w = None"
    and "q = Inr sealed \<Longrightarrow> unat (sf_final_length (sc_footer sealed)) \<le> unat target \<or> unat (sf_record_count (sc_footer sealed)) \<le> 1"
    and "q = Inr sealed \<Longrightarrow> rw_active w = Some a \<Longrightarrow> v_chunks (view cat') (g, ch_chunk_id (cw_header a)) =
      Some \<lparr>cm_state = Sealed, cm_size = sf_final_length (sc_footer sealed), cm_record_count = cw_record_count a\<rparr>"
proof -
  have cat: "chunks_bounded invar view g target (view cat) cat" and t: "128 \<le> unat target" and w: "rotating_wf g target w"
    using inv by (auto simp: rotation_inv_def chunks_bounded_def intro: exI [of _ "v_chunks (view cat)"])
  have "w' = w\<lparr>rw_active := None\<rparr> \<and> chunks_bounded invar view g target (view cat) cat' \<and> (\<forall>m. q = Inl (Panics m) \<longrightarrow> rw_active w = None) \<and>
    (\<forall>sealed. q = Inr sealed \<longrightarrow> unat (sf_final_length (sc_footer sealed)) \<le> unat target \<or> unat (sf_record_count (sc_footer sealed)) \<le> 1)"
  proof (cases "rw_active w")
    case None
    then show ?thesis using run cat by (auto simp: rw_seal_current_def)
  next
    case (Some a)
    obtain q1 where one: "cw_seal_and_publish ops a (s, cat) = (q1, (s', cat'))" "w' = w\<lparr>rw_active := None\<rparr>" "q = map_err Fails q1"
      using run Some by (auto simp: rw_seal_current_def split: prod.split_asm)
    have a: "writer_bounded target a" using w Some by (simp add: rotating_wf_def)
    have "chunks_bounded invar view g target (view cat) cat'" using keepsD [OF keeps_seal_bounded [OF a] _ one(1)] cat by simp
    moreover have "unat (sf_final_length (sc_footer sealed)) \<le> unat target \<or> unat (sf_record_count (sc_footer sealed)) \<le> 1"
      if "q1 = Inr sealed" for sealed using seal_result_footer [OF _ a] one(1) that by blast
    ultimately show ?thesis using one(2,3) by (cases q1) auto
  qed
  then show "w' = w\<lparr>rw_active := None\<rparr>" and c: "chunks_bounded invar view g target (view cat) cat'"
    and "q = Inl (Panics m) \<Longrightarrow> rw_active w = None"
    and "q = Inr sealed \<Longrightarrow> unat (sf_final_length (sc_footer sealed)) \<le> unat target \<or> unat (sf_record_count (sc_footer sealed)) \<le> 1"
    by blast+
  then show "rotation_inv invar view g target ((w', s'), cat')"
    using w t by (auto simp: rotation_inv_def rotating_wf_def chunks_bounded_def)
  assume "q = Inr sealed" and a: "rw_active w = Some a"
  then have "cw_seal_and_publish ops a (s, cat) = (Inr sealed, (s', cat'))"
    using run by (auto simp: rw_seal_current_def map_err_Inr_iff split: prod.split_asm)
  from seal_publishes [OF _ this] show "v_chunks (view cat') (g, ch_chunk_id (cw_header a)) =
      Some \<lparr>cm_state = Sealed, cm_size = sf_final_length (sc_footer sealed), cm_record_count = cw_record_count a\<rparr>"
    using w a inv by (simp add: rotating_wf_def rotation_inv_def)
qed

lemma create_next_result:
  assumes inv: "rotation_inv invar view g target ((w, s), cat)" and run: "rw_create_next ops ((w, s), cat) = (q, ((w', s'), cat'))"
  shows "rotation_inv invar view g target ((w', s'), cat')" and "chunks_bounded invar view g target (view cat) cat'"
    and "q \<noteq> Inl (Panics m)"
    and "q = Inr u \<Longrightarrow> \<exists>a. rw_active w' = Some a \<and> cw_record_count a = 0 \<and> cw_next_offset a = 64 \<and>
      cw_header a = \<lparr>ch_generation = g, ch_chunk_id = rw_next_chunk_id w, ch_created_unix_secs = rw_created_unix_secs w, ch_flags = 0\<rparr> \<and>
      unat (rw_next_chunk_id w') = unat (rw_next_chunk_id w) + 1"
    and "unat k < unat (rw_next_chunk_id w) \<Longrightarrow> v_chunks (view cat') (g, k) = v_chunks (view cat) (g, k)"
proof -
  have cat: "chunks_bounded invar view g target (view cat) cat" and t: "128 \<le> unat target" and w: "rotating_wf g target w"
    using inv by (auto simp: rotation_inv_def chunks_bounded_def intro: exI [of _ "v_chunks (view cat)"])
  have g: "rw_generation w = g" using w by (simp add: rotating_wf_def)
  let ?h = "\<lparr>ch_generation = g, ch_chunk_id = rw_next_chunk_id w, ch_created_unix_secs = rw_created_unix_secs w, ch_flags = 0\<rparr>"
  have "chunks_bounded invar view g target (view cat) cat' \<and> rotating_wf g target w' \<and> (\<forall>m. q \<noteq> Inl (Panics m)) \<and>
    (\<forall>u. q = Inr u \<longrightarrow> (\<exists>a. rw_active w' = Some a \<and> cw_record_count a = 0 \<and> cw_next_offset a = 64 \<and> cw_header a = ?h \<and>
      unat (rw_next_chunk_id w') = unat (rw_next_chunk_id w) + 1)) \<and>
    (\<forall>k. unat k < unat (rw_next_chunk_id w) \<longrightarrow> v_chunks (view cat') (g, k) = v_chunks (view cat) (g, k))"
  proof (cases "checked_add (rw_next_chunk_id w) 1")
    case None
    then show ?thesis using run cat w by (auto simp: rw_create_next_def Let_def)
  next
    case (Some k)
    obtain q1 where one: "cw_create_and_publish ops (path_join (rw_directory w) (open_chunk_name (rw_next_chunk_id w))) ?h (s, cat) = (q1, (s', cat'))"
        and q: "q = and_then (map_err Fails q1) (\<lambda>_. Inr ())"
        and w': "w' = (case q1 of Inl _ \<Rightarrow> w\<lparr>rw_next_chunk_id := k\<rparr> | Inr a \<Rightarrow> w\<lparr>rw_next_chunk_id := k, rw_active := Some a\<rparr>)"
      using run Some
      by (auto simp: rw_create_next_def Let_def seq_eff_def g map_err_Inl_iff map_err_Inr_iff split: prod.split_asm sum.split_asm)
    note C = create_and_publish_result [OF cat t one]
    have other: "unat j < unat (rw_next_chunk_id w) \<Longrightarrow> v_chunks (view cat') (g, j) = v_chunks (view cat) (g, j)" for j
      using C(3) [of "(g, j)"] by auto
    show ?thesis
    proof (cases q1)
      case (Inl e)
      then show ?thesis using C(1) w' q w other checked_add_unat [OF Some] by (auto simp: rotating_wf_def)
    next
      case (Inr a)
      then show ?thesis using C(1) C(2) [OF Inr] w' q w t other checked_add_unat [OF Some] by (auto simp: rotating_wf_def writer_bounded_def)
    qed
  qed
  then show c: "chunks_bounded invar view g target (view cat) cat'" and "q \<noteq> Inl (Panics m)"
    and "q = Inr u \<Longrightarrow> \<exists>a. rw_active w' = Some a \<and> cw_record_count a = 0 \<and> cw_next_offset a = 64 \<and> cw_header a = ?h \<and>
      unat (rw_next_chunk_id w') = unat (rw_next_chunk_id w) + 1" and "rotation_inv invar view g target ((w', s'), cat')"
    and "unat k < unat (rw_next_chunk_id w) \<Longrightarrow> v_chunks (view cat') (g, k) = v_chunks (view cat) (g, k)"
    using t by (auto simp: rotation_inv_def chunks_bounded_def)
qed

lemma append_bounded_result:
  assumes inv: "rotation_inv invar view g target ((w, s), cat)" and a: "rw_active w = Some a"
    and r: "object_record_wf r" "length (obj_payload r) < u64_limit" and repo: "repo_id_wf repo"
    and room: "cat_object_location ops cat (obj_content_id r) = None \<Longrightarrow>
      unat (cw_next_offset a) + length (record_bytes r) + 64 \<le> unat target \<or> cw_record_count a = 0"
    and run: "active_mut (cw_append_and_index c z ops repo g k r) ((w, s), cat) = (q, ((w', s'), cat'))"
  shows "rotation_inv invar view g target ((w', s'), cat') \<and> q \<noteq> Inl (Panics m) \<and>
    (q = Inr None \<longrightarrow> cat_object_location ops cat (obj_content_id r) \<noteq> None) \<and>
    (\<exists>a'. w' = w\<lparr>rw_active := Some a'\<rparr> \<and> cw_header a' = cw_header a \<and>
      (\<forall>l. q = Inr (Some l) \<longrightarrow> cat_object_location ops cat (obj_content_id r) = None \<and>
        k = ch_chunk_id (cw_header a) \<and> unat (cw_record_count a') = unat (cw_record_count a) + 1 \<and>
        v_chunks (view cat') (g, k) = Some \<lparr>cm_state = Open, cm_size = cw_next_offset a', cm_record_count = cw_record_count a'\<rparr>))"
proof -
  obtain q1 a1 where one: "cw_append_and_index c z ops repo g k r ((a, s), cat) = (q1, ((a1, s'), cat'))"
      and w': "w' = w\<lparr>rw_active := Some a1\<rparr>" and q: "q = map_err Fails q1"
    using run a by (auto simp: active_mut_def split: prod.split_asm)
  have base: "invar cat" "128 \<le> unat target" "rotating_wf g target w" "generation_bounded g target (view cat)"
      "writer_bounded target a" "ch_generation (cw_header a) = g"
    using inv a by (auto simp: rotation_inv_def rotating_wf_def)
  have step: "writer_bounded target a2 \<and> cw_header a2 = cw_header a"
    if "cw_append c z r (a, s) = (q2, (a2, s2))" "cat_object_location ops cat (obj_content_id r) = None" for q2 a2 s2
  proof (cases "encode_record r")
    case (Inl e)
    then have "a2 = a" using that(1) by (auto simp: cw_append_def seq_eff_def split: sum.split_asm)
    then show ?thesis using base(5) by simp
  next
    case (Inr encoded)
    then have "encoded = record_bytes r" using encode_record_eq [OF r(1)] by (auto split: if_splits)
    then have "a2 = a \<or> advanced (length (record_bytes r)) a a2" using cw_append_shape [OF that(1) Inr] by simp
    then show ?thesis using base(5) advanced_bounded [OF _ base(5) room [OF that(2)]] by (auto simp: advanced_def)
  qed
  have inv': "rotation_inv invar view g target ((w', s'), cat')"
    if "writer_bounded target a1 \<and> cw_header a1 = cw_header a" "invar cat'" "generation_bounded g target (view cat')"
    using that base(2,3) a by (auto simp: rotation_inv_def rotating_wf_def w')
  from one r(2) show ?thesis
  proof (cases rule: append_and_index_cases)
    case (refused e)
    then show ?thesis using inv' base w' q by auto
  next
    case (aliased q2)
    have "batch_wf (put_oid_alias repo (obj_primary_oid r) (obj_content_id r) batch_new)"
      using r(1) repo by (simp add: batch_wf_def batch_defs object_record_wf_def)
    note ap = apply_result [OF base(1) this aliased(4)]
    have "v_chunks (view cat') = v_chunks (view cat)" using ap(2) view_apply_alias(3) [OF ap(3)] by (cases q2) auto
    then have "rotation_inv invar view g target ((w', s'), cat')"
      using inv' aliased(2) base(4,5) ap(1) by (simp add: generation_bounded_def)
    then show ?thesis using aliased(1,2,5) w' q by (cases q2) auto
  next
    case (append_failed e)
    then show ?thesis using inv' step [OF append_failed(1,4)] base(1,4) w' q by auto
  next
    case (sync_failed e l s1)
    then show ?thesis using inv' step [OF sync_failed(1,5)] base(1,4) w' q by auto
  next
    case (appended l s1 q2)
    let ?m = "\<lparr>cm_state = Open, cm_size = cw_next_offset a1, cm_record_count = cw_record_count a1\<rparr>"
    have "batch_wf (put_chunk g k ?m (put_oid_alias repo (obj_primary_oid r) (obj_content_id r)
         (put_object_location (obj_content_id r) (location_of g k l (word_of_nat (length (obj_payload r))) r) batch_new)))"
      using r(1) repo by (simp add: batch_wf_def batch_defs object_record_wf_def)
    note ap = apply_result [OF base(1) this appended(6)]
    note st = step [OF appended(4,1)]
    have "metadata_bounded target ?m" using st by (auto simp: metadata_bounded_def writer_bounded_def)
    then have "generation_bounded g target (view cat')"
      using ap(2) view_apply_index(3) [OF ap(3)] base(4) by (cases q2) (auto simp: generation_bounded_def)
    then have "rotation_inv invar view g target ((w', s'), cat')" using inv' st ap(1) by blast
    moreover have "unat (cw_record_count a1) = unat (cw_record_count a) + 1"
      using appended(4)
      by (auto simp: cw_append_def ok_or_Inr_iff simp del: seq_eff_ok_iff checked_add_Some_iff elim!: seq_okE dest!: checked_add_unat
          split: prod.split_asm)
    moreover have "v_chunks (view cat') (g, k) = Some ?m" if "q2 = Inr ()"
      using view_apply_index(3) [OF ap(3) [OF that]] by simp
    ultimately show ?thesis using st appended(1,3,7) w' q by (cases q2) auto
  qed
qed

lemma rotate_result:
  assumes inv: "rotation_inv invar view g target ((w, s), cat)" and a: "rw_active w = Some a"
    and run: "seq_eff (rw_seal_current ops) (\<lambda>_. rw_create_next ops) ((w, s), cat) = (q, ((w', s'), cat'))"
  shows "rotation_inv invar view g target ((w', s'), cat')" and "q \<noteq> Inl (Panics m)"
    and "v_objects (view cat') = v_objects (view cat) \<and> v_rebuilding (view cat') = v_rebuilding (view cat) \<and> invar cat'"
    and "q = Inr u \<Longrightarrow> \<exists>a' size. rw_active w' = Some a' \<and> cw_record_count a' = 0 \<and> cw_next_offset a' = 64 \<and> ch_generation (cw_header a') = g \<and>
      v_chunks (view cat') (g, ch_chunk_id (cw_header a)) = Some \<lparr>cm_state = Sealed, cm_size = size, cm_record_count = cw_record_count a\<rparr>"
proof -
  obtain q1 w1 s1 cat1 where one: "rw_seal_current ops ((w, s), cat) = (q1, ((w1, s1), cat1))" by (metis prod.exhaust)
  note S = seal_current_result [OF inv one]
  have same: "v_objects (view cat2) = v_objects (view cat0) \<and> v_rebuilding (view cat2) = v_rebuilding (view cat0) \<and> invar cat2"
    if "chunks_bounded invar view g target (view cat0) cat2" for cat0 cat2 using that by (auto simp: chunks_bounded_def)
  have id: "unat (ch_chunk_id (cw_header a)) < unat (rw_next_chunk_id w1)"
    using inv a S(2) by (auto simp: rotation_inv_def rotating_wf_def)
  have "rotation_inv invar view g target ((w', s'), cat') \<and> (\<forall>m. q \<noteq> Inl (Panics m)) \<and>
    (v_objects (view cat') = v_objects (view cat) \<and> v_rebuilding (view cat') = v_rebuilding (view cat) \<and> invar cat') \<and>
    (\<forall>u. q = Inr u \<longrightarrow> (\<exists>a' size. rw_active w' = Some a' \<and> cw_record_count a' = 0 \<and> cw_next_offset a' = 64 \<and> ch_generation (cw_header a') = g \<and>
      v_chunks (view cat') (g, ch_chunk_id (cw_header a)) = Some \<lparr>cm_state = Sealed, cm_size = size, cm_record_count = cw_record_count a\<rparr>))"
  proof (cases q1)
    case (Inl e)
    then have "q = Inl e" "w' = w1" "s' = s1" "cat' = cat1" using run one by simp_all
    then show ?thesis using S(1,4) same [OF S(3)] a Inl by auto
  next
    case (Inr sealed)
    then have two: "rw_create_next ops ((w1, s1), cat1) = (q, ((w', s'), cat'))" using run one by simp
    note C = create_next_result [OF S(1) two]
    have "\<exists>a' size. rw_active w' = Some a' \<and> cw_record_count a' = 0 \<and> cw_next_offset a' = 64 \<and> ch_generation (cw_header a') = g \<and>
      v_chunks (view cat') (g, ch_chunk_id (cw_header a)) = Some \<lparr>cm_state = Sealed, cm_size = size, cm_record_count = cw_record_count a\<rparr>"
      if "q = Inr u" for u
      using C(4) [OF that] C(5) [OF id] S(6) [OF Inr a] by fastforce
    then show ?thesis using C(1,3) same [OF S(3)] same [OF C(2)] by auto
  qed
  then show "rotation_inv invar view g target ((w', s'), cat')" and "q \<noteq> Inl (Panics m)"
    and "v_objects (view cat') = v_objects (view cat) \<and> v_rebuilding (view cat') = v_rebuilding (view cat) \<and> invar cat'"
    and "q = Inr u \<Longrightarrow> \<exists>a' size. rw_active w' = Some a' \<and> cw_record_count a' = 0 \<and> cw_next_offset a' = 64 \<and> ch_generation (cw_header a') = g \<and>
      v_chunks (view cat') (g, ch_chunk_id (cw_header a)) = Some \<lparr>cm_state = Sealed, cm_size = size, cm_record_count = cw_record_count a\<rparr>"
    by blast+
qed

lemma rotate_if_result:
  assumes inv: "rotation_inv invar view g target ((w, s), cat)" and a: "rw_active w = Some a"
    and due: "would_exceed_target target n a = Inr due"
    and run: "rotate_if ops due ((w, s), cat) = (q, ((w', s'), cat'))"
  shows "rotation_inv invar view g target ((w', s'), cat')" and "q \<noteq> Inl (Panics m)"
    and "content_id_wf cid \<Longrightarrow> cat_object_location ops cat' cid = cat_object_location ops cat cid"
    and "q = Inr u \<Longrightarrow> \<exists>a'. rw_active w' = Some a' \<and> (unat (cw_next_offset a') + unat n + 64 \<le> unat target \<or> cw_record_count a' = 0)"
proof -
  have cat: "invar cat" using inv by (simp add: rotation_inv_def)
  have "rotation_inv invar view g target ((w', s'), cat') \<and> (\<forall>m. q \<noteq> Inl (Panics m)) \<and>
    (\<forall>cid. content_id_wf cid \<longrightarrow> cat_object_location ops cat' cid = cat_object_location ops cat cid) \<and>
    (\<forall>u. q = Inr u \<longrightarrow> (\<exists>a'. rw_active w' = Some a' \<and> (unat (cw_next_offset a') + unat n + 64 \<le> unat target \<or> cw_record_count a' = 0)))"
  proof (cases due)
    case True
    then have "seq_eff (rw_seal_current ops) (\<lambda>_. rw_create_next ops) ((w, s), cat) = (q, ((w', s'), cat'))"
      using run by (simp add: rotate_if_def)
    note R = rotate_result [OF inv a this]
    have "cat_object_location ops cat' cid = cat_object_location ops cat cid" if "content_id_wf cid" for cid
      using R(3) by (simp add: object_location [OF cat that] object_location [OF _ that])
    then show ?thesis using R(1,2,4) by blast
  next
    case False
    then have st: "q = Inr ()" "w' = w" "s' = s" "cat' = cat" using run by (simp_all add: rotate_if_def)
    have "unat (cw_next_offset a) + unat n + 64 \<le> unat target \<or> cw_record_count a = 0"
      using due False
      by (auto simp: would_exceed_target_def ok_or_Inr_iff and_then_Inr_iff word_less_nat_alt dest!: checked_add_unat
          simp del: checked_add_Some_iff split: option.split_asm)
    then show ?thesis using st inv a by auto
  qed
  then show "rotation_inv invar view g target ((w', s'), cat')" and "q \<noteq> Inl (Panics m)"
    and "content_id_wf cid \<Longrightarrow> cat_object_location ops cat' cid = cat_object_location ops cat cid"
    and "q = Inr u \<Longrightarrow> \<exists>a'. rw_active w' = Some a' \<and> (unat (cw_next_offset a') + unat n + 64 \<le> unat target \<or> cw_record_count a' = 0)"
    by blast+
qed

lemma rw_append_result:
  assumes inv: "rotation_inv invar view g target ((w, s), cat)" and a: "rw_active w \<noteq> None"
    and r: "object_record_wf r" "length (obj_payload r) < u64_limit" and repo: "repo_id_wf repo"
    and run: "rw_append_and_index c z ops repo r ((w, s), cat) = (q, ((w', s'), cat'))"
  shows "rotation_inv invar view g target ((w', s'), cat') \<and> (\<forall>m. q \<noteq> Inl (Panics m)) \<and>
    (\<forall>x. q = Inr x \<longrightarrow> rw_active w' \<noteq> None) \<and>
    (\<forall>l. q = Inr (Some l) \<longrightarrow> (rot_dedicated_oversized l \<longleftrightarrow> unat target < 128 + length (record_bytes r)) \<and>
      (rot_dedicated_oversized l \<longrightarrow> (\<exists>size. v_chunks (view cat') (g, rot_chunk_id l) =
        Some \<lparr>cm_state = Sealed, cm_size = size, cm_record_count = 1\<rparr>)))"
proof -
  obtain a0 where a0: "rw_active w = Some a0" using a by blast
  have g: "rw_generation w = g" "rw_target_size w = target" using inv by (simp_all add: rotation_inv_def rotating_wf_def)
  have cid: "content_id_wf (obj_content_id r)" using r(1) by (simp add: object_record_wf_def)
  show ?thesis
  proof (cases "cat_object_location ops cat (obj_content_id r)")
    case (Some loc)
    let ?k = "ch_chunk_id (cw_header a0)"
    obtain q1 w1 s1 cat1 where one: "active_mut (cw_append_and_index c z ops repo g ?k r) ((w, s), cat) = (q1, ((w1, s1), cat1))"
      by (metis prod.exhaust)
    note A = append_bounded_result [OF inv a0 r repo _ one]
    have "(q, ((w', s'), cat')) = (and_then q1 (\<lambda>location. Inr (map_option (\<lambda>l. \<lparr>rot_generation = g, rot_chunk_id = ?k, rot_location = l,
        rot_dedicated_oversized = False\<rparr>) location)), ((w1, s1), cat1))"
      using run Some one g
      by (cases q1) (simp_all add: rw_append_and_index_def seq_eff_def active_ask [OF a0])
    then show ?thesis using A Some by (cases q1) auto
  next
    case None
    show ?thesis
    proof (cases "encode_record r")
      case (Inl e)
      then have "q = Inl (Fails (Format e))" "w' = w" "s' = s" "cat' = cat"
        using run None by (auto simp: rw_append_and_index_def)
      then show ?thesis using inv by simp
    next
      case (Inr encoded)
      then have enc: "encoded = record_bytes r" "length (record_bytes r) < u64_limit"
        using encode_record_eq [OF r(1)] padded_length_bounds [of "length (obj_payload r)"] r(1) by (auto split: if_splits)
      let ?n = "word_of_nat (length (record_bytes r)) :: u64"
      have n: "unat ?n = length (record_bytes r)" using enc(2) by (rule unat_u64_of_nat)
      let ?min = "minimum_record_chunk ?n"
      show ?thesis
      proof (cases ?min)
        case e: None
        then have "q = Inl (Fails OffsetOverflow)" "w' = w" "s' = s" "cat' = cat"
          using run None Inr enc by (auto simp: rw_append_and_index_def try_u64_def)
        then show ?thesis using inv by simp
      next
        case (Some minimum)
        have m: "unat minimum = 128 + length (record_bytes r)"
          using Some n by (auto simp: minimum_record_chunk_def split: option.split_asm dest!: checked_add_unat simp del: checked_add_Some_iff)
        let ?over = "target < minimum"
        have over: "?over \<longleftrightarrow> unat target < 128 + length (record_bytes r)" by (simp add: word_less_nat_alt m)
        note unfold = rw_append_and_index_def Let_def try_u64_def seq_active_check [OF a0]
        show ?thesis
        proof (cases "would_exceed_target target ?n a0")
          case e: (Inl e)
          have "q = Inl (Fails e)" "w' = w" "s' = s" "cat' = cat"
            using run None Inr enc Some g e by (auto simp: unfold)
          then show ?thesis using inv by simp
        next
          case due: (Inr due)
          obtain q1 w1 s1 cat1 where one: "rotate_if ops due ((w, s), cat) = (q1, ((w1, s1), cat1))" by (metis prod.exhaust)
          note R = rotate_if_result [OF inv a0 due one]
          show ?thesis
          proof (cases q1)
            case e: (Inl e)
            have "q = Inl e" "w' = w1" "s' = s1" "cat' = cat1"
              using run None Inr enc Some g due one [unfolded e] by (auto simp: unfold)
            then show ?thesis using R(1,2) e by auto
          next
            case u: (Inr u)
            obtain a1 where a1: "rw_active w1 = Some a1"
                "unat (cw_next_offset a1) + length (record_bytes r) + 64 \<le> unat target \<or> cw_record_count a1 = 0"
              using R(4) [OF u] n by auto
            let ?k = "ch_chunk_id (cw_header a1)"
            obtain q2 w2 s2 cat2 where two: "active_mut (cw_append_and_index c z ops repo g ?k r) ((w1, s1), cat1) = (q2, ((w2, s2), cat2))"
              by (metis prod.exhaust)
            note A = append_bounded_result [OF R(1) a1(1) r repo a1(2) two]
            have none: "cat_object_location ops cat1 (obj_content_id r) = None" using R(3) [OF cid] None by simp
            have run2: "seq_eff (active_mut (cw_append_and_index c z ops repo g ?k r)) (\<lambda>appended.
                seq_eff (lift_result (ok_or appended (Panics ''record was checked absent from the catalog before append''))) (\<lambda>location.
                seq_eff (rotate_if ops ?over) (\<lambda>_. ret (Some \<lparr>rot_generation = g, rot_chunk_id = ?k, rot_location = location,
                  rot_dedicated_oversized = ?over\<rparr>)))) ((w1, s1), cat1) = (q, ((w', s'), cat'))"
              using run None Inr enc Some g due one [unfolded u] by (simp add: unfold seq_active_ask [OF a1(1)])
            have fin: "rotation_inv invar view g target ((w2, s2), cat2)" "q2 \<noteq> Inl (Panics m)" "q2 \<noteq> Inr None" for m
              using A none by blast+
            show ?thesis
            proof (cases q2)
              case e: (Inl e)
              then have "q = Inl e" "w' = w2" "s' = s2" "cat' = cat2" using run2 two by simp_all
              then show ?thesis using fin e by auto
            next
              case ap: (Inr appended)
              then obtain l where l: "appended = Some l" using fin(3) by (cases appended) auto
              obtain a2 where a2: "rw_active w2 = Some a2" "cw_header a2 = cw_header a1" "unat (cw_record_count a2) = unat (cw_record_count a1) + 1"
                using A ap l by auto
              have run3: "seq_eff (rotate_if ops ?over) (\<lambda>_. ret (Some \<lparr>rot_generation = g, rot_chunk_id = ?k, rot_location = l,
                  rot_dedicated_oversized = ?over\<rparr>)) ((w2, s2), cat2) = (q, ((w', s'), cat'))"
                using run2 two ap l by simp
              show ?thesis
              proof (cases ?over)
                case False
                then have "q = Inr (Some \<lparr>rot_generation = g, rot_chunk_id = ?k, rot_location = l, rot_dedicated_oversized = False\<rparr>)"
                    "w' = w2" "s' = s2" "cat' = cat2"
                  using run3 by (simp_all add: rotate_if_def)
                then show ?thesis using fin(1) a2(1) over False by simp
              next
                case True
                obtain q3 w3 s3 cat3 where three: "seq_eff (rw_seal_current ops) (\<lambda>_. rw_create_next ops) ((w2, s2), cat2) = (q3, ((w3, s3), cat3))"
                  by (metis prod.exhaust)
                note T = rotate_result [OF fin(1) a2(1) three]
                have "writer_bounded target a1" using R(1) a1(1) by (simp add: rotation_inv_def rotating_wf_def)
                then have "cw_record_count a1 = 0" using a1(2) True over by (auto simp: writer_bounded_def)
                then have "cw_record_count a2 = 1" using a2(3) by (simp add: word_unat_eq_iff)
                then show ?thesis
                  using run3 three T(1,2,4) True over a2(2) by (cases q3) (auto simp: rotate_if_def)
              qed
            qed
          qed
        qed
      qed
    qed
  qed
qed

lemma rw_create_result:
  assumes cat: "invar cat" "generation_bounded g target (view cat)"
    and run: "rw_create ops dir g first target created (s, cat) = (Inr w, (s', cat'))"
  shows "rotation_inv invar view g target ((w, s'), cat') \<and> rw_active w \<noteq> None"
proof -
  let ?w = "\<lparr>rw_directory = dir, rw_generation = g, rw_target_size = target, rw_created_unix_secs = created,
      rw_next_chunk_id = first, rw_active = None\<rparr>"
  have "checked_add (word_of_nat CHUNK_HEADER_LEN) (word_of_nat SEALED_CHUNK_FOOTER_LEN) = Some 128" by (simp add: checked_add_def)
  then obtain s1 where t: "\<not> target < 128" and two: "rw_create_next ops ((?w, s1), cat) = (Inr (), ((w, s'), cat'))"
    using run
    by (auto simp: rw_create_def fails_def and_then_Inr_iff simp del: seq_eff_ok_iff elim!: seq_okE split: if_split_asm prod.split_asm)
  have "rotation_inv invar view g target ((?w, s1), cat)"
    using cat t by (simp add: rotation_inv_def rotating_wf_def word_less_nat_alt)
  from create_next_result(1,4) [OF this two] show ?thesis by auto
qed

end

section \<open>Every use of a rotating writer\<close>

text \<open>The calls a client can make, with any outcome; a writer whose rotation failed is not used again.\<close>

inductive rotating_step ::
  "'h crypto \<Rightarrow> zstd \<Rightarrow> 'c catalog_ops \<Rightarrow> (rotating_chunk_writer \<times> fs) \<times> 'c \<Rightarrow> (rotating_chunk_writer \<times> fs) \<times> 'c \<Rightarrow> bool"
  for c :: "'h crypto" and z :: zstd and ops :: "'c catalog_ops" where
  rotating_faults: "rotating_step c z ops ((w, s), cat) ((w, s\<lparr>fs_faults := fl\<rparr>), cat)"
| rotating_append: "rw_active w \<noteq> None \<Longrightarrow> object_record_wf r \<Longrightarrow> length (obj_payload r) < u64_limit \<Longrightarrow> repo_id_wf repo \<Longrightarrow>
    rw_append_and_index c z ops repo r ((w, s), cat) = (q, st) \<Longrightarrow> rotating_step c z ops ((w, s), cat) st"
| rotating_finish: "rw_active w \<noteq> None \<Longrightarrow> rw_finish ops ((w, s), cat) = (q, st) \<Longrightarrow> rotating_step c z ops ((w, s), cat) st"

context catalog
begin

lemma rotating_step_inv:
  assumes "rotating_step c z ops st st'" and "rotation_inv invar view g target st"
  shows "rotation_inv invar view g target st'"
  using assms(1)
proof (cases rule: rotating_step.cases)
  case (rotating_append w r repo s cat q)
  obtain w' s' cat' where st': "st' = ((w', s'), cat')" by (metis prod.exhaust)
  show ?thesis using rw_append_result [of g target w s cat r repo c z q w' s' cat'] rotating_append assms(2) st' by simp
next
  case (rotating_finish w s cat q)
  obtain w' s' cat' where st': "st' = ((w', s'), cat')" by (metis prod.exhaust)
  show ?thesis using seal_current_result(1) [of g target w s cat q w' s' cat'] rotating_finish assms(2) st' by (simp add: rw_finish_def)
qed (use assms(2) in \<open>simp add: rotation_inv_def\<close>)

lemma rotating_steps_inv:
  "(rotating_step c z ops)\<^sup>*\<^sup>* st st' \<Longrightarrow> rotation_inv invar view g target st \<Longrightarrow> rotation_inv invar view g target st'"
  by (induction rule: rtranclp_induct) (auto intro: rotating_step_inv)

end

section \<open>The gate\<close>

text \<open>
  Threads and one checkpoint at a time share the gate.  A thread inside holds a permit and changes the
  tier as it pleases; nobody else changes it.
\<close>

record 't gate_state =
  gs_gate :: writer_gate
  gs_inside :: "nat set"
  gs_checkpoint :: bool
  gs_tier :: 't

inductive gate_step :: "'t gate_state \<Rightarrow> 't gate_state \<Rightarrow> bool" where
  enter: "i \<notin> gs_inside s \<Longrightarrow> acquire_writer (gs_gate s) = Some (Inr g) \<Longrightarrow>
    gate_step s (s\<lparr>gs_gate := g, gs_inside := insert i (gs_inside s)\<rparr>)"
| work: "i \<in> gs_inside s \<Longrightarrow> gate_step s (s\<lparr>gs_tier := t\<rparr>)"
| leave: "i \<in> gs_inside s \<Longrightarrow> gate_step s (s\<lparr>gs_gate := drop_permit (gs_gate s), gs_inside := gs_inside s - {i}\<rparr>)"
| freeze: "\<not> gs_checkpoint s \<Longrightarrow> freeze_for_checkpoint (gs_gate s) = Some (Inr g) \<Longrightarrow>
    gate_step s (s\<lparr>gs_gate := g, gs_checkpoint := True\<rparr>)"
| thaw: "gs_checkpoint s \<Longrightarrow> gate_step s (s\<lparr>gs_gate := drop_guard panicking (gs_gate s), gs_checkpoint := False\<rparr>)"

definition gate_inv :: "'t gate_state \<Rightarrow> bool" where
  "gate_inv s \<longleftrightarrow> finite (gs_inside s) \<and> gate_permits (gs_gate s) = card (gs_inside s) \<and>
     gate_frozen (gs_gate s) = gs_checkpoint s \<and> (gs_checkpoint s \<longrightarrow> gs_inside s = {})"

definition gate_start :: "'t \<Rightarrow> 't gate_state" where
  "gate_start t = \<lparr>gs_gate = gate_new, gs_inside = {}, gs_checkpoint = False, gs_tier = t\<rparr>"

lemma gate_start_inv: "gate_inv (gate_start t)"
  by (simp add: gate_inv_def gate_start_def gate_new_def)

lemma gate_step_inv: "gate_step s s' \<Longrightarrow> gate_inv s \<Longrightarrow> gate_inv s'"
  by (induction rule: gate_step.induct)
     (auto simp: gate_inv_def acquire_writer_def freeze_for_checkpoint_def drop_permit_def drop_guard_def split: if_splits)

lemma gate_reachable: "gate_step\<^sup>*\<^sup>* s s' \<Longrightarrow> gate_inv s \<Longrightarrow> gate_inv s'"
  by (induction rule: rtranclp_induct) (auto intro: gate_step_inv)

text \<open>While a checkpoint holds the gate, the tier does not change.\<close>

lemma frozen_step:
  assumes "gate_step s s'" and "gate_inv s" and "gs_checkpoint s" and "gs_checkpoint s'"
  shows "gs_tier s' = gs_tier s"
  using assms by (cases rule: gate_step.cases) (auto simp: gate_inv_def)

lemma frozen_run:
  assumes "(\<lambda>a b. gate_step a b \<and> gs_checkpoint b)\<^sup>*\<^sup>* s s'" and "gate_inv s" and "gs_checkpoint s"
  shows "gs_tier s' = gs_tier s"
proof -
  have "gate_inv s' \<and> gs_checkpoint s' \<and> gs_tier s' = gs_tier s"
    using assms by (induction rule: rtranclp_induct) (auto dest: gate_step_inv frozen_step)
  then show ?thesis by blast
qed

end
