(* ===== verification/StoreSamples.thy ===== *)
theory StoreSamples
  imports RebuildProgress RotationLaws Samples
begin

text \<open>
  A disk with one chunk, followed from its creation over an append to sealing, on which the
  hypotheses of the store's properties hold.
\<close>

definition sample_open :: path where "sample_open = [''tier'', ''0000000000000007.open'']"
definition sample_sealed :: path where "sample_sealed = [''tier'', ''0000000000000007.sealed'']"
definition sample_owner :: repo_id where "sample_owner = RepoId (replicate 16 1)"

definition sample_header :: chunk_header where
  "sample_header = \<lparr>ch_generation = 1, ch_chunk_id = 7, ch_created_unix_secs = 0, ch_flags = 0\<rparr>"

lemma sample_owner_wf [simp]: "repo_id_wf sample_owner"
  by (simp add: sample_owner_def repo_id_wf_def catalog_consts)

lemma sample_paths [simp]:
  "is_open_path sample_open" "with_extension sample_open ''sealed'' = sample_sealed" "path_parent sample_open = Some [''tier'']"
  "path_parent sample_sealed = Some [''tier'']" "sample_open \<noteq> sample_sealed" "sample_sealed \<noteq> sample_open" "is_sealed_path sample_sealed"
  by (simp_all add: sample_open_def sample_sealed_def is_open_path_def is_sealed_path_def path_extension_def rsplit_file_at_dot_def
      with_extension_def path_file_stem_def path_parent_def)

definition blank_disk :: disk where
  "blank_disk = \<lparr>dk_inodes = [], dk_names = Map.empty, dk_durable = Map.empty\<rparr>"

text \<open>The disk with the chunk under its open name, all of it durable.\<close>

definition open_disk :: "bytes \<Rightarrow> disk" where
  "open_disk bs = \<lparr>dk_inodes = [\<lparr>ino_data = bs, ino_stable = bs\<rparr>], dk_names = [sample_open \<mapsto> 0], dk_durable = [sample_open \<mapsto> 0]\<rparr>"

definition sealed_disk :: "bytes \<Rightarrow> disk" where
  "sealed_disk bs = \<lparr>dk_inodes = [\<lparr>ino_data = bs, ino_stable = bs\<rparr>], dk_names = [sample_sealed \<mapsto> 0], dk_durable = [sample_sealed \<mapsto> 0]\<rparr>"

lemma sample_disks_wf [simp]:
  "disk_wf blank_disk" "length bs < file_size_limit \<Longrightarrow> disk_wf (open_disk bs)" "length bs < file_size_limit \<Longrightarrow> disk_wf (sealed_disk bs)"
  by (auto simp: disk_wf_def inode_wf_def blank_disk_def open_disk_def sealed_disk_def split: if_splits)

section \<open>The record\<close>

lemma sample_record_decodes: "decode_object_payload sample_crypto sample_zstd sample_record = Inr [1, 2, 3]"
proof -
  have "decode_object_payload sample_crypto sample_zstd sample_record = Inr (concat [[1, 2, 3]])"
    by (rule decode_object_payload_complete [OF sample_crypto_ok])
       (simp_all add: sample_record_def source_reads_def sample_zstd_def)
  then show ?thesis by simp
qed

lemma sample_record_verifies [simp]: "verify_object_record sample_crypto sample_zstd sample_record = Inr ()"
  using sample_record_decodes by (simp add: verify_object_record_eq)

lemma sample_record_length [simp]: "length (record_bytes sample_record) = 152"
  by (simp add: padded_length_def)

lemma sample_record_fits [simp]: "fits sample_record"
  by (simp add: fits_def padded_length_def MAX_RECOVERY_RECORD_BYTES_def)

section \<open>Creating, appending and sealing\<close>

definition sample_writer :: "object_record list \<Rightarrow> chunk_writer" where
  "sample_writer rs = \<lparr>cw_path = sample_open, cw_file = 0, cw_header = sample_header,
     cw_next_offset = word_of_nat (64 + length (encodings rs)), cw_record_count = word_of_nat (length rs),
     cw_records_crc32c = crc32c_update crc32c_new (encodings rs)\<rparr>"

lemma sample_writer_fields [simp]:
  "cw_path (sample_writer rs) = sample_open" "cw_file (sample_writer rs) = 0" "cw_header (sample_writer rs) = sample_header"
  "cw_next_offset (sample_writer rs) = 64 + word_of_nat (length (encodings rs))" "cw_record_count (sample_writer rs) = word_of_nat (length rs)"
  "ch_generation sample_header = 1" "ch_chunk_id sample_header = 7"
  by (simp_all add: sample_writer_def sample_header_def)

lemma sample_created: "cw_create sample_open sample_header (healthy blank_disk) = (Inr (sample_writer []), healthy (open_disk (chunk_front sample_header [])))"
  by (simp add: cw_create_def chunk_parent_def io_def create_new_def fallible_def next_fault_def write_all_at_def sync_data_def sync_dir_def
      blank_disk_def write_inode_def update_inode_def overwrite_def open_disk_def sample_writer_def chunk_front_def)
     (auto simp: fun_eq_iff)

definition sample_catalog :: in_memory_catalog where
  "sample_catalog = im_default\<lparr>im_objects := [(obj_content_id sample_record, object_location_at sample_header 64 sample_record)],
     im_aliases := [((sample_owner, sample_oid), obj_content_id sample_record)],
     im_chunks := [((1, 7), \<lparr>cm_state = Open, cm_size = 216, cm_record_count = 1\<rparr>)]\<rparr>"

text \<open>The catalog once the new chunk has been published.\<close>

definition sample_published :: in_memory_catalog where
  "sample_published = im_default\<lparr>im_chunks := [((1, 7), \<lparr>cm_state = Open, cm_size = 64, cm_record_count = 0\<rparr>)]\<rparr>"

lemma sample_appended_to:
  assumes "cat = im_default \<or> cat = sample_published"
  shows "cw_append_and_index sample_crypto sample_zstd im_ops sample_owner 1 7 sample_record
     ((sample_writer [], healthy (open_disk (chunk_front sample_header []))), cat) =
   (Inr (Some \<lparr>rl_offset = 64, rl_record_length = 152\<rparr>),
     ((sample_writer [sample_record], healthy (open_disk (chunk_front sample_header [sample_record]))), sample_catalog))"
proof -
  have oid: "obj_primary_oid sample_record = sample_oid" by (simp add: sample_record_def)
  have w: "write_all_at 0 64 (record_bytes sample_record) (healthy (open_disk (chunk_front sample_header []))) =
      (Inr (), healthy \<lparr>dk_inodes = [\<lparr>ino_data = chunk_front sample_header [sample_record], ino_stable = chunk_front sample_header []\<rparr>],
         dk_names = [sample_open \<mapsto> 0], dk_durable = [sample_open \<mapsto> 0]\<rparr>)"
    by (simp add: write_all_at_def next_fault_def write_inode_def update_inode_def overwrite_def open_disk_def chunk_front_def)
  have n: "checked_add 64 152 = Some 216" "checked_add 0 1 = Some 1" "try_u64 152 = Some 152" "try_u64 4 = Some 4"
    by (simp_all add: checked_add_def try_u64_def)
  have a: "cw_append sample_crypto sample_zstd sample_record (sample_writer [], healthy (open_disk (chunk_front sample_header []))) =
      (Inr \<lparr>rl_offset = 64, rl_record_length = 152\<rparr>, (sample_writer [sample_record],
        healthy \<lparr>dk_inodes = [\<lparr>ino_data = chunk_front sample_header [sample_record], ino_stable = chunk_front sample_header []\<rparr>],
         dk_names = [sample_open \<mapsto> 0], dk_durable = [sample_open \<mapsto> 0]\<rparr>))"
    using w by (simp add: cw_append_def encode_sample_record io_def sample_writer_def n)
  have sy: "sync_data 0 (healthy \<lparr>dk_inodes = [\<lparr>ino_data = chunk_front sample_header [sample_record], ino_stable = chunk_front sample_header []\<rparr>],
         dk_names = [sample_open \<mapsto> 0], dk_durable = [sample_open \<mapsto> 0]\<rparr>) = (Inr (), healthy (open_disk (chunk_front sample_header [sample_record])))"
    by (simp add: healthy_runs update_inode_def open_disk_def)
  let ?b = "put_chunk 1 7 \<lparr>cm_state = Open, cm_size = 216, cm_record_count = 1\<rparr> (put_oid_alias sample_owner sample_oid (obj_content_id sample_record)
      (put_object_location (obj_content_id sample_record) (location_of 1 7 \<lparr>rl_offset = 64, rl_record_length = 152\<rparr> 4 sample_record) batch_new))"
  have ap: "cat_apply im_ops ?b cat = (Inr (), sample_catalog)"
    using assms
    by (auto simp: im_ops_def im_apply_def batch_defs reject_direct_rebuild_marker_mutation_def hm_insert_def hm_get_def sample_catalog_def im_default_def
        sample_published_def object_location_at_def)
  have "ensure_catalog_writable im_ops cat sample_header = Inr ()" "cat_object_location im_ops cat (obj_content_id sample_record) = None"
    using assms by (auto simp: ensure_catalog_writable_def im_ops_def im_chunk_def im_object_location_def im_default_def sample_published_def hm_get_def)
  then show ?thesis
    using a sy ap by (simp add: cw_append_and_index_def cw_sync_data_def io_def cat_io_def oid try_u64_def)
qed

lemmas sample_appended = sample_appended_to [OF disjI1 [OF refl]]

text \<open>The same through a rotating writer with room for several records.\<close>

definition sample_rotating :: "u64 \<Rightarrow> object_record list \<Rightarrow> rotating_chunk_writer" where
  "sample_rotating target rs = \<lparr>rw_directory = [''tier''], rw_generation = 1, rw_target_size = target, rw_created_unix_secs = 0,
     rw_next_chunk_id = 8, rw_active = Some (sample_writer rs)\<rparr>"

lemma sample_published_new: "cw_publish_open im_ops (sample_writer []) im_default = (Inr (), sample_published)"
  by (simp add: cw_publish_open_def ensure_catalog_writable_def cat_io_def im_ops_def im_chunk_def im_apply_def batch_defs
      reject_direct_rebuild_marker_mutation_def hm_insert_def hm_get_def im_default_def sample_published_def)

lemma sample_rotating_created:
  assumes "128 \<le> target"
  shows "rw_create im_ops [''tier''] 1 7 target 0 (healthy blank_disk, im_default) =
    (Inr (sample_rotating target []), (healthy (open_disk (chunk_front sample_header [])), sample_published))"
proof -
  have p: "path_join [''tier''] (open_chunk_name 7) = sample_open" 
    by (simp add: open_chunk_name_def path_join_def sample_open_def lower_hex_def upt_rec)
  have "cw_create_and_publish im_ops sample_open sample_header (healthy blank_disk, im_default) =
      (Inr (sample_writer []), (healthy (open_disk (chunk_front sample_header [])), sample_published))"
    using sample_created sample_published_new by (simp add: cw_create_and_publish_def)
  moreover have "checked_add 7 1 = Some (8 :: u64)" by (simp add: checked_add_def)
  moreover have "\<lparr>ch_generation = 1, ch_chunk_id = 7, ch_created_unix_secs = 0, ch_flags = 0\<rparr> = sample_header" by (simp add: sample_header_def)
  ultimately have "rw_create_next im_ops ((\<lparr>rw_directory = [''tier''], rw_generation = 1, rw_target_size = target, rw_created_unix_secs = 0,
      rw_next_chunk_id = 7, rw_active = None\<rparr>, healthy blank_disk), im_default) =
    (Inr (), ((sample_rotating target [], healthy (open_disk (chunk_front sample_header []))), sample_published))"
    using p by (simp add: rw_create_next_def sample_rotating_def)
  moreover have "create_dir_all [''tier''] (healthy blank_disk) = (Inr (), healthy blank_disk)" by (simp add: create_dir_all_def fallible_def next_fault_def)
  moreover have "\<not> target < 128" using assms by simp
  moreover have "checked_add 64 64 = Some (128 :: u64)" by (simp add: checked_add_def)
  ultimately show ?thesis
    by (simp add: rw_create_def io_def fails_apply CHUNK_HEADER_LEN_def SEALED_CHUNK_FOOTER_LEN_def)
qed

lemma sample_rotating_appended:
  "rw_append_and_index sample_crypto sample_zstd im_ops sample_owner sample_record
     ((sample_rotating 1000 [], healthy (open_disk (chunk_front sample_header []))), sample_published) =
   (Inr (Some \<lparr>rot_generation = 1, rot_chunk_id = 7, rot_location = \<lparr>rl_offset = 64, rl_record_length = 152\<rparr>, rot_dedicated_oversized = False\<rparr>),
     ((sample_rotating 1000 [sample_record], healthy (open_disk (chunk_front sample_header [sample_record]))), sample_catalog))"
proof -
  have a: "rw_active (sample_rotating 1000 []) = Some (sample_writer [])" by (simp add: sample_rotating_def)
  have n: "try_u64 152 = Some 152" "minimum_record_chunk 152 = Some 280" "would_exceed_target 1000 152 (sample_writer []) = Inr False"
    by (simp_all add: try_u64_def minimum_record_chunk_def would_exceed_target_def checked_add_def CHUNK_HEADER_LEN_def SEALED_CHUNK_FOOTER_LEN_def)
  have l: "cat_object_location im_ops sample_published (obj_content_id sample_record) = None"
    by (simp add: im_ops_def im_object_location_def im_default_def sample_published_def hm_get_def)
  have ap: "active_mut (cw_append_and_index sample_crypto sample_zstd im_ops sample_owner 1 7 sample_record)
      ((sample_rotating 1000 [], healthy (open_disk (chunk_front sample_header []))), sample_published) =
     (Inr (Some \<lparr>rl_offset = 64, rl_record_length = 152\<rparr>),
       ((sample_rotating 1000 [sample_record], healthy (open_disk (chunk_front sample_header [sample_record]))), sample_catalog))"
    using active_mut_Some [where m = "cw_append_and_index sample_crypto sample_zstd im_ops sample_owner 1 7 sample_record",
        OF a sample_appended_to [OF disjI2 [OF refl]]]
    by (simp add: sample_rotating_def)
  show ?thesis
    using a n l ap encode_sample_record
    by (simp add: rw_append_and_index_def seq_active_ask seq_active_check rotate_if_def sample_rotating_def)
qed

section \<open>What holds of them\<close>

lemma im_default_facts [simp]: "im_wf im_default" "im_objects im_default = []" "im_rebuild_in_progress im_default = False"
  "im_chunks im_default = []" "im_aliases im_default = []" "im_meta im_default = []"
  by (simp_all add: im_wf_def im_default_def keys_wf_def vals_wf_def)

lemma blank_disk_names [simp]: "dk_names blank_disk p = None" "dk_inodes blank_disk = []"
  by (simp_all add: blank_disk_def)

lemma sample_inv:
  "chunk_inv sample_crypto sample_zstd im_wf im_view ((sample_writer [], healthy (open_disk (chunk_front sample_header []))), im_default)"
  using im.created_inv(1) [OF _ _ _ sample_created, of im_default sample_crypto sample_zstd] by simp

lemma sample_inv_appended:
  "chunk_inv sample_crypto sample_zstd im_wf im_view
    ((sample_writer [sample_record], healthy (open_disk (chunk_front sample_header [sample_record]))), sample_catalog)"
  by (rule im.append_and_index_result(1) [OF sample_inv sample_record_fits sample_owner_wf sample_appended])

lemma sample_catalog_facts [simp]: "im_wf sample_catalog" "im_rebuild_in_progress sample_catalog = False"
  "hm_get (im_objects sample_catalog) = [obj_content_id sample_record \<mapsto> object_location_at sample_header 64 sample_record]"
  "hm_get (im_aliases sample_catalog) = [(sample_owner, sample_oid) \<mapsto> obj_content_id sample_record]"
  "hm_get (im_chunks sample_catalog) = [(1, 7) \<mapsto> \<lparr>cm_state = Open, cm_size = 216, cm_record_count = 1\<rparr>]"
  using sample_inv_appended by (auto simp: chunk_inv_def sample_catalog_def hm_get_def fun_eq_iff)

section \<open>Reading, recovering and rebuilding it\<close>

abbreviation sample_disk :: disk where
  "sample_disk \<equiv> open_disk (chunk_front sample_header [sample_record])"

lemma open_disk_fields [simp]:
  "dk_names (open_disk bs) = [sample_open \<mapsto> 0]" "dk_durable (open_disk bs) = [sample_open \<mapsto> 0]"
  "data_of (open_disk bs) 0 = bs" "stable_of (open_disk bs) 0 = bs" "length (dk_inodes (open_disk bs)) = 1"
  by (simp_all add: open_disk_def)

lemma sample_read: "outcome (read_record_at sample_crypto sample_zstd sample_open (object_location_at sample_header 64 sample_record)) sample_disk = Inr sample_record"
proof -
  have "disk_wf sample_disk" by simp
  from front_read [OF this, of sample_open 0 sample_header "[]" sample_record sample_crypto sample_zstd] show ?thesis by simp
qed

lemma sample_split: "length t < 128 \<Longrightarrow> split_records (encodings [sample_record] @ t) = ([sample_record], t)"
  using split_records_unique [of "[sample_record]" t] whole_record_short by simp

lemma sample_holds: "chunk_holds sample_crypto sample_zstd sample_disk sample_open sample_header [sample_record]"
  by (simp add: chunk_holds_def)

text \<open>A catalog that has lost its locations and kept an alias.\<close>

definition sample_git_oid :: git_oid where
  "sample_git_oid = (case git_oid_for_object sample_crypto Sha1 Blob [1, 2, 3] of Inr oid \<Rightarrow> oid)"

lemma sample_git_oid: "git_oid_for_object sample_crypto Sha1 Blob [1, 2, 3] = Inr sample_git_oid" "git_oid_wf sample_git_oid" "oid_algorithm sample_git_oid = Sha1"
proof -
  obtain oid where "git_oid_for_object sample_crypto Sha1 Blob [1, 2, 3] = Inr oid" using git_oid_for_object_ok [OF sample_crypto_ok] .
  then show "git_oid_for_object sample_crypto Sha1 Blob [1, 2, 3] = Inr sample_git_oid" by (simp add: sample_git_oid_def)
  then have *: "git_oid_new Sha1 (dg_finalize (sha1 sample_crypto) (dg_update (sha1 sample_crypto) (dg_update (sha1 sample_crypto)
      (dg_new (sha1 sample_crypto)) (ascii ''blob'' @ [32] @ decimal 3 @ [0])) [1, 2, 3])) = Inr sample_git_oid"
    by (simp add: git_oid_for_object_def Let_def numeral_3_eq_3)
  show "git_oid_wf sample_git_oid" by (rule git_oid_new_wf [OF *])
  show "oid_algorithm sample_git_oid = Sha1" using git_oid_new_as_bytes [OF *] by blast
qed

definition stale_catalog :: in_memory_catalog where
  "stale_catalog = im_default\<lparr>im_aliases := [((sample_owner, sample_git_oid), obj_content_id sample_record)]\<rparr>"

lemma stale_catalog_facts [simp]: "im_wf stale_catalog" "im_rebuild_in_progress stale_catalog = False"
  "hm_get (im_aliases stale_catalog) = [(sample_owner, sample_git_oid) \<mapsto> obj_content_id sample_record]"
proof -
  have "content_id_wf (obj_content_id sample_record)" using sample_record_wf by (simp add: object_record_wf_def)
  then show "im_wf stale_catalog"
    using sample_git_oid(2) im_default_facts(1) unfolding im_wf_def by (simp add: stale_catalog_def keys_wf_def vals_wf_def alias_key_wf_def hm_wf_def hm_get_def)
qed (simp_all add: stale_catalog_def hm_get_def fun_eq_iff)

lemma sample_backed: "aliases_backed sample_crypto sample_zstd sample_disk [sample_open] (hm_get (im_aliases stale_catalog))"
proof -
  have "obj_kind sample_record = Blob" by (simp add: sample_record_def)
  moreover have "rs = [sample_record]" if "chunk_holds sample_crypto sample_zstd sample_disk sample_open h rs" for h rs
    using chunk_holds_unique [OF that sample_holds] by simp
  ultimately have "decode_object_payload sample_crypto sample_zstd r = Inr [1, 2, 3] \<and> obj_kind r = Blob"
    if "chunk_holds sample_crypto sample_zstd sample_disk sample_open h rs" "r \<in> set rs" for h rs r
    using that sample_record_decodes by fastforce
  moreover have "\<exists>h rs. chunk_holds sample_crypto sample_zstd sample_disk sample_open h rs \<and> obj_content_id sample_record \<in> obj_content_id ` set rs"
    using sample_holds by fastforce
  ultimately show ?thesis using sample_git_oid by (auto simp: aliases_backed_def split: if_splits)
qed

lemma sample_gathered: "gathered sample_crypto sample_zstd sample_disk (remdups_adj (sort [sample_open])) [sample_header] (candidates_at sample_header sample_open 64 [sample_record])"
  unfolding sort_key_simps insort_key.simps remdups_adj.simps gathered.simps using sample_holds by blast

lemma sample_rebuilt:
  "\<exists>report cat'. rebuild_object_locations sample_crypto sample_zstd im_ops [sample_open] 1 (healthy sample_disk, stale_catalog) = (Inr report, (healthy sample_disk, cat'))"
  by (rule im.rebuild_object_locations_complete [OF sample_crypto_ok _ im_steady _ _ sample_gathered])
     (use sample_backed in \<open>simp_all add: im_view_def\<close>)

section \<open>Sealing it\<close>

lemma im_put_chunk: "\<not> im_rebuild_in_progress cat \<Longrightarrow> \<exists>cat'. cat_apply im_ops (put_chunk g k m batch_new) cat = (Inr (), cat')"
  by (simp add: im_ops_def im_apply_def batch_defs reject_direct_rebuild_marker_mutation_def)

lemma sample_chunk_with:
  "chunk_with sample_crypto sample_zstd (sample_writer []) (open_disk (chunk_front sample_header [])) [] []"
  "chunk_with sample_crypto sample_zstd (sample_writer [sample_record]) sample_disk [sample_record] []"
  by (simp_all add: chunk_with_def writer_wf_def sample_writer_def)

lemma sample_writable: "ensure_catalog_writable im_ops im_default sample_header = Inr ()" "ensure_catalog_writable im_ops sample_catalog sample_header = Inr ()"
  by (simp_all add: ensure_catalog_writable_def im_ops_def im_chunk_def)

lemma sample_open_name: "open_name [sample_open \<mapsto> 0] sample_open 0"
  by (simp add: open_name_def)

lemma sample_seal:
  "\<exists>sealed d' cat'. cw_seal_and_publish im_ops (sample_writer [sample_record]) (healthy sample_disk, sample_catalog) = (Inr sealed, (healthy d', cat'))"
  by (rule seal_healthy [of _ _ "[sample_record]"])
     (use sample_chunk_with(2) sample_writable(2) im_put_chunk [of sample_catalog] in \<open>simp_all add: chunk_with_def sample_open_name\<close>)

text \<open>An append that stopped after 100 bytes, and the seal that follows it.\<close>

lemma sample_stopped:
  "\<exists>d'. cw_append sample_crypto sample_zstd sample_record (sample_writer [], \<lparr>fs_disk = open_disk (chunk_front sample_header []),
      fs_faults = [Fault 100 (IoError OtherIo ''no space left'')]\<rparr>) = (Inl (Io (IoError OtherIo ''no space left'')), (sample_writer [], healthy d')) \<and>
    chunk_with sample_crypto sample_zstd (sample_writer []) d' [] (take 100 (record_bytes sample_record)) \<and> dk_names d' = [sample_open \<mapsto> 0]"
proof -
  obtain q w' s' where run: "cw_append sample_crypto sample_zstd sample_record (sample_writer [], \<lparr>fs_disk = open_disk (chunk_front sample_header []),
      fs_faults = [Fault 100 (IoError OtherIo ''no space left'')]\<rparr>) = (q, (w', s'))" by (metis prod.collapse)
  note st = chunk_append_stopped [OF sample_chunk_with(1) sample_record_fits sample_record_verifies _ _ run]
  have "s' = healthy (fs_disk s')" using st by (cases s') simp
  then show ?thesis using st run by (intro exI [of _ "fs_disk s'"]) simp
qed

end
