(* ===== verification/Store_Props.thy ===== *)
theory Store_Props
  imports StoreSamples
begin

text \<open>
  The properties of the cold store: what survives crashes and failing calls, what the readers accept,
  what recovery, sealing and reconciliation produce, the bounds of rotation, the gate, and what a
  rebuild of the location index establishes.  Every property that speaks of a catalog holds for any
  implementation of the contract; the instances use the in-memory catalog.
\<close>

section \<open>Crashes\<close>








section \<open>Readers\<close>

text \<open>
  C16. \<open>read_record_at\<close> returns a record exactly when the file begins with the header of the location's
  chunk, the record's encoding stands at the offset, the record is within the size limit and verifies,
  and every field of the location is the one the writer publishes for it.
\<close>

theorem read_record_exact:
  assumes "disk_wf d"
  shows "outcome (read_record_at c z p loc) d = Inr r \<longleftrightarrow>
    (\<exists>i h. dk_names d p = Some i \<and> prefix (chunk_header_encode h) (data_of d i) \<and> 64 \<le> unat (loc_offset loc) \<and>
      prefix (record_bytes r) (drop (unat (loc_offset loc)) (data_of d i)) \<and> fits r \<and>
      verify_object_record c z r = Inr () \<and>
      loc = location_of (ch_generation h) (ch_chunk_id h) \<lparr>rl_offset = loc_offset loc, rl_record_length = word_of_nat (length (record_bytes r))\<rparr>
        (word_of_nat (length (obj_payload r))) r)"
  using read_record_at_iff [OF assms] by (simp add: object_location_at_def)

theorem read_record_exact_witness:
  "outcome (read_record_at sample_crypto sample_zstd sample_open (object_location_at sample_header 64 sample_record))
    (open_disk (chunk_front sample_header [sample_record])) = Inr sample_record"
proof -
  have "disk_wf (open_disk (chunk_front sample_header [sample_record]))" by simp
  note exact = read_record_exact [OF this]
  show ?thesis
    unfolding exact
    by (intro exI [of _ 0] exI [of _ sample_header]) (simp add: open_disk_def chunk_front_def object_location_at_def location_of_def)
qed

text \<open>The record that stands at a location, and that the location describes.\<close>

definition located :: "disk \<Rightarrow> path \<Rightarrow> object_location \<Rightarrow> object_record \<Rightarrow> bool" where
  "located d p loc r \<longleftrightarrow> (\<exists>i h. dk_names d p = Some i \<and> prefix (chunk_header_encode h) (data_of d i) \<and>
     decode_record (drop (unat (loc_offset loc)) (data_of d i)) = Inr (r, unat (loc_record_length loc)) \<and>
     loc = object_location_at h (loc_offset loc) r)"

text \<open>
  C23. Streaming is safe for every schedule of faults: a stream that succeeds has handed the writer
  the stored payload, or the decoded content, of the record at the location, in order and nothing else,
  and has not touched the disk.  On a disk without faults both streams succeed wherever \<open>read_record_at\<close> does.
\<close>

theorem streaming_agrees_with_read:
  assumes c: "crypto_ok c" and wf: "disk_wf (fs_disk s)" and wr: "total_writer wr"
  shows "(\<forall>m s' w'. stream_record_at wr p loc (s, w) = (Inr m, (s', w')) \<longrightarrow> fs_disk s' = fs_disk s \<and>
      (\<exists>r ps. located (fs_disk s) p loc r \<and> m = record_meta r \<and> accepted wr w ps w' \<and> concat ps = obj_payload r)) \<and>
    (\<forall>m s' w'. stream_decoded_record_at c z wr p loc (s, w) = (Inr m, (s', w')) \<longrightarrow> fs_disk s' = fs_disk s \<and>
      (\<exists>r ps. located (fs_disk s) p loc r \<and> m = record_meta r \<and> accepted wr w ps w' \<and> decode_object_payload c z r = Inr (concat ps))) \<and>
    (\<forall>r. outcome (read_record_at c z p loc) (fs_disk s) = Inr r \<longrightarrow>
      (\<exists>w'. stream_record_at wr p loc (healthy (fs_disk s), w) = (Inr (record_meta r), (healthy (fs_disk s), w'))) \<and>
      (\<exists>w'. stream_decoded_record_at c z wr p loc (healthy (fs_disk s), w) = (Inr (record_meta r), (healthy (fs_disk s), w'))))"
proof -
  have bw: "byte_writer wr" using wr by (simp add: total_writer_def)
  show ?thesis
  proof (intro conjI allI impI)
    fix m s' w'
    assume run: "stream_record_at wr p loc (s, w) = (Inr m, (s', w'))"
    show "fs_disk s' = fs_disk s" by (rule byte_writer.stream_record_at_sound(1) [OF bw wf run])
    show "\<exists>r ps. located (fs_disk s) p loc r \<and> m = record_meta r \<and> accepted wr w ps w' \<and> concat ps = obj_payload r"
      using byte_writer.stream_record_at_sound(2) [OF bw wf run refl] unfolding located_def by blast
  next
    fix m s' w'
    assume run: "stream_decoded_record_at c z wr p loc (s, w) = (Inr m, (s', w'))"
    note sound = byte_writer.stream_decoded_record_at_sound [OF bw c wf run]
    show "fs_disk s' = fs_disk s" using sound by blast
    show "\<exists>r ps. located (fs_disk s) p loc r \<and> m = record_meta r \<and> accepted wr w ps w' \<and> decode_object_payload c z r = Inr (concat ps)"
      using sound unfolding located_def by blast
  qed (use total_writer.streaming_complete [OF wr c wf] in blast)+
qed

theorem streaming_agrees_with_read_witness:
  "\<exists>w'. stream_decoded_record_at sample_crypto sample_zstd vec_write sample_open (object_location_at sample_header 64 sample_record)
      (healthy (open_disk (chunk_front sample_header [sample_record])), []) =
    (Inr (record_meta sample_record), (healthy (open_disk (chunk_front sample_header [sample_record])), w'))"
proof -
  have "disk_wf (fs_disk (healthy sample_disk))" by simp
  from streaming_agrees_with_read [OF sample_crypto_ok this vec.total_writer_axioms, of sample_open
      "object_location_at sample_header 64 sample_record" "[]" sample_zstd]
  show ?thesis using sample_read by simp
qed

section \<open>Recovery\<close>

lemma recover_open_healthy:
  assumes "dk_names d p = Some i" and "data_of d i = chunk_header_encode h @ body" and "length (data_of d i) < file_size_limit"
    and "split_records body = (rs, t)"
  shows "recover_open_chunk c z p (healthy d) =
    (if t = sealed_footer_encode (sealed_footer_for rs) \<and> list_all (\<lambda>r. verify_object_record c z r = Inr ()) rs
     then (Inl OpenChunkContainsSealedFooter, healthy d) else (Inr (recovery_of h rs t), healthy (reopened i rs t d)))"
proof -
  have op: "io (open_file p) (healthy d) = (Inr i, healthy d)" using healthy_names_runs(3) [OF assms(1)] by (simp add: io_def)
  have at: "attempt (verify_sealed_file c z i) (healthy d) = (Inr (outcome (verify_sealed_file c z i) d) :: store_error + _, healthy d)"
    by (rule attempt_healthy [OF verify_sealed_read_only(2)])
  have ok: "is_ok (outcome (verify_sealed_file c z i) d) \<longleftrightarrow>
      t = sealed_footer_encode (sealed_footer_for rs) \<and> list_all (\<lambda>r. verify_object_record c z r = Inr ()) rs"
    using verify_sealed_split [OF assms(3,2,4), of c z] by (auto simp: is_ok_iff)
  show ?thesis
    using recover_file_healthy [OF assms(2-4), of c z] op at ok
    by (simp add: recover_open_chunk_def reopened_def seq_eff_def)
qed



text \<open>
  C20. On a disk without faults the recovery of an open chunk ends for every content of the file after
  its header: a chunk that is in truth sealed is refused and left alone, any other is cut after its last
  complete record, and recovering it again finds the same records and cuts nothing.
\<close>

theorem recovery_completes:
  assumes "disk_wf d" and "dk_names d p = Some i" and "data_of d i = chunk_header_encode h @ body" and "split_records body = (rs, t)"
  shows "if t = sealed_footer_encode (sealed_footer_for rs) \<and> list_all (\<lambda>r. verify_object_record c z r = Inr ()) rs
    then recover_open_chunk c z p (healthy d) = (Inl OpenChunkContainsSealedFooter, healthy d)
    else recover_open_chunk c z p (healthy d) = (Inr (recovery_of h rs t), healthy (reopened i rs t d)) \<and>
      recover_open_chunk c z p (healthy (reopened i rs t d)) = (Inr (recovery_of h rs []), healthy (reopened i rs t d))"
proof -
  have i: "i < length (dk_inodes d)" by (rule disk_wf_names [OF assms(1,2)])
  have size: "length (data_of d i) < file_size_limit" using inode_wf_at [OF assms(1) i] by (simp add: inode_wf_def)
  let ?d = "reopened i rs t d"
  note re = reopened_data [OF assms(3,4) i]
  note sound = split_records_sound [OF assms(4)]
  have size': "length (data_of ?d i) < file_size_limit" using size by (simp add: re(1) assms(3) sound(1))
  have split': "split_records (encodings rs) = (rs, [])" using split_records_unique [OF sound(2) whole_record_Nil] by simp
  have "[] \<noteq> sealed_footer_encode (sealed_footer_for rs)" using length_sealed_footer_encode by (metis length_0_conv zero_neq_numeral)
  moreover have "dk_names ?d p = Some i" using re(2) assms(2) by simp
  ultimately have second: "recover_open_chunk c z p (healthy ?d) = (Inr (recovery_of h rs []), healthy ?d)"
    using recover_open_healthy [OF _ re(1) size' split', of p c z] by (simp add: reopened_def)
  show ?thesis using recover_open_healthy [OF assms(2,3) size assms(4), of c z] second by auto
qed

theorem recovery_completes_witness:
  "recover_open_chunk sample_crypto sample_zstd sample_open (healthy (open_disk (chunk_front sample_header [sample_record] @ [1, 2, 3]))) =
    (Inr (recovery_of sample_header [sample_record] [1, 2, 3]),
     healthy (reopened 0 [sample_record] [1, 2, 3] (open_disk (chunk_front sample_header [sample_record] @ [1, 2, 3]))))"
proof -
  let ?d = "open_disk (chunk_front sample_header [sample_record] @ [1, 2, 3])"
  have wf: "disk_wf ?d" by simp
  have nm: "dk_names ?d sample_open = Some 0" by simp
  have data: "data_of ?d 0 = chunk_header_encode sample_header @ encodings [sample_record] @ [1, 2, 3]" by (simp add: chunk_front_def)
  have split: "split_records (encodings [sample_record] @ [1, 2, 3]) = ([sample_record], [1, 2, 3])" by (rule sample_split) simp
  have "length [1, 2, 3 :: u8] \<noteq> length (sealed_footer_encode (sealed_footer_for [sample_record]))" by simp
  then have "[1, 2, 3] \<noteq> sealed_footer_encode (sealed_footer_for [sample_record])" by metis
  then show ?thesis using recovery_completes [OF wf nm data split, of sample_crypto sample_zstd] by simp
qed

section \<open>Sealing\<close>

text \<open>
  C15. A file under a sealed name verifies exactly when it is, byte for byte, the header, the encodings
  of records that fit and verify, and the footer with their number, their checksum and the file's length.
\<close>

theorem sealed_chunk_exact:
  assumes "disk_wf d"
  shows "outcome (verify_sealed_chunk c z p) d = Inr sealed \<longleftrightarrow> is_sealed_path p \<and>
    (\<exists>i rs. dk_names d p = Some i \<and> data_of d i = sealed_image (sc_header sealed) rs \<and> list_all fits rs \<and>
      list_all (\<lambda>r. verify_object_record c z r = Inr ()) rs \<and> sealed = \<lparr>sc_path = p, sc_header = sc_header sealed, sc_footer = sealed_footer_for rs\<rparr>)"
proof (cases "\<exists>i. dk_names d p = Some i \<and> is_sealed_path p")
  case True
  then obtain i where i: "dk_names d p = Some i" "is_sealed_path p" by blast
  have size: "length (data_of d i) < file_size_limit"
    using inode_wf_at [OF assms disk_wf_names [OF assms i(1)]] by (simp add: inode_wf_def)
  have "outcome (verify_sealed_chunk c z p) d = Inr sealed \<longleftrightarrow>
      outcome (verify_sealed_file c z i) d = Inr \<lparr>vs_header = sc_header sealed, vs_footer = sc_footer sealed\<rparr> \<and> sc_path sealed = p"
    using i by (cases sealed; cases "outcome (verify_sealed_file c z i) d") (auto simp: verify_sealed_chunk_def outcome_seqs ok_iff)
  then show ?thesis unfolding sealed_image_file [OF size] using i by (cases sealed) auto
qed (auto simp: verify_sealed_chunk_def outcome_seqs)

theorem sealed_chunk_exact_witness:
  "outcome (verify_sealed_chunk sample_crypto sample_zstd sample_sealed) (sealed_disk (sealed_image sample_header [sample_record])) =
    Inr \<lparr>sc_path = sample_sealed, sc_header = sample_header, sc_footer = sealed_footer_for [sample_record]\<rparr>"
proof -
  have "disk_wf (sealed_disk (sealed_image sample_header [sample_record]))" by simp
  note exact = sealed_chunk_exact [OF this]
  show ?thesis unfolding exact
    by (intro conjI exI [of _ 0] exI [of _ "[sample_record]"]) (simp_all add: sealed_disk_def)
qed



text \<open>
  C22. An append that fails after more than 64 bytes have reached the file leaves the writer usable, at
  its old offset.  Sealing it then succeeds, publishes the chunk as sealed, and yields a file that no
  longer verifies: the bytes of the failed append stand behind the footer.
\<close>

theorem stopped_append_breaks_seal:
  assumes "catalog ops invar view" and "chunk_with c z w d rs []" and "open_name (dk_names d) (cw_path w) (cw_file w)"
    and "fits r" and "verify_object_record c z r = Inr ()" and "unat (cw_next_offset w) + length (record_bytes r) < file_size_limit"
    and "64 < n" and "n \<le> length (record_bytes r)"
    and "cw_append c z r (w, \<lparr>fs_disk = d, fs_faults = Fault n e # fl\<rparr>) = (q, (w', s))"
    and "invar cat" and "cw_seal_and_publish ops w' (s, cat) = (Inr sealed, (s', cat'))"
  shows "q = Inl (Io e) \<and> w' = w \<and> outcome (verify_sealed_chunk c z (sc_path sealed)) (fs_disk s') \<noteq> Inr x"
proof -
  note st = chunk_append_stopped [OF assms(2,4,5,6,8,9)]
  then have cw: "chunk_with c z w' (fs_disk s) rs (take n (record_bytes r))" "open_name (dk_names (fs_disk s)) (cw_path w') (cw_file w')"
    using assms(3) by simp_all
  from catalog.seal_result(2) [OF assms(1) cw assms(10,11), of x] assms(7,8)
  have "outcome (verify_sealed_chunk c z (sc_path sealed)) (fs_disk s') \<noteq> Inr x" by simp
  then show ?thesis using st by blast
qed

theorem stopped_append_breaks_seal_witness:
  "\<exists>s sealed s' cat'. cw_append sample_crypto sample_zstd sample_record (sample_writer [], \<lparr>fs_disk = open_disk (chunk_front sample_header []),
      fs_faults = [Fault 100 (IoError OtherIo ''no space left'')]\<rparr>) = (Inl (Io (IoError OtherIo ''no space left'')), (sample_writer [], s)) \<and>
    cw_seal_and_publish im_ops (sample_writer []) (s, im_default) = (Inr sealed, (s', cat')) \<and>
    (\<forall>x. outcome (verify_sealed_chunk sample_crypto sample_zstd (sc_path sealed)) (fs_disk s') \<noteq> Inr x)"
proof -
  obtain d' where st: "cw_append sample_crypto sample_zstd sample_record (sample_writer [], \<lparr>fs_disk = open_disk (chunk_front sample_header []),
      fs_faults = [Fault 100 (IoError OtherIo ''no space left'')]\<rparr>) = (Inl (Io (IoError OtherIo ''no space left'')), (sample_writer [], healthy d'))"
      "writer_wf (sample_writer []) d' []" "dk_names d' = [sample_open \<mapsto> 0]"
    using sample_stopped by (auto simp: chunk_with_def)
  obtain sealed d2 cat' where run: "cw_seal_and_publish im_ops (sample_writer []) (healthy d', im_default) = (Inr sealed, (healthy d2, cat'))"
    using seal_healthy [OF st(2), of im_ops im_default] st(3) sample_writable(1) im_put_chunk [of im_default] sample_open_name by auto
  have "outcome (verify_sealed_chunk sample_crypto sample_zstd (sc_path sealed)) d2 \<noteq> Inr x" for x
    using stopped_append_breaks_seal [OF im.catalog_axioms sample_chunk_with(1) _ sample_record_fits sample_record_verifies _ _ _ st(1) _ run]
      sample_open_name by simp
  then show ?thesis using st(1) run by auto
qed

section \<open>Reconciliation\<close>



section \<open>Rotation\<close>





section \<open>The gate\<close>



section \<open>Rebuilding the location index\<close>

text \<open>
  C4. A rebuild that reports success has established the location index: the locations in the catalog
  are exactly those of content found in the given chunk files, every one of them reads back as a verified
  record with that content identifier, and of several copies it is the one that ranks first.  Every
  alias has been checked against the content it names.  Nothing else in the catalog has changed, no file has
  been written, and the report counts files, records and duplicates exactly.
\<close>

theorem rebuild_establishes_index:
  assumes "catalog ops invar view" and "crypto_ok c" and "disk_wf (fs_disk s)" and "invar cat"
    and "rebuild_object_locations c z ops paths n (s, cat) = (Inr report, (s', cat'))"
  shows "fs_disk s' = fs_disk s \<and> invar cat' \<and>
    (\<exists>objects hs cs. view cat' = (view cat)\<lparr>v_objects := objects, v_rebuilding := False\<rparr> \<and>
      (\<forall>cid loc. objects cid = Some loc \<longrightarrow>
        (\<exists>p \<in> set paths. \<exists>r. outcome (read_record_at c z p loc) (fs_disk s) = Inr r \<and> obj_content_id r = cid)) \<and>
      (\<forall>p \<in> set paths. \<exists>h rs. chunk_holds c z (fs_disk s) p h rs \<and>
        (\<forall>x \<in> set (candidates_at h p 64 rs). \<exists>loc. objects (ole_content_id (rc_entry x)) = Some loc \<and>
          location_rank (current_generation ops cat) loc \<le> candidate_rank (current_generation ops cat) x)) \<and>
      aliases_verified c z (fs_disk s) paths (v_aliases (view cat)) objects \<and>
      gathered c z (fs_disk s) (remdups_adj (sort paths)) hs cs \<and> report_exact paths cs (card (dom objects)) report)"
  using catalog.rebuild_object_locations_result [OF assms] unfolding rebuilt_def by blast

theorem rebuild_establishes_index_witness:
  "\<exists>report cat'. rebuild_object_locations sample_crypto sample_zstd im_ops [sample_open] 1 (healthy sample_disk, stale_catalog) =
      (Inr report, (healthy sample_disk, cat')) \<and>
    (\<exists>loc. v_objects (im_view cat') (obj_content_id sample_record) = Some loc)"
proof -
  obtain report cat' where run: "rebuild_object_locations sample_crypto sample_zstd im_ops [sample_open] 1 (healthy sample_disk, stale_catalog) =
      (Inr report, (healthy sample_disk, cat'))"
    using sample_rebuilt by blast
  have wf: "disk_wf (fs_disk (healthy sample_disk))" by simp
  from rebuild_establishes_index [OF im.catalog_axioms sample_crypto_ok wf stale_catalog_facts(1) run]
  obtain objects where obj: "im_view cat' = (im_view stale_catalog)\<lparr>v_objects := objects, v_rebuilding := False\<rparr>"
      "aliases_verified sample_crypto sample_zstd sample_disk [sample_open] (v_aliases (im_view stale_catalog)) objects"
    by auto
  have "v_aliases (im_view stale_catalog) (sample_owner, sample_git_oid) = Some (obj_content_id sample_record)" by (simp add: im_view_def)
  then have "\<exists>loc. objects (obj_content_id sample_record) = Some loc"
    using obj(2) unfolding aliases_verified_def by blast
  moreover have "v_objects (im_view cat') = objects" unfolding obj(1) by (cases "im_view stale_catalog") simp
  ultimately show ?thesis using run by blast
qed

text \<open>
  C24. A rebuild that fails, at any point and for any reason, has not written a file and has not panicked.
  The catalog is as it was, or it differs in the locations alone and its marker is set: no stale or
  partial index is ever served.
\<close>

theorem rebuild_failure_safe:
  assumes "catalog ops invar view" and "crypto_ok c" and "disk_wf (fs_disk s)" and "invar cat"
    and "rebuild_object_locations c z ops paths n (s, cat) = (Inl e, (s', cat'))"
  shows "fs_disk s' = fs_disk s \<and> invar cat' \<and> e \<noteq> Panics message \<and>
    (view cat' = view cat \<or> (\<exists>m. view cat' = (view cat)\<lparr>v_objects := m, v_rebuilding := True\<rparr>)) \<and>
    (view cat' \<noteq> view cat \<longrightarrow> content_id_wf cid \<longrightarrow> cat_object_location ops cat' cid = None)"
proof -
  note R = catalog.rebuild_object_locations_result [OF assms]
  then have "cat_object_location ops cat' cid = None" if "view cat' \<noteq> view cat" "content_id_wf cid"
    using that catalog.object_location [OF assms(1), of cat' cid] by auto
  then show ?thesis using R by auto
qed

theorem rebuild_failure_safe_witness:
  "\<exists>e s' cat'. rebuild_object_locations sample_crypto sample_zstd im_ops [sample_open] 0 (healthy sample_disk, stale_catalog) = (Inl e, (s', cat')) \<and>
    fs_disk s' = sample_disk \<and> e \<noteq> Panics ''panic'' \<and>
    (im_view cat' = im_view stale_catalog \<or> (\<exists>m. im_view cat' = (im_view stale_catalog)\<lparr>v_objects := m, v_rebuilding := True\<rparr>))"
proof -
  have run: "rebuild_object_locations sample_crypto sample_zstd im_ops [sample_open] 0 (healthy sample_disk, stale_catalog) =
      (Inl (Fails InvalidLocationRebuildBatchSize), (healthy sample_disk, stale_catalog))"
    by (simp add: rebuild_object_locations_def)
  have wf: "disk_wf (fs_disk (healthy sample_disk))" by simp
  from rebuild_failure_safe [OF im.catalog_axioms sample_crypto_ok wf stale_catalog_facts(1) run, of "''panic''"]
  show ?thesis using run by simp
qed

text \<open>
  C17. A rebuild ends and succeeds when neither the disk nor the catalog fails, every chunk file is intact, no
  two of them are the same chunk, the counts stay within 64 bits, and the content of every alias is in
  one of the files and has the alias's object ID.
\<close>

theorem rebuild_completes:
  assumes "catalog ops invar view" and "steady ops invar view" and "crypto_ok c" and "disk_wf d" and "invar cat" and "0 < n"
    and "gathered c z d (remdups_adj (sort paths)) hs cs" and "distinct (map chunk_identity hs)"
    and "length hs < u64_limit" and "length cs < u64_limit" and "card (dom (v_aliases (view cat))) < u64_limit"
    and "aliases_backed c z d paths (v_aliases (view cat))"
  shows "\<exists>report cat'. rebuild_object_locations c z ops paths n (healthy d, cat) = (Inr report, (healthy d, cat'))"
  by (rule catalog.rebuild_object_locations_complete [OF assms(1,3,4,2,5-12)])

theorem rebuild_completes_witness:
  "\<exists>report cat'. rebuild_object_locations sample_crypto sample_zstd im_ops [sample_open] 1 (healthy sample_disk, stale_catalog) =
    (Inr report, (healthy sample_disk, cat'))"
  by (rule rebuild_completes [OF im.catalog_axioms im_steady sample_crypto_ok _ _ _ sample_gathered])
     (use sample_backed in \<open>simp_all add: im_view_def\<close>)

text \<open>
  C27. The order in which the chunk files are given, and giving one several times, makes no difference to a
  rebuild: result, report, disk and catalog are the same.
\<close>

theorem rebuild_ignores_order:
  assumes "set paths = set paths'"
  shows "rebuild_object_locations c z ops paths n = rebuild_object_locations c z ops paths' n"
proof -
  have "remdups_adj (sort paths) = remdups_adj (sort paths')"
    using assms sorted_paths by (intro sorted_distinct_set_unique) simp_all
  then have "preflight_object_location_rebuild c z ops cat paths = preflight_object_location_rebuild c z ops cat paths'" for cat
    by (simp add: preflight_object_location_rebuild_def)
  then show ?thesis by (simp add: rebuild_object_locations_def)
qed

theorem rebuild_ignores_order_witness:
  "rebuild_object_locations sample_crypto sample_zstd im_ops [sample_open, sample_sealed, sample_open] 8 =
    rebuild_object_locations sample_crypto sample_zstd im_ops [sample_sealed, sample_open] 8"
  by (rule rebuild_ignores_order) auto

end
