(* ===== verification/Spec2Isabelle.thy ===== *)
theory Spec2Isabelle
  imports Format_Props Catalog_Props Store_Props
begin

text \<open>
  Reflink Forest: a cold store for Git objects, its byte formats, catalog and append-only chunks.
\<close>

end
